(* ===== verification/Prelude.thy ===== *)
theory Prelude
  imports Complex_Main "HOL-Library.Word" "HOL-Library.Code_Target_Nat"
begin

text \<open>
  Shared vocabulary of the development: the fixed-width integers of the C++ code, its
  exceptions as values of a sum type with one bind operation, and the operations of
  \<open>std::string\<close>, \<open>std::getline\<close> and \<open>std::isspace\<close> the components use.  A
  \<open>std::string\<close> is a \<open>string\<close> of Isabelle/HOL, whose characters are the 256 bytes.
  Positions and container sizes are \<open>nat\<close>: they are bounded by the memory of the process,
  far below the \<open>2 ^ 64\<close> at which \<open>std::size_t\<close> wraps; a \<open>size_t\<close> that carries
  a number read from outside is a 64-bit word.
\<close>

section \<open>Integers\<close>

type_synonym u16 = "16 word"
type_synonym u32 = "32 word"
type_synonym u64 = "64 word"

text \<open>Range checks of \<open>int\<close> and \<open>long long\<close>, whose values the model keeps as \<open>int\<close>.\<close>

definition int32_range :: "int \<Rightarrow> bool" where
  "int32_range i \<longleftrightarrow> - (2 ^ 31) \<le> i \<and> i < 2 ^ 31"

definition int64_range :: "int \<Rightarrow> bool" where
  "int64_range i \<longleftrightarrow> - (2 ^ 63) \<le> i \<and> i < 2 ^ 63"

section \<open>Exceptions as values\<close>

text \<open>
  One constructor per exception class of the standard library that the code throws or
  catches, carrying the text of \<open>what()\<close>.
\<close>

datatype cxx_exn =
    InvalidArgument string
  | OutOfRange string
  | LengthError string
  | RuntimeError string

primrec what :: "cxx_exn \<Rightarrow> string" where
  "what (InvalidArgument s) = s"
| "what (OutOfRange s) = s"
| "what (LengthError s) = s"
| "what (RuntimeError s) = s"

type_synonym 'a result = "cxx_exn + 'a"

definition ebind :: "'e + 'a \<Rightarrow> ('a \<Rightarrow> 'e + 'b) \<Rightarrow> 'e + 'b" where
  "ebind m f = (case m of Inl e \<Rightarrow> Inl e | Inr x \<Rightarrow> f x)"

definition throw_if :: "bool \<Rightarrow> 'e \<Rightarrow> 'e + unit" where
  "throw_if b e = (if b then Inl e else Inr ())"

named_theorems result_simps
  \<open>inversion of binds and guards that end in a value or in an exception\<close>

lemma ebind_Inl [simp]: "ebind (Inl e) f = Inl e"
  by (simp add: ebind_def)

lemma ebind_Inr [simp]: "ebind (Inr x) f = f x"
  by (simp add: ebind_def)

lemma ebind_eq_Inr [result_simps]:
  "ebind m f = Inr y \<longleftrightarrow> (\<exists>x. m = Inr x \<and> f x = Inr y)"
  by (cases m) simp_all

lemma ebind_eq_Inl [result_simps]:
  "ebind m f = Inl e \<longleftrightarrow> m = Inl e \<or> (\<exists>x. m = Inr x \<and> f x = Inl e)"
  by (cases m) simp_all

lemma throw_if_eq_Inr [result_simps]: "throw_if b e = Inr u \<longleftrightarrow> \<not> b"
  by (simp add: throw_if_def)

lemma throw_if_eq_Inl [result_simps]: "throw_if b e = Inl e' \<longleftrightarrow> b \<and> e = e'"
  by (simp add: throw_if_def)

lemma throw_if_simps [simp]: "throw_if True e = Inl e" "throw_if False e = Inr ()"
  by (simp_all add: throw_if_def)

section \<open>Lists\<close>

lemma map_filter_cong:
  "(\<And>x. x \<in> set xs \<Longrightarrow> f x = g x) \<Longrightarrow> List.map_filter f xs = List.map_filter g xs"
  by (induction xs) (simp_all add: map_filter_simps split: option.split)

lemma map_filter_append [simp]: "List.map_filter f (xs @ ys) = List.map_filter f xs @ List.map_filter f ys"
  by (induction xs) (simp_all add: map_filter_simps split: option.split)

lemma set_map_filter: "y \<in> set (List.map_filter f xs) \<longleftrightarrow> (\<exists>x \<in> set xs. f x = Some y)"
  by (induction xs) (auto simp: map_filter_simps split: option.splits)

lemma sorted_hd_le: "sorted (map f xs) \<Longrightarrow> x \<in> set xs \<Longrightarrow> f (hd xs) \<le> f x"
  by (cases xs) auto

lemma sorted_le_last: "sorted (map f xs) \<Longrightarrow> x \<in> set xs \<Longrightarrow> f x \<le> f (last xs)"
  by (induction xs) auto

section \<open>Strings\<close>

abbreviation nl :: char where "nl \<equiv> CHR 0x0A"
abbreviation cr :: char where "cr \<equiv> CHR 0x0D"
abbreviation tab :: char where "tab \<equiv> CHR 0x09"

abbreviation crlf :: string where "crlf \<equiv> [cr, nl]"

text \<open>\<open>std::isspace\<close> in the C locale.\<close>

definition is_space :: "char \<Rightarrow> bool" where
  "is_space c \<longleftrightarrow> c \<in> {CHR '' '', CHR 0x09, CHR 0x0A, CHR 0x0B, CHR 0x0C, CHR 0x0D}"

text \<open>\<open>s.find(c, from)\<close>: the first position not before \<open>from\<close>, \<open>None\<close> for \<open>npos\<close>.\<close>

definition find_char :: "char \<Rightarrow> nat \<Rightarrow> string \<Rightarrow> nat option" where
  "find_char c from s =
     (let rest = drop from s in
      if c \<in> set rest then Some (from + length (takeWhile (\<lambda>x. x \<noteq> c) rest)) else None)"

text \<open>\<open>s.substr(pos, n)\<close>; every call in the code has \<open>pos \<le> s.size()\<close>.\<close>

definition substr :: "string \<Rightarrow> nat \<Rightarrow> nat \<Rightarrow> string" where
  "substr s pos n = take n (drop pos s)"

fun starts_with :: "string \<Rightarrow> string \<Rightarrow> bool" where
  "starts_with [] s = True"
| "starts_with (p # ps) [] = False"
| "starts_with (p # ps) (x # xs) = (p = x \<and> starts_with ps xs)"

text \<open>\<open>s.find(pat)\<close> for a string: the first position where \<open>pat\<close> occurs.\<close>

fun find_str :: "string \<Rightarrow> string \<Rightarrow> nat option" where
  "find_str pat [] = (if pat = [] then Some 0 else None)"
| "find_str pat (x # xs) =
     (if starts_with pat (x # xs) then Some 0 else map_option Suc (find_str pat xs))"

lemma starts_with_iff: "starts_with p s \<longleftrightarrow> (\<exists>t. s = p @ t)"
  by (induction p s rule: starts_with.induct) auto

lemma starts_with_append [simp]: "starts_with p (p @ t)"
  by (auto simp: starts_with_iff)

lemma find_char_None [simp]: "find_char c from s = None \<longleftrightarrow> c \<notin> set (drop from s)"
  by (simp add: find_char_def Let_def)

lemma takeWhile_neq_append: "c \<notin> set a \<Longrightarrow> takeWhile (\<lambda>x. x \<noteq> c) (a @ c # b) = a"
  by (induction a) auto

lemma find_char_append: "c \<notin> set a \<Longrightarrow> find_char c 0 (a @ c # b) = Some (length a)"
  by (simp add: find_char_def takeWhile_neq_append)

lemma find_char_drop:
  "find_char c from s = map_option ((+) from) (find_char c 0 (drop from s))"
  by (simp add: find_char_def Let_def)

lemma find_char_SomeD:
  assumes "find_char c from s = Some p"
  shows "from \<le> p" and "p < length s" and "s ! p = c"
    and "drop from s = substr s from (p - from) @ c # drop (Suc p) s"
    and "c \<notin> set (substr s from (p - from))"
proof -
  from assms have "c \<in> set (drop from s)" by (auto simp: find_char_def Let_def split: if_splits)
  then obtain w t where rest: "drop from s = w @ c # t" and w: "c \<notin> set w"
    using split_list_first by metis
  with assms have p: "p = from + length w"
    by (simp add: find_char_def takeWhile_neq_append)
  have "length s - from = length w + Suc (length t)"
    using rest by (metis length_append length_drop length_Cons)
  then show p_less: "p < length s" by (simp add: p)
  show "from \<le> p" by (simp add: p)
  have "s ! p = drop from s ! length w" using p_less by (simp add: p)
  then show "s ! p = c" by (simp add: rest)
  have sub: "substr s from (p - from) = w" by (simp add: substr_def p rest)
  have "drop (Suc p) s = drop (Suc (length w)) (drop from s)" by (simp add: p add.commute)
  then have "drop (Suc p) s = t" by (simp add: rest)
  then show "drop from s = substr s from (p - from) @ c # drop (Suc p) s"
    by (simp add: sub rest)
  show "c \<notin> set (substr s from (p - from))" using w by (simp add: sub)
qed

lemma substr_prefix [simp]: "substr (a @ b) 0 (length a) = a"
  by (simp add: substr_def)

subsection \<open>Reading lines\<close>

text \<open>
  \<open>std::getline(in, line)\<close> on the unread characters of a stream: it fails when nothing is
  left; otherwise it takes the characters up to the next newline, which it removes too.
\<close>

definition getline :: "string \<Rightarrow> (string \<times> string) option" where
  "getline s =
     (if s = [] then None
      else let line = takeWhile (\<lambda>c. c \<noteq> nl) s in Some (line, drop (Suc (length line)) s))"

lemma getline_shorter: "getline s = Some (line, rest) \<Longrightarrow> length rest < length s"
  by (auto simp: getline_def Let_def split: if_splits)

lemma getline_Nil [simp]: "getline [] = None"
  by (simp add: getline_def)

lemma getline_append_nl: "nl \<notin> set a \<Longrightarrow> getline (a @ nl # b) = Some (a, b)"
  by (simp add: getline_def takeWhile_neq_append)

text \<open>The lines a \<open>while (std::getline(in, line))\<close> loop sees.\<close>

function get_lines :: "string \<Rightarrow> string list" where
  "get_lines s = (case getline s of None \<Rightarrow> [] | Some (line, rest) \<Rightarrow> line # get_lines rest)"
  by pat_completeness auto
termination
  by (relation "measure length") (auto simp: getline_shorter)

declare get_lines.simps [simp del]

lemma get_lines_Nil [simp]: "get_lines [] = []"
  by (subst get_lines.simps) simp

lemma get_lines_append_nl: "nl \<notin> set a \<Longrightarrow> get_lines (a @ nl # b) = a # get_lines b"
  by (subst get_lines.simps) (simp add: getline_append_nl)

lemma get_lines_concat:
  "\<forall>l \<in> set ls. nl \<notin> set l \<Longrightarrow> get_lines (concat (map (\<lambda>l. l @ [nl]) ls)) = ls"
  by (induction ls) (simp_all add: get_lines_append_nl)

lemma get_lines_no_nl: "l \<in> set (get_lines s) \<Longrightarrow> nl \<notin> set l"
proof (induction s rule: get_lines.induct)
  case (1 s)
  show ?case
  proof (cases "getline s")
    case None
    with "1.prems" show ?thesis by (simp add: get_lines.simps [of s])
  next
    case (Some lr)
    then obtain line rest where lr: "getline s = Some (line, rest)" by (cases lr) auto
    then have "nl \<notin> set line"
      by (auto simp: getline_def Let_def dest: set_takeWhileD split: if_splits)
    with "1" lr show ?thesis by (auto simp: get_lines.simps [of s])
  qed
qed

text \<open>\<open>if (!line.empty() && line.back() == '\r') line.pop_back();\<close>\<close>

definition pop_cr :: "string \<Rightarrow> string" where
  "pop_cr line = (if line \<noteq> [] \<and> last line = cr then butlast line else line)"

lemma pop_cr_id: "cr \<notin> set line \<Longrightarrow> pop_cr line = line"
  by (auto simp: pop_cr_def dest: last_in_set)

lemma pop_cr_snoc [simp]: "pop_cr (line @ [cr]) = line"
  by (simp add: pop_cr_def)

section \<open>Log entries\<close>

text \<open>
  What the components hand to \<open>Logger::instance()\<close>: the level and the message.  An operation
  that logs returns the entries it adds, in order.
\<close>

datatype log_level = Info | Warning | Error

type_synonym log_entry = "log_level \<times> string"

end
