(* ===== verification/Floats.thy ===== *)
theory Floats
  imports Prelude "HOL-Library.Log_Nat"
begin

text \<open>
  The \<open>double\<close> of the code: IEEE 754 binary64 values with round-to-nearest-even.  A finite
  value is a sign and a magnitude, a rational on the binary64 grid (so the two zeros are
  \<open>DFin False 0\<close> and \<open>DFin True 0\<close>); the sign of a NaN is not kept.  The operations the
  code uses are the conversion from \<open>uint64_t\<close>, multiplication, division and the
  comparisons; each computes the exact rational and rounds it once.
\<close>

datatype double = DFin bool rat | DInf bool | DNaN

section \<open>Rounding to the binary64 grid\<close>

definition round_half_even :: "rat \<Rightarrow> int" where
  "round_half_even x =
     (let f = \<lfloor>x\<rfloor>; d = x - of_int f in
      if d < 1 / 2 then f else if d > 1 / 2 then f + 1 else if even f then f else f + 1)"

definition pow2 :: "int \<Rightarrow> rat" where "pow2 k = 2 powi k"

text \<open>The binary exponent of a positive rational: \<open>2 powi bexp q \<le> q < 2 powi (bexp q + 1)\<close>.\<close>

definition bexp :: "rat \<Rightarrow> int" where
  "bexp q =
     (let (a, b) = quotient_of q;
          k = int (floorlog 2 (nat a)) - int (floorlog 2 (nat b))
      in if pow2 k \<le> q then k else k - 1)"

text \<open>The distance of neighbouring values: 53 significant bits, no exponent below \<open>-1074\<close>.\<close>

definition ulp :: "rat \<Rightarrow> rat" where
  "ulp q = pow2 (max (bexp q - 52) (-1074))"

definition rnd_mag :: "rat \<Rightarrow> rat" where
  "rnd_mag q = (if q \<le> 0 then 0 else of_int (round_half_even (q / ulp q)) * ulp q)"

text \<open>The first magnitude that is too large for a finite value.\<close>

definition dbl_limit :: rat where "dbl_limit = pow2 1024"

definition round_double :: "bool \<Rightarrow> rat \<Rightarrow> double" where
  "round_double s q = (let r = rnd_mag q in if 0 < r \<and> 1024 \<le> bexp r then DInf s else DFin s r)"

section \<open>Operations\<close>

definition d_of_nat :: "nat \<Rightarrow> double" where
  "d_of_nat n = round_double False (of_nat n)"

definition d_of_u64 :: "u64 \<Rightarrow> double" where
  "d_of_u64 w = d_of_nat (unat w)"

fun d_mul :: "double \<Rightarrow> double \<Rightarrow> double" where
  "d_mul (DFin s a) (DFin t b) = round_double (s \<noteq> t) (a * b)"
| "d_mul (DInf s) (DFin t b) = (if b = 0 then DNaN else DInf (s \<noteq> t))"
| "d_mul (DFin s a) (DInf t) = (if a = 0 then DNaN else DInf (s \<noteq> t))"
| "d_mul (DInf s) (DInf t) = DInf (s \<noteq> t)"
| "d_mul _ _ = DNaN"

fun d_div :: "double \<Rightarrow> double \<Rightarrow> double" where
  "d_div (DFin s a) (DFin t b) =
     (if b = 0 then (if a = 0 then DNaN else DInf (s \<noteq> t)) else round_double (s \<noteq> t) (a / b))"
| "d_div (DInf s) (DFin t b) = DInf (s \<noteq> t)"
| "d_div (DFin s a) (DInf t) = DFin (s \<noteq> t) 0"
| "d_div _ _ = DNaN"

definition d_val :: "bool \<Rightarrow> rat \<Rightarrow> rat" where
  "d_val s q = (if s then - q else q)"

text \<open>\<open>a <= b\<close> and \<open>a < b\<close>; any comparison with a NaN is false.\<close>

fun d_le :: "double \<Rightarrow> double \<Rightarrow> bool" where
  "d_le (DFin s a) (DFin t b) = (d_val s a \<le> d_val t b)"
| "d_le (DFin s a) (DInf t) = (\<not> t)"
| "d_le (DInf s) (DFin t b) = s"
| "d_le (DInf s) (DInf t) = (s \<or> \<not> t)"
| "d_le _ _ = False"

fun d_less :: "double \<Rightarrow> double \<Rightarrow> bool" where
  "d_less (DFin s a) (DFin t b) = (d_val s a < d_val t b)"
| "d_less (DFin s a) (DInf t) = (\<not> t)"
| "d_less (DInf s) (DFin t b) = s"
| "d_less (DInf s) (DInf t) = (s \<and> \<not> t)"
| "d_less _ _ = False"

fun d_isfinite :: "double \<Rightarrow> bool" where
  "d_isfinite (DFin s a) = True"
| "d_isfinite _ = False"

definition d_zero :: double where "d_zero = DFin False 0"

text \<open>A value of the type: its magnitude is on the grid.\<close>

fun d_ok :: "double \<Rightarrow> bool" where
  "d_ok (DFin s a) = (0 \<le> a \<and> a < dbl_limit \<and> rnd_mag a = a)"
| "d_ok _ = True"

section \<open>Laws of rounding\<close>

lemma round_half_even_of_int [simp]: "round_half_even (of_int i) = i"
  by (simp add: round_half_even_def)

lemma round_half_even_cases:
  "(round_half_even x = \<lfloor>x\<rfloor> \<and> x - of_int \<lfloor>x\<rfloor> \<le> 1 / 2) \<or>
   (round_half_even x = \<lfloor>x\<rfloor> + 1 \<and> 1 / 2 \<le> x - of_int \<lfloor>x\<rfloor>)"
  by (auto simp: round_half_even_def Let_def)

lemma round_half_even_error: "\<bar>of_int (round_half_even x) - x\<bar> \<le> 1 / 2"
  using round_half_even_cases [of x] floor_correct [of x] by (auto simp: abs_le_iff)

lemma round_half_even_mono:
  assumes "x \<le> y"
  shows "round_half_even x \<le> round_half_even y"
proof (cases "\<lfloor>x\<rfloor> = \<lfloor>y\<rfloor>")
  case True
  with assms show ?thesis by (auto simp: round_half_even_def Let_def)
next
  case False
  moreover have "\<lfloor>x\<rfloor> \<le> \<lfloor>y\<rfloor>" using assms by (rule floor_mono)
  ultimately have "\<lfloor>x\<rfloor> + 1 \<le> \<lfloor>y\<rfloor>" by linarith
  then show ?thesis using round_half_even_cases [of x] round_half_even_cases [of y] by auto
qed

lemma round_half_even_ge_int: "of_int i \<le> x \<Longrightarrow> i \<le> round_half_even x"
  using round_half_even_mono [of "of_int i" x] by simp

lemma round_half_even_le_int: "x \<le> of_int i \<Longrightarrow> round_half_even x \<le> i"
  using round_half_even_mono [of x "of_int i"] by simp

lemma powi2_pos [simp]: "(0::rat) < 2 powi k"
  by (simp add: zero_less_power_int)

lemma powi2_le_iff [simp]: "(2::rat) powi j \<le> 2 powi k \<longleftrightarrow> j \<le> k"
  using power_int_strict_increasing [of k j "2::rat"] power_int_increasing [of j k "2::rat"]
  by (meson linorder_not_le one_less_numeral_iff semiring_norm(76) one_le_numeral)

lemma powi2_less_iff [simp]: "(2::rat) powi j < 2 powi k \<longleftrightarrow> j < k"
  by (simp add: less_le_not_le)

lemma powi2_nat: "0 \<le> k \<Longrightarrow> (2::rat) powi k = of_int (2 ^ nat k)"
  by (simp add: power_int_nonneg_exp)

lemma powi2_add: "(2::rat) powi (j + k) = 2 powi j * 2 powi k"
  by (simp add: power_int_add)

lemma powi2_diff: "(2::rat) powi (j - k) = 2 powi j / 2 powi k"
  by (simp add: power_int_diff)

lemma floorlog_bounds_rat:
  assumes "0 < n"
  shows "(2::rat) powi (int (floorlog 2 n) - 1) \<le> of_nat n" and "of_nat n < (2::rat) powi int (floorlog 2 n)"
proof -
  have b: "2 ^ (floorlog 2 n - 1) \<le> n" "n < 2 ^ floorlog 2 n"
    using floorlog_bounds [of n 2] assms by auto
  have "0 < floorlog 2 n" using assms by (simp add: floorlog_def)
  then have "int (floorlog 2 n) - 1 = int (floorlog 2 n - 1)" by simp
  then have "(2::rat) powi (int (floorlog 2 n) - 1) = of_nat (2 ^ (floorlog 2 n - 1))"
    by (simp only: power_int_of_nat of_nat_power of_nat_numeral)
  also have "\<dots> \<le> of_nat n" using b(1) by (simp only: of_nat_le_iff)
  finally show "(2::rat) powi (int (floorlog 2 n) - 1) \<le> of_nat n" .
  have "of_nat n < (of_nat (2 ^ floorlog 2 n) :: rat)" using b(2) by (simp only: of_nat_less_iff)
  then show "of_nat n < (2::rat) powi int (floorlog 2 n)"
    by (simp only: power_int_of_nat of_nat_power of_nat_numeral)
qed

lemma bexp_bounds:
  assumes "0 < q"
  shows "2 powi bexp q \<le> q" and "q < 2 powi (bexp q + 1)"
proof -
  obtain a b where ab: "quotient_of q = (a, b)" by (cases "quotient_of q")
  have b: "0 < b" using ab by (rule quotient_of_denom_pos)
  have q: "q = of_int a / of_int b" using ab by (rule quotient_of_div)
  with assms b have a: "0 < a" by (simp add: zero_less_divide_iff)
  define j where "j = int (floorlog 2 (nat a))"
  define k where "k = int (floorlog 2 (nat b))"
  have A: "2 powi (j - 1) \<le> (of_int a :: rat)" "of_int a < (2::rat) powi j"
    using floorlog_bounds_rat [of "nat a"] a by (simp_all add: j_def)
  have B: "2 powi (k - 1) \<le> (of_int b :: rat)" "of_int b < (2::rat) powi k"
    using floorlog_bounds_rat [of "nat b"] b by (simp_all add: k_def)
  have "q < 2 powi j / 2 powi (k - 1)"
    unfolding q using A B a b by (intro frac_less) auto
  then have up: "q < 2 powi (j - k + 1)" by (simp add: powi2_diff powi2_add)
  have "2 powi (j - 1) / 2 powi k < q"
    unfolding q using A B a b by (intro frac_less2) auto
  then have lo: "2 powi (j - k - 1) < q" by (simp add: powi2_diff powi2_add)
  have e: "bexp q = (if 2 powi (j - k) \<le> q then j - k else j - k - 1)"
    by (simp add: bexp_def pow2_def ab j_def k_def Let_def)
  show "2 powi bexp q \<le> q" using e lo by auto
  show "q < 2 powi (bexp q + 1)" using e up by auto
qed

lemma bexp_mono:
  assumes "0 < p" and "p \<le> q"
  shows "bexp p \<le> bexp q"
proof -
  have "2 powi bexp p < (2::rat) powi (bexp q + 1)"
    using bexp_bounds [of p] bexp_bounds [of q] assms by linarith
  then show ?thesis by simp
qed

lemma bexp_less: "0 < q \<Longrightarrow> q < 2 powi k \<Longrightarrow> bexp q < k"
  using bexp_bounds(1) [of q] by (meson le_less_trans powi2_less_iff)

lemma ulp_pos [simp]: "0 < ulp q"
  by (simp add: ulp_def pow2_def)

lemma ulp_nonneg [simp]: "0 \<le> ulp q"
  using ulp_pos [of q] by linarith

lemma ulp_neq_0 [simp]: "ulp q \<noteq> 0"
  using ulp_pos [of q] by linarith

lemma rnd_mag_0 [simp]: "rnd_mag 0 = 0"
  by (simp add: rnd_mag_def)

lemma rnd_mag_pos_eq: "0 < q \<Longrightarrow> rnd_mag q = of_int (round_half_even (q / ulp q)) * ulp q"
  by (simp add: rnd_mag_def)

lemma rnd_mag_nonneg [simp]: "0 \<le> rnd_mag q"
proof (cases "0 < q")
  case True
  then have "0 \<le> round_half_even (q / ulp q)"
    by (intro round_half_even_ge_int) (simp add: zero_le_divide_iff less_imp_le)
  with True show ?thesis by (simp add: rnd_mag_pos_eq)
qed (simp add: rnd_mag_def)

text \<open>A power of two is on the grid of every magnitude of its own or a smaller binade.\<close>

lemma rnd_mag_le_pow:
  assumes "0 < p" and "p \<le> 2 powi k" and "max (bexp p - 52) (-1074) \<le> k"
  shows "rnd_mag p \<le> 2 powi k"
proof -
  define e where "e = max (bexp p - 52) (-1074)"
  have u: "ulp p = 2 powi e" by (simp add: ulp_def pow2_def e_def)
  have N: "2 powi k = of_int (2 ^ nat (k - e)) * ulp p"
    using assms(3) powi2_nat [of "k - e"] powi2_add [of "k - e" e] by (simp add: e_def [symmetric] u)
  have "p / ulp p \<le> of_int (2 ^ nat (k - e))"
    using assms(2) by (simp add: N divide_le_eq)
  then have "round_half_even (p / ulp p) \<le> 2 ^ nat (k - e)" by (rule round_half_even_le_int)
  then show ?thesis
    unfolding N rnd_mag_pos_eq [OF assms(1)]
    by (intro mult_right_mono) (simp_all only: of_int_le_iff less_imp_le ulp_pos)
qed

lemma rnd_mag_ge_pow:
  assumes "0 < q" and "2 powi k \<le> q" and "max (bexp q - 52) (-1074) \<le> k"
  shows "2 powi k \<le> rnd_mag q"
proof -
  define e where "e = max (bexp q - 52) (-1074)"
  have u: "ulp q = 2 powi e" by (simp add: ulp_def pow2_def e_def)
  have N: "2 powi k = of_int (2 ^ nat (k - e)) * ulp q"
    using assms(3) powi2_nat [of "k - e"] powi2_add [of "k - e" e] by (simp add: e_def [symmetric] u)
  have "of_int (2 ^ nat (k - e)) \<le> q / ulp q"
    using assms(2) by (simp add: N le_divide_eq)
  then have "2 ^ nat (k - e) \<le> round_half_even (q / ulp q)" by (rule round_half_even_ge_int)
  then show ?thesis
    unfolding N rnd_mag_pos_eq [OF assms(1)]
    by (intro mult_right_mono) (simp_all only: of_int_le_iff less_imp_le ulp_pos)
qed

lemma rnd_mag_mono:
  assumes "p \<le> q"
  shows "rnd_mag p \<le> rnd_mag q"
proof (cases "0 < p")
  case False
  then have "rnd_mag p = 0" by (simp add: rnd_mag_def)
  then show ?thesis by simp
next
  case p: True
  with assms have q: "0 < q" by simp
  show ?thesis
  proof (cases "ulp p = ulp q")
    case True
    have "round_half_even (p / ulp p) \<le> round_half_even (q / ulp q)"
      using assms True by (intro round_half_even_mono) (simp add: divide_right_mono)
    then show ?thesis
      using p q True by (simp add: rnd_mag_pos_eq mult_right_mono)
  next
    case False
    have "bexp p \<le> bexp q" using p assms by (rule bexp_mono)
    moreover have "bexp p \<noteq> bexp q" using False by (auto simp: ulp_def pow2_def)
    ultimately have lt: "bexp p < bexp q" by simp
    have q1: "max (bexp q - 52) (-1074) = bexp q - 52"
      using False \<open>bexp p \<le> bexp q\<close> by (auto simp: ulp_def pow2_def max_def split: if_splits)
    have p1: "p < 2 powi (bexp p + 1)" using bexp_bounds [OF p] by simp
    also have "2 powi (bexp p + 1) \<le> (2::rat) powi bexp q" using lt by simp
    finally have "p \<le> 2 powi bexp q" by simp
    then have "rnd_mag p \<le> 2 powi bexp q"
      using p q1 lt by (intro rnd_mag_le_pow) auto
    also have "\<dots> \<le> rnd_mag q"
      using q bexp_bounds [OF q] q1 by (intro rnd_mag_ge_pow) auto
    finally show ?thesis .
  qed
qed

text \<open>Integers below \<open>2 ^ 53\<close> are represented exactly.\<close>

lemma rnd_mag_of_nat [simp]:
  assumes "n < 2 ^ 53"
  shows "rnd_mag (of_nat n) = of_nat n"
proof (cases "n = 0")
  case False
  have "(of_nat n :: rat) < of_nat (2 ^ 53)" using assms by (simp only: of_nat_less_iff)
  then have "(of_nat n :: rat) < 2 powi 53" by simp
  then have b: "bexp (of_nat n) < 53" using False by (intro bexp_less) simp_all
  define e where "e = max (bexp (of_nat n) - 52) (-1074)"
  have e: "e \<le> 0" using b by (simp add: e_def)
  have "of_nat n / ulp (of_nat n) = of_nat n * 2 powi (- e)"
    by (simp add: ulp_def pow2_def e_def power_int_minus divide_inverse)
  also have "\<dots> = of_int (int n * 2 ^ nat (- e))" using e by (simp add: powi2_nat)
  finally have grid: "of_nat n / ulp (of_nat n) = of_int (int n * 2 ^ nat (- e))" .
  then have "round_half_even (of_nat n / ulp (of_nat n)) = int n * 2 ^ nat (- e)"
    by (simp only: round_half_even_of_int)
  then have "rnd_mag (of_nat n) = of_int (int n * 2 ^ nat (- e)) * ulp (of_nat n)"
    using False by (simp only: rnd_mag_pos_eq of_nat_0_less_iff)
  then show ?thesis by (simp only: grid [symmetric]) simp
qed simp

lemma pow2_code [code]:
  "pow2 k = (if 0 \<le> k then of_int (2 ^ nat k) else 1 / of_int (2 ^ nat (- k)))"
proof (cases "0 \<le> k")
  case False
  then have "(2::rat) powi k = 1 / 2 powi (- k)"
    using power_int_minus_divide [of "2::rat" "- k"] by simp
  with False show ?thesis by (simp add: pow2_def powi2_nat)
qed (simp add: pow2_def powi2_nat)

lemma le_bexp_iff:
  assumes "0 < q"
  shows "k \<le> bexp q \<longleftrightarrow> 2 powi k \<le> q"
proof
  assume "k \<le> bexp q"
  then have "2 powi k \<le> (2::rat) powi bexp q" by (simp only: powi2_le_iff)
  then show "2 powi k \<le> q" using bexp_bounds(1) [OF assms] by (rule order_trans)
next
  assume "2 powi k \<le> q"
  then have "2 powi k < (2::rat) powi (bexp q + 1)" using bexp_bounds(2) [OF assms] by (rule le_less_trans)
  then show "k \<le> bexp q" by (simp only: powi2_less_iff)
qed

lemma round_double_fin: "rnd_mag q < dbl_limit \<Longrightarrow> round_double s q = DFin s (rnd_mag q)"
  using le_bexp_iff [of "rnd_mag q" 1024]
  by (auto simp: round_double_def Let_def dbl_limit_def pow2_def not_le [symmetric] simp del: power_int_numeral)

lemma rnd_mag_powi:
  assumes "-1074 \<le> k"
  shows "rnd_mag (2 powi k) = 2 powi k"
proof (rule antisym)
  have "2 powi bexp (2 powi k) \<le> (2::rat) powi k" by (rule bexp_bounds) simp
  then have "max (bexp (2 powi k) - 52) (-1074) \<le> k" using assms by simp
  then show "rnd_mag (2 powi k) \<le> 2 powi k" "2 powi k \<le> rnd_mag (2 powi k)"
    by (simp_all add: rnd_mag_le_pow rnd_mag_ge_pow)
qed

lemma rnd_mag_le_powi:
  assumes "q \<le> 2 powi k" and "-1074 \<le> k"
  shows "rnd_mag q \<le> 2 powi k"
  using rnd_mag_mono [OF assms(1)] rnd_mag_powi [OF assms(2)] by simp

lemma rnd_mag_multiple:
  assumes "0 < r" and "r = of_int k * 2 powi e" and "max (bexp r - 52) (-1074) \<le> e"
  shows "rnd_mag r = r"
proof -
  define d where "d = nat (e - max (bexp r - 52) (-1074))"
  have "e = int d + max (bexp r - 52) (-1074)" using assms(3) by (simp add: d_def)
  then have "(2::rat) powi e = 2 ^ d * ulp r" by (simp add: ulp_def pow2_def powi2_add)
  then have "r = of_int (k * 2 ^ d) * ulp r" using assms(2) by simp
  then have "r / ulp r = of_int (k * 2 ^ d)" by (metis nonzero_mult_div_cancel_right ulp_neq_0)
  then show ?thesis using assms(1) \<open>r = of_int (k * 2 ^ d) * ulp r\<close> by (simp only: rnd_mag_pos_eq round_half_even_of_int)
qed

lemma rnd_mag_idem [simp]: "rnd_mag (rnd_mag q) = rnd_mag q"
proof (cases "0 < rnd_mag q")
  case False
  then have "rnd_mag q = 0" using rnd_mag_nonneg [of q] by linarith
  then show ?thesis by simp
next
  case True
  then have q: "0 < q" by (auto simp: rnd_mag_def split: if_splits)
  define e where "e = max (bexp q - 52) (-1074)"
  have r: "rnd_mag q = of_int (round_half_even (q / ulp q)) * 2 powi e"
    using q by (simp add: rnd_mag_pos_eq ulp_def pow2_def e_def)
  have "q \<le> 2 powi (max (bexp q + 1) (-1074))"
    using bexp_bounds(2) [OF q] by (meson le_max_iff_disj less_imp_le order.trans powi2_le_iff max.cobounded1)
  then have le: "rnd_mag q \<le> 2 powi (max (bexp q + 1) (-1074))" by (rule rnd_mag_le_powi) simp
  show ?thesis
  proof (cases "rnd_mag q = 2 powi (max (bexp q + 1) (-1074))")
    case True
    then show ?thesis by (simp add: rnd_mag_powi)
  next
    case False
    with le have "rnd_mag q < 2 powi (max (bexp q + 1) (-1074))" by simp
    then have "bexp (rnd_mag q) < max (bexp q + 1) (-1074)" by (rule bexp_less [OF True])
    then have "max (bexp (rnd_mag q) - 52) (-1074) \<le> e" by (simp add: e_def)
    with True r show ?thesis by (rule rnd_mag_multiple)
  qed
qed

section \<open>Finite results\<close>

lemma d_ok_round [simp]: "d_ok (round_double s q)"
proof (cases "0 < rnd_mag q")
  case True
  then show ?thesis using le_bexp_iff [of "rnd_mag q" 1024]
    by (auto simp: round_double_def Let_def dbl_limit_def pow2_def not_le [symmetric] simp del: power_int_numeral)
next
  case False
  then have "rnd_mag q = 0" using rnd_mag_nonneg [of q] by linarith
  then show ?thesis by (simp add: round_double_def dbl_limit_def pow2_def)
qed

text \<open>The non-negative doubles up to a power of two.\<close>

definition d_upto :: "int \<Rightarrow> double \<Rightarrow> bool" where
  "d_upto k d \<longleftrightarrow> (\<exists>q. d = DFin False q \<and> 0 \<le> q \<and> q \<le> 2 powi k) \<and> d_ok d"

lemma d_upto_isfinite: "d_upto k d \<Longrightarrow> d_isfinite d \<and> d_ok d"
  by (auto simp: d_upto_def)

lemma d_upto_mono: "d_upto j d \<Longrightarrow> j \<le> k \<Longrightarrow> d_upto k d"
  unfolding d_upto_def using order_trans powi2_le_iff by blast

lemma d_upto_zero [simp]: "d_upto k d_zero"
  by (simp add: d_upto_def d_zero_def dbl_limit_def pow2_def)

lemma round_double_below:
  assumes "q \<le> 2 powi k" and "-1074 \<le> k" and "k < 1024"
  shows "round_double s q = DFin s (rnd_mag q)"
proof (rule round_double_fin)
  have "rnd_mag q \<le> 2 powi k" using assms(1,2) by (rule rnd_mag_le_powi)
  also have "\<dots> < 2 powi 1024" using assms(3) by (simp only: powi2_less_iff)
  finally show "rnd_mag q < dbl_limit" by (simp only: dbl_limit_def pow2_def)
qed

lemma d_upto_round:
  assumes "q \<le> 2 powi k" and "-1074 \<le> k" and "k < 1024"
  shows "d_upto k (round_double False q)"
  using round_double_below [OF assms, of False] rnd_mag_le_powi [OF assms(1,2)] d_ok_round [of False q]
  by (simp add: d_upto_def)

lemma d_upto_mul:
  assumes "d_upto j a" and "d_upto k b" and "-1074 \<le> j + k" and "j + k < 1024"
  shows "d_upto (j + k) (d_mul a b)"
proof -
  obtain p q where pq: "a = DFin False p" "b = DFin False q" "0 \<le> p" "0 \<le> q" "p \<le> 2 powi j" "q \<le> 2 powi k"
    using assms(1,2) by (auto simp: d_upto_def)
  then have "p * q \<le> 2 powi (j + k)" by (simp add: powi2_add mult_mono)
  then show ?thesis using assms(3,4) by (simp add: pq(1,2) d_upto_round)
qed

lemma d_upto_div:
  assumes "d_upto j a" and "2 powi (- k) \<le> r" and "-1074 \<le> j + k" and "j + k < 1024"
  shows "d_upto (j + k) (d_div a (DFin False r))"
proof -
  obtain p where p: "a = DFin False p" "0 \<le> p" "p \<le> 2 powi j" using assms(1) by (auto simp: d_upto_def)
  have r: "0 < r" using assms(2) powi2_pos [of "- k"] by linarith
  have "p \<le> 2 powi (j + k) * 2 powi (- k)" using p(3) by (simp add: powi2_add [symmetric])
  also have "\<dots> \<le> 2 powi (j + k) * r" using assms(2) by (simp add: mult_left_mono less_imp_le)
  finally have "p / r \<le> 2 powi (j + k)" using r by (simp add: divide_le_eq)
  then show ?thesis using r assms by (auto simp: p(1) intro!: d_upto_round)
qed

lemma d_upto_of_nat: "n \<le> 2 ^ 64 \<Longrightarrow> d_upto 64 (d_of_nat n)"
  unfolding d_of_nat_def
  by (rule d_upto_round) (metis of_nat_le_iff of_nat_numeral of_nat_power power_int_numeral, simp_all)

lemma d_of_nat_pos:
  assumes "n \<le> 2 ^ 64" and "0 < n"
  shows "\<exists>r \<ge> 1. d_of_nat n = DFin False r"
proof -
  have "d_of_nat n = DFin False (rnd_mag (of_nat n))"
    unfolding d_of_nat_def using assms(1)
    by (intro round_double_below [where k = 64]) (metis of_nat_le_iff of_nat_numeral of_nat_power power_int_numeral, simp_all)
  moreover have "1 \<le> rnd_mag (of_nat n)" using rnd_mag_mono [of 1 "of_nat n"] rnd_mag_of_nat [of 1] assms(2) by simp
  ultimately show ?thesis by blast
qed

lemma unat_u64_le: "unat (w :: u64) \<le> 2 ^ 64"
proof -
  have "unat w < 2 ^ LENGTH(64)" by (rule unsigned_less)
  then show ?thesis by simp
qed

lemma d_upto_u64 [simp]: "d_upto 64 (d_of_u64 w)"
  by (simp only: d_of_u64_def d_upto_of_nat unat_u64_le)

lemma d_of_u64_pos: "w \<noteq> 0 \<Longrightarrow> \<exists>r \<ge> 1. d_of_u64 w = DFin False r"
  unfolding d_of_u64_def by (rule d_of_nat_pos, rule unat_u64_le) (simp add: unat_gt_0)

end
