(* ===== verification/Num_Text.thy ===== *)
theory Num_Text
  imports Floats
begin

text \<open>
  Numbers as text: the parts of the standard library that turn numbers into characters
  (\<open>std::to_string\<close>, \<open>ostream\<close> insertion with and without \<open>std::fixed\<close>) and back
  (\<open>std::stoi\<close>, \<open>std::stoll\<close>, \<open>std::stoull\<close>, \<open>std::stod\<close>), with the position up to
  which the text was read and the exceptions they throw.  The program never calls
  \<open>setlocale\<close>, so the "C" locale holds.  The lemmas show that parsing inverts printing.
\<close>

section \<open>Decimal digits\<close>

definition digit :: "nat \<Rightarrow> char" where
  "digit d = char_of (48 + d)"

definition digit_val :: "char \<Rightarrow> nat" where
  "digit_val c = of_char c - 48"

definition is_digit :: "char \<Rightarrow> bool" where
  "is_digit c \<longleftrightarrow> 48 \<le> (of_char c :: nat) \<and> (of_char c :: nat) \<le> 57"

fun dec :: "nat \<Rightarrow> string" where
  "dec n = (if n < 10 then [digit n] else dec (n div 10) @ [digit (n mod 10)])"

declare dec.simps [simp del]

definition dec_int :: "int \<Rightarrow> string" where
  "dec_int i = (if i < 0 then ''-'' @ dec (nat (- i)) else dec (nat i))"

text \<open>The low \<open>p\<close> digits, with leading zeros.\<close>

fun pad_dec :: "nat \<Rightarrow> nat \<Rightarrow> string" where
  "pad_dec 0 n = []"
| "pad_dec (Suc p) n = pad_dec p (n div 10) @ [digit (n mod 10)]"

definition digits_val :: "string \<Rightarrow> nat" where
  "digits_val ds = foldl (\<lambda>a c. 10 * a + digit_val c) 0 ds"

section \<open>Integers from text\<close>

definition take_sign :: "string \<Rightarrow> bool \<times> string" where
  "take_sign s = (case s of
      c # r \<Rightarrow> if c = CHR ''-'' then (True, r) else if c = CHR ''+'' then (False, r) else (False, s)
    | [] \<Rightarrow> (False, []))"

text \<open>
  The common scan of \<open>strtol\<close>, \<open>strtoll\<close> and \<open>strtoull\<close> in base 10: the sign, the magnitude
  and the number of characters read; \<open>None\<close> when there is no number.
\<close>

definition scan_int :: "string \<Rightarrow> (bool \<times> nat \<times> nat) option" where
  "scan_int s =
     (let (neg, r) = take_sign (dropWhile is_space s);
          ds = takeWhile is_digit r
      in if ds = [] then None
         else Some (neg, digits_val ds, length s - (length r - length ds)))"

definition stoull :: "string \<Rightarrow> (u64 \<times> nat) result" where
  "stoull s = (case scan_int s of
      None \<Rightarrow> Inl (InvalidArgument ''stoull'')
    | Some (neg, n, used) \<Rightarrow>
        if n \<ge> 2 ^ 64 then Inl (OutOfRange ''stoull'')
        else Inr (if neg then - word_of_nat n else word_of_nat n, used))"

definition stoll :: "string \<Rightarrow> (int \<times> nat) result" where
  "stoll s = (case scan_int s of
      None \<Rightarrow> Inl (InvalidArgument ''stoll'')
    | Some (neg, n, used) \<Rightarrow>
        let i = (if neg then - int n else int n)
        in if int64_range i then Inr (i, used) else Inl (OutOfRange ''stoll''))"

definition stoi :: "string \<Rightarrow> int result" where
  "stoi s = (case scan_int s of
      None \<Rightarrow> Inl (InvalidArgument ''stoi'')
    | Some (neg, n, used) \<Rightarrow>
        let i = (if neg then - int n else int n)
        in if int32_range i then Inr i else Inl (OutOfRange ''stoi''))"

section \<open>Floating point from text\<close>

definition is_hex_digit :: "char \<Rightarrow> bool" where
  "is_hex_digit c \<longleftrightarrow> is_digit c \<or> c \<in> set ''abcdefABCDEF''"

definition hex_val :: "char \<Rightarrow> nat" where
  "hex_val c = (if is_digit c then digit_val c
     else if 97 \<le> (of_char c :: nat) then of_char c - 87 else of_char c - 55)"

definition lower :: "char \<Rightarrow> char" where
  "lower c = (let n = of_char c :: nat in if 65 \<le> n \<and> n \<le> 90 then char_of (n + 32) else c)"

text \<open>A mantissa of digits with at most one point: the digits before and after it, the rest.\<close>

definition scan_mantissa :: "(char \<Rightarrow> bool) \<Rightarrow> string \<Rightarrow> string \<times> string \<times> string" where
  "scan_mantissa D s =
     (let ip = takeWhile D s; r = dropWhile D s
      in case r of
           c # r' \<Rightarrow> if c = CHR ''.'' then (ip, takeWhile D r', dropWhile D r') else (ip, [], r)
         | [] \<Rightarrow> (ip, [], []))"

text \<open>An exponent part, read only when digits follow the marker.\<close>

definition scan_exponent :: "char \<Rightarrow> string \<Rightarrow> int \<times> string" where
  "scan_exponent mark s = (case s of
      c # r \<Rightarrow>
        (if lower c = mark then
           let (neg, r') = take_sign r; ds = takeWhile is_digit r'
           in if ds = [] then (0, s)
              else (if neg then - int (digits_val ds) else int (digits_val ds), dropWhile is_digit r')
         else (0, s))
    | [] \<Rightarrow> (0, []))"

datatype scanned = SNum rat | SInf | SNan

definition scan_decimal :: "string \<Rightarrow> (scanned \<times> string) option" where
  "scan_decimal s =
     (let (ip, fp, r) = scan_mantissa is_digit s
      in if ip = [] \<and> fp = [] then None
         else let (e, r') = scan_exponent CHR ''e'' r
              in Some (SNum (of_nat (digits_val (ip @ fp)) / 10 ^ length fp * 10 powi e), r'))"

definition scan_hex :: "string \<Rightarrow> (scanned \<times> string) option" where
  "scan_hex s =
     (let (ip, fp, r) = scan_mantissa is_hex_digit s
      in if ip = [] \<and> fp = [] then None
         else let (e, r') = scan_exponent CHR ''p'' r
              in Some (SNum (of_nat (foldl (\<lambda>a c. 16 * a + hex_val c) 0 (ip @ fp))
                             / 16 ^ length fp * pow2 e), r'))"

definition is_nan_char :: "char \<Rightarrow> bool" where
  "is_nan_char c \<longleftrightarrow> is_digit c \<or> (97 \<le> (of_char (lower c) :: nat) \<and> (of_char (lower c) :: nat) \<le> 122)
     \<or> c = CHR ''_''"

definition scan_nan_tail :: "string \<Rightarrow> string" where
  "scan_nan_tail s = (case s of
      c # r \<Rightarrow> (if c = CHR ''('' then
                  (case dropWhile is_nan_char r of
                     d # r' \<Rightarrow> if d = CHR '')'' then r' else s
                   | [] \<Rightarrow> s)
                else s)
    | [] \<Rightarrow> [])"

definition scan_float :: "string \<Rightarrow> (scanned \<times> string) option" where
  "scan_float s =
     (let l = map lower s in
      if starts_with ''infinity'' l then Some (SInf, drop 8 s)
      else if starts_with ''inf'' l then Some (SInf, drop 3 s)
      else if starts_with ''nan'' l then Some (SNan, scan_nan_tail (drop 3 s))
      else if starts_with ''0x'' l then
        (case scan_hex (drop 2 s) of None \<Rightarrow> scan_decimal s | Some r \<Rightarrow> Some r)
      else scan_decimal s)"

text \<open>
  The underflow that sets \<open>ERANGE\<close>: the result is inexact, and already a rounding with an
  unbounded exponent would be below the smallest normal number.
\<close>

definition underflows :: "rat \<Rightarrow> bool" where
  "underflows q \<longleftrightarrow> 0 < q \<and> rnd_mag q \<noteq> q \<and>
     (let u = pow2 (bexp q - 52) in bexp (of_int (round_half_even (q / u)) * u) < -1022)"

definition stod :: "string \<Rightarrow> (double \<times> nat) result" where
  "stod s =
     (let (neg, r) = take_sign (dropWhile is_space s)
      in case scan_float r of
           None \<Rightarrow> Inl (InvalidArgument ''stod'')
         | Some (v, rest) \<Rightarrow>
             let used = length s - length rest
             in case v of
                  SInf \<Rightarrow> Inr (DInf neg, used)
                | SNan \<Rightarrow> Inr (DNaN, used)
                | SNum q \<Rightarrow>
                    if underflows q \<or> \<not> d_isfinite (round_double neg q)
                    then Inl (OutOfRange ''stod'') else Inr (round_double neg q, used))"

section \<open>Floating point to text\<close>

definition point_string :: "string \<Rightarrow> string" where
  "point_string ds = (if ds = [] then [] else CHR ''.'' # ds)"

text \<open>\<open>"%.<p>f"\<close>: the exact value rounded to \<open>p\<close> decimals, ties to even.\<close>

definition fixed_units :: "nat \<Rightarrow> rat \<Rightarrow> nat" where
  "fixed_units p q = nat (round_half_even (q * 10 ^ p))"

definition show_sign :: "bool \<Rightarrow> string" where
  "show_sign s = (if s then ''-'' else [])"

fun show_fixed :: "nat \<Rightarrow> double \<Rightarrow> string" where
  "show_fixed p (DFin s q) =
     (let n = fixed_units p q
      in show_sign s @ dec (n div 10 ^ p) @ point_string (pad_dec p (n mod 10 ^ p)))"
| "show_fixed p (DInf s) = show_sign s @ ''inf''"
| "show_fixed p DNaN = ''nan''"

text \<open>\<open>std::to_string(double)\<close> prints with six decimals.\<close>

definition to_string_double :: "double \<Rightarrow> string" where
  "to_string_double d = show_fixed 6 d"

text \<open>
  The default \<open>ostream << double\<close>, \<open>"%g"\<close>: six significant digits, trailing zeros removed,
  scientific notation below \<open>1e-4\<close> and from \<open>1e6\<close> on.
\<close>

definition dexp :: "rat \<Rightarrow> int" where
  "dexp q =
     (let (a, b) = quotient_of q;
          k = int (floorlog 10 (nat a)) - int (floorlog 10 (nat b))
      in if 10 powi k \<le> q then k else k - 1)"

definition strip_zeros :: "string \<Rightarrow> string" where
  "strip_zeros s = rev (dropWhile (\<lambda>c. c = CHR ''0'') (rev s))"

definition g_text :: "nat \<Rightarrow> int \<Rightarrow> string" where
  "g_text m e =
     (let ds = dec m
      in if -4 \<le> e \<and> e < 6 then
           if 0 \<le> e then take (nat e + 1) ds @ point_string (strip_zeros (drop (nat e + 1) ds))
           else ''0'' @ point_string (strip_zeros (replicate (nat (- e) - 1) CHR ''0'' @ ds))
         else take 1 ds @ point_string (strip_zeros (drop 1 ds)) @
              (if e < 0 then ''e-'' else ''e+'') @
              (let x = nat \<bar>e\<bar> in if x < 10 then pad_dec 2 x else dec x))"

definition show_g_mag :: "rat \<Rightarrow> string" where
  "show_g_mag q =
     (if q = 0 then ''0''
      else let e = dexp q;
               m = nat (round_half_even (q / 10 powi (e - 5)))
           in if m = 10 ^ 6 then g_text (10 ^ 5) (e + 1) else g_text m e)"

fun show_g :: "double \<Rightarrow> string" where
  "show_g (DFin s q) = show_sign s @ show_g_mag q"
| "show_g (DInf s) = show_sign s @ ''inf''"
| "show_g DNaN = ''nan''"

section \<open>Printing and parsing digits\<close>

lemma of_char_digit: "d < 10 \<Longrightarrow> (of_char (digit d) :: nat) = 48 + d"
  by (simp add: digit_def)

lemma digit_val_digit [simp]: "d < 10 \<Longrightarrow> digit_val (digit d) = d"
  by (simp add: digit_val_def of_char_digit)

lemma is_digit_digit [simp]: "d < 10 \<Longrightarrow> is_digit (digit d)"
  by (simp add: is_digit_def of_char_digit)

lemma not_digit_punct [simp]:
  "\<not> is_digit CHR ''.''" "\<not> is_digit CHR '',''" "\<not> is_digit nl" "\<not> is_digit cr"
  by (simp_all add: is_digit_def)

lemma is_digit_not_special:
  "is_digit c \<Longrightarrow> \<not> is_space c \<and> c \<noteq> CHR ''-'' \<and> c \<noteq> CHR ''+'' \<and> c \<noteq> CHR ''.'' \<and> c \<noteq> CHR '',''
     \<and> c \<noteq> nl \<and> c \<noteq> cr \<and> c \<noteq> CHR ''='' \<and> lower c \<noteq> CHR ''i'' \<and> lower c \<noteq> CHR ''n''
     \<and> lower c \<noteq> CHR ''x''"
  by (auto simp: is_digit_def is_space_def lower_def Let_def split: if_splits)

lemma dec_neq_Nil [simp]: "dec n \<noteq> []"
  by (subst dec.simps) simp

lemma dec_digits: "c \<in> set (dec n) \<Longrightarrow> is_digit c"
proof (induction n rule: dec.induct)
  case (1 n)
  then show ?case by (subst (asm) dec.simps) (auto split: if_splits)
qed

lemma pad_dec_digits: "c \<in> set (pad_dec p n) \<Longrightarrow> is_digit c"
  by (induction p n rule: pad_dec.induct) auto

lemma length_pad_dec [simp]: "length (pad_dec p n) = p"
  by (induction p n rule: pad_dec.induct) auto

lemma digits_val_Nil [simp]: "digits_val [] = 0"
  by (simp add: digits_val_def)

lemma digits_val_snoc [simp]: "digits_val (ds @ [c]) = 10 * digits_val ds + digit_val c"
  by (simp add: digits_val_def)

lemma digits_val_append: "digits_val (xs @ ys) = digits_val xs * 10 ^ length ys + digits_val ys"
proof (induction ys rule: rev_induct)
  case (snoc c ys)
  have "digits_val (xs @ ys @ [c]) = 10 * digits_val (xs @ ys) + digit_val c"
    by (simp add: append_assoc [symmetric] del: append_assoc)
  with snoc show ?case by (simp add: algebra_simps)
qed simp

lemma digits_val_dec [simp]: "digits_val (dec n) = n"
proof (induction n rule: dec.induct)
  case (1 n)
  then show ?case by (subst dec.simps) (auto simp: digits_val_def)
qed

lemma digits_val_pad_dec [simp]: "digits_val (pad_dec p n) = n mod 10 ^ p"
proof (induction p n rule: pad_dec.induct)
  case (2 p n)
  have "n mod 10 ^ Suc p = 10 * (n div 10 mod 10 ^ p) + n mod 10"
    using mod_mult2_eq [of n 10 "10 ^ p"] by simp
  with 2 show ?case by simp
qed simp

lemma takeWhile_digits:
  assumes "\<forall>c \<in> set ds. D c" and "rest = [] \<or> \<not> D (hd rest)"
  shows "takeWhile D (ds @ rest) = ds" and "dropWhile D (ds @ rest) = rest"
  using assms by (cases rest; auto simp: takeWhile_append dropWhile_append)+

lemma dropWhile_space_digits:
  "ds \<noteq> [] \<Longrightarrow> \<forall>c \<in> set ds. is_digit c \<Longrightarrow> dropWhile is_space (ds @ rest) = ds @ rest"
  by (cases ds) (auto dest: is_digit_not_special)

lemma take_sign_digits:
  "ds \<noteq> [] \<Longrightarrow> \<forall>c \<in> set ds. is_digit c \<Longrightarrow> take_sign (ds @ rest) = (False, ds @ rest)"
  by (cases ds) (auto simp: take_sign_def dest: is_digit_not_special)

lemma scan_int_dec:
  assumes "rest = [] \<or> \<not> is_digit (hd rest)"
  shows "scan_int (dec n @ rest) = Some (False, n, length (dec n))"
  using assms takeWhile_digits [of "dec n" is_digit rest]
  by (simp add: scan_int_def dropWhile_space_digits take_sign_digits dec_digits)

lemma scan_int_minus_dec:
  assumes "rest = [] \<or> \<not> is_digit (hd rest)"
  shows "scan_int (CHR ''-'' # dec n @ rest) = Some (True, n, Suc (length (dec n)))"
proof -
  have "dropWhile is_space (CHR ''-'' # dec n @ rest) = CHR ''-'' # dec n @ rest"
    by (simp add: is_space_def)
  then show ?thesis
    using assms takeWhile_digits [of "dec n" is_digit rest]
    by (simp add: scan_int_def take_sign_def dec_digits)
qed

lemma stoull_dec: "n < 2 ^ 64 \<Longrightarrow> stoull (dec n) = Inr (word_of_nat n, length (dec n))"
  using scan_int_dec [of "[]" n] by (simp add: stoull_def)

lemma stoull_dec_u64: "stoull (dec (unat w)) = Inr (w, length (dec (unat w)))"
proof -
  have "unat w < 2 ^ LENGTH(64)" by (rule unsigned_less)
  then show ?thesis by (simp add: stoull_dec)
qed

lemma stoll_dec_int:
  assumes "int64_range i"
  shows "stoll (dec_int i) = Inr (i, length (dec_int i))"
  using assms scan_int_dec [of "[]" "nat i"] scan_int_minus_dec [of "[]" "nat (- i)"]
  by (simp add: stoll_def dec_int_def Let_def)

lemma stoi_dec_int:
  assumes "int32_range i"
  shows "stoi (dec_int i) = Inr i"
  using assms scan_int_dec [of "[]" "nat i"] scan_int_minus_dec [of "[]" "nat (- i)"]
  by (simp add: stoi_def dec_int_def Let_def)

section \<open>Printing and parsing fixed-point numbers\<close>

text \<open>The value that a number printed with \<open>p\<close> decimals is read back as.\<close>

fun fixed_value :: "nat \<Rightarrow> double \<Rightarrow> double" where
  "fixed_value p (DFin s q) = DFin s (rnd_mag (of_nat (fixed_units p q) / 10 ^ p))"
| "fixed_value p d = d"

lemma scan_fixed:
  assumes "ds \<noteq> []" and "\<forall>c \<in> set ds. is_digit c" and "\<forall>c \<in> set fs. is_digit c"
  shows "scan_float (ds @ CHR ''.'' # fs) =
           Some (SNum (of_nat (digits_val (ds @ fs)) / 10 ^ length fs), [])"
proof -
  obtain c r where ds: "ds = c # r" using assms(1) by (cases ds) auto
  have c: "is_digit c" using assms(2) ds by simp
  note ns = is_digit_not_special [OF c]
  have "lower CHR ''.'' \<noteq> CHR ''x''" by (simp add: lower_def)
  moreover have "\<forall>c \<in> set r. lower c \<noteq> CHR ''x''"
    using assms(2) is_digit_not_special by (auto simp: ds)
  ultimately have "\<not> starts_with ''0x'' (map lower (ds @ CHR ''.'' # fs))"
    by (cases r) (auto simp: ds)
  moreover have "\<not> starts_with ''infinity'' (map lower (ds @ CHR ''.'' # fs))"
    "\<not> starts_with ''inf'' (map lower (ds @ CHR ''.'' # fs))"
    "\<not> starts_with ''nan'' (map lower (ds @ CHR ''.'' # fs))"
    using ns by (auto simp: ds)
  moreover have "scan_mantissa is_digit (ds @ CHR ''.'' # fs) = (ds, fs, [])"
    using takeWhile_digits [of ds is_digit "CHR ''.'' # fs"] takeWhile_digits [of fs is_digit "[]"] assms
    by (simp add: scan_mantissa_def Let_def)
  ultimately show ?thesis
    using assms(1) by (simp add: scan_float_def scan_decimal_def scan_exponent_def Let_def)
qed

lemma not_underflows:
  assumes "0 < q" and "-1022 \<le> bexp q"
  shows "\<not> underflows q"
proof -
  have u: "pow2 (bexp q - 52) = ulp q" using assms(2) by (simp add: ulp_def max_absorb1)
  have "2 powi bexp q \<le> rnd_mag q"
    using assms bexp_bounds(1) by (intro rnd_mag_ge_pow) auto
  moreover have "0 < rnd_mag q"
    using calculation powi2_pos [of "bexp q"] by linarith
  ultimately have "bexp q \<le> bexp (rnd_mag q)" by (simp only: le_bexp_iff)
  with assms show ?thesis
    unfolding underflows_def Let_def u rnd_mag_pos_eq [OF assms(1), symmetric] by linarith
qed

lemma tenths_not_underflow:
  assumes "0 < n" and "p \<le> 100"
  shows "\<not> underflows (of_nat n / 10 ^ p)"
proof (rule not_underflows)
  show pos: "0 < (of_nat n / 10 ^ p :: rat)" using assms by simp
  have "(2::rat) powi (- int (4 * p)) = 1 / 2 ^ (4 * p)"
    by (simp only: power_int_minus power_int_of_nat divide_inverse mult_1)
  also have "(2::rat) ^ (4 * p) = 16 ^ p" by (simp add: power_mult)
  finally have "(2::rat) powi (- int (4 * p)) = 1 / 16 ^ p" .
  also have "\<dots> \<le> 1 / 10 ^ p" by (simp add: frac_le power_mono)
  also have "\<dots> \<le> of_nat n / 10 ^ p" using assms(1) by (simp add: divide_right_mono)
  finally have "- int (4 * p) \<le> bexp (of_nat n / 10 ^ p)" using pos by (simp only: le_bexp_iff)
  then show "-1022 \<le> bexp (of_nat n / 10 ^ p :: rat)" using assms(2) by linarith
qed

lemma large_on_grid_is_int:
  assumes "2 powi 53 \<le> q" and "rnd_mag q = q"
  shows "\<exists>z. q = of_int z"
proof -
  have pos: "0 < q" using assms(1) powi2_pos [of 53] by linarith
  then have e: "53 \<le> bexp q" using assms(1) by (simp only: le_bexp_iff)
  then have "ulp q = of_int (2 ^ nat (bexp q - 52))"
    by (simp add: ulp_def pow2_def powi2_nat)
  then have "q = of_int (round_half_even (q / ulp q) * 2 ^ nat (bexp q - 52))"
    using assms(2) pos by (simp add: rnd_mag_pos_eq)
  then show ?thesis by blast
qed

lemma fixed_units_of_int: "0 \<le> z \<Longrightarrow> of_nat (fixed_units p (of_int z)) / 10 ^ p = (of_int z :: rat)"
proof -
  assume "0 \<le> z"
  have "of_int z * 10 ^ p = (of_int (z * 10 ^ p) :: rat)" by simp
  then have "fixed_units p (of_int z) = nat (z * 10 ^ p)"
    unfolding fixed_units_def by (simp only: round_half_even_of_int)
  with \<open>0 \<le> z\<close> show ?thesis by simp
qed

lemma rnd_mag_powi2: "-1022 \<le> k \<Longrightarrow> rnd_mag (2 powi k) \<le> 2 powi k"
proof (rule rnd_mag_le_pow)
  assume "-1022 \<le> k"
  have "bexp (2 powi k) < k + 1" by (rule bexp_less) simp_all
  with \<open>-1022 \<le> k\<close> show "max (bexp (2 powi k) - 52) (-1074) \<le> k" by simp
qed simp_all

lemma fixed_value_in_range:
  assumes "d_ok (DFin s q)"
  shows "rnd_mag (of_nat (fixed_units p q) / 10 ^ p) < dbl_limit"
proof (cases "2 powi 53 \<le> q")
  case True
  with assms obtain z where z: "q = of_int z" using large_on_grid_is_int by auto
  with assms show ?thesis by (simp add: fixed_units_of_int)
next
  case False
  then have "q * 10 ^ p \<le> of_int (2 ^ 53 * 10 ^ p)" by simp
  then have "round_half_even (q * 10 ^ p) \<le> 2 ^ 53 * 10 ^ p" by (rule round_half_even_le_int)
  then have "(of_int (round_half_even (q * 10 ^ p)) :: rat) \<le> of_int (2 ^ 53 * 10 ^ p)"
    by (simp only: of_int_le_iff)
  moreover have "0 \<le> round_half_even (q * 10 ^ p)"
    using assms by (intro round_half_even_ge_int) simp
  ultimately have "of_nat (fixed_units p q) / 10 ^ p \<le> (2 powi 53 :: rat)"
    by (simp add: fixed_units_def divide_le_eq)
  then have "rnd_mag (of_nat (fixed_units p q) / 10 ^ p) \<le> rnd_mag (2 powi 53)"
    by (rule rnd_mag_mono)
  also have "\<dots> \<le> 2 powi 53" by (rule rnd_mag_powi2) simp
  also have "\<dots> < dbl_limit" unfolding dbl_limit_def pow2_def by (simp only: powi2_less_iff)
  finally show ?thesis .
qed

lemma stod_show_fixed:
  assumes ok: "d_ok (DFin s q)" and p: "0 < p" "p \<le> 100"
  shows "stod (show_fixed p (DFin s q)) = Inr (fixed_value p (DFin s q), length (show_fixed p (DFin s q)))"
proof -
  define n where "n = fixed_units p q"
  define ds where "ds = dec (n div 10 ^ p)"
  define fs where "fs = pad_dec p (n mod 10 ^ p)"
  have fs: "fs \<noteq> []" using p(1) by (simp add: fs_def flip: length_greater_0_conv)
  have digs: "ds \<noteq> []" "\<forall>c \<in> set ds. is_digit c" "\<forall>c \<in> set fs. is_digit c"
    by (auto simp: ds_def fs_def dec_digits pad_dec_digits)
  have show_eq: "show_fixed p (DFin s q) = show_sign s @ ds @ CHR ''.'' # fs"
    using fs by (simp add: Let_def point_string_def ds_def fs_def n_def)
  have val: "digits_val (ds @ fs) = n"
    by (simp add: digits_val_append ds_def fs_def div_mult_mod_eq)
  have sign: "take_sign (dropWhile is_space (show_sign s @ ds @ CHR ''.'' # fs)) = (s, ds @ CHR ''.'' # fs)"
    using digs dropWhile_space_digits [of ds] take_sign_digits [of ds]
    by (cases s) (simp_all add: show_sign_def take_sign_def is_space_def)
  have scan: "scan_float (ds @ CHR ''.'' # fs) = Some (SNum (of_nat n / 10 ^ p), [])"
    using scan_fixed [OF digs] by (simp add: val) (simp add: fs_def)
  have "\<not> underflows (of_nat n / 10 ^ p)"
  proof (cases "n = 0")
    case True
    then show ?thesis by (simp add: underflows_def)
  next
    case False
    then show ?thesis using p(2) by (intro tenths_not_underflow) simp_all
  qed
  moreover have "round_double s (of_nat n / 10 ^ p) = DFin s (rnd_mag (of_nat n / 10 ^ p))"
    using fixed_value_in_range [OF ok, of p] by (simp add: round_double_fin n_def)
  ultimately show ?thesis
    unfolding stod_def show_eq sign by (simp add: scan n_def [symmetric])
qed

end
