(* ===== verification/System_Metrics.thy ===== *)
theory System_Metrics
  imports Num_Text
begin

text \<open>
  The data the agent sends and the server keeps: \<open>include/model/SystemMetrics.h\<close>.  One record
  per struct with its members in order; the members of \<open>ProcessMetric\<close> carry the prefix
  \<open>pm_\<close> because Isabelle's record fields are global names.
\<close>

record ProcessMetric =
  pm_pid :: int
  pm_name :: string
  pm_cpuUsagePercent :: double
  pm_memoryUsagePercent :: double
  pm_residentMemoryKB :: u64

record SystemMetrics =
  hostname :: string
  uptimeSeconds :: u64
  logicalCpuCount :: u64
  cpuUsagePercent :: double
  memoryTotalKB :: u64
  memoryUsedKB :: u64
  memoryAvailableKB :: u64
  memoryUsagePercent :: double
  load1 :: double
  load5 :: double
  load15 :: double
  diskMountPoint :: string
  diskTotalBytes :: u64
  diskUsedBytes :: u64
  diskAvailableBytes :: u64
  diskUsagePercent :: double
  networkInterface :: string
  networkRxBytesPerSecond :: double
  networkTxBytesPerSecond :: double
  sampleIntervalSeconds :: double
  topProcesses :: "ProcessMetric list"

text \<open>The values of the default member initialisers.\<close>

definition default_metrics :: SystemMetrics where
  "default_metrics = \<lparr> hostname = [], uptimeSeconds = 0, logicalCpuCount = 0,
     cpuUsagePercent = d_zero, memoryTotalKB = 0, memoryUsedKB = 0, memoryAvailableKB = 0,
     memoryUsagePercent = d_zero, load1 = d_zero, load5 = d_zero, load15 = d_zero,
     diskMountPoint = [], diskTotalBytes = 0, diskUsedBytes = 0, diskAvailableBytes = 0,
     diskUsagePercent = d_zero, networkInterface = [], networkRxBytesPerSecond = d_zero,
     networkTxBytesPerSecond = d_zero, sampleIntervalSeconds = d_zero, topProcesses = [] \<rparr>"

text \<open>
  Metrics a server may rely on after validation: finite numbers, a name for the host, the
  mount point, the interface and every process, at least one CPU and a positive interval.
\<close>

definition valid_process :: "ProcessMetric \<Rightarrow> bool" where
  "valid_process p \<longleftrightarrow> 0 \<le> pm_pid p \<and> int32_range (pm_pid p) \<and> pm_name p \<noteq> [] \<and>
     d_isfinite (pm_cpuUsagePercent p) \<and> d_isfinite (pm_memoryUsagePercent p)"

definition metric_doubles :: "SystemMetrics \<Rightarrow> double list" where
  "metric_doubles m = [cpuUsagePercent m, memoryUsagePercent m, load1 m, load5 m, load15 m,
     diskUsagePercent m, networkRxBytesPerSecond m, networkTxBytesPerSecond m,
     sampleIntervalSeconds m]"

definition valid_metrics :: "SystemMetrics \<Rightarrow> bool" where
  "valid_metrics m \<longleftrightarrow> hostname m \<noteq> [] \<and> diskMountPoint m \<noteq> [] \<and> networkInterface m \<noteq> [] \<and>
     logicalCpuCount m \<noteq> 0 \<and> d_less d_zero (sampleIntervalSeconds m) \<and>
     (\<forall>d \<in> set (metric_doubles m). d_isfinite d) \<and> (\<forall>p \<in> set (topProcesses m). valid_process p)"

end
