(* ===== verification/Metrics_Serializer.thy ===== *)
theory Metrics_Serializer
  imports System_Metrics
begin

text \<open>
  \<open>MetricsSerializer::serialize\<close> (\<open>src/serializer/MetricsSerializer.cpp\<close>): the text the agent
  sends, one \<open>key=value\<close> line per member and one line per process.  The stream prints
  integers in decimal and, after \<open>std::fixed << std::setprecision(2)\<close>, doubles with two
  decimals.
\<close>

definition field_text :: "string \<Rightarrow> string \<Rightarrow> string" where
  "field_text key value = key @ ''='' @ value @ [nl]"

definition show2 :: "double \<Rightarrow> string" where
  "show2 d = show_fixed 2 d"

definition process_value :: "ProcessMetric \<Rightarrow> string" where
  "process_value p = dec_int (pm_pid p) @ '','' @ show2 (pm_cpuUsagePercent p) @ '','' @
     show2 (pm_memoryUsagePercent p) @ '','' @ dec (unat (pm_residentMemoryKB p)) @ '','' @ pm_name p"

definition serialize_process :: "ProcessMetric \<Rightarrow> string" where
  "serialize_process p = field_text ''process'' (process_value p)"

definition serialize :: "SystemMetrics \<Rightarrow> string" where
  "serialize m =
     ''LMONITOR/1'' @ [nl] @
     field_text ''hostname'' (hostname m) @
     field_text ''uptime_seconds'' (dec (unat (uptimeSeconds m))) @
     field_text ''logical_cpus'' (dec (unat (logicalCpuCount m))) @
     field_text ''cpu_usage_percent'' (show2 (cpuUsagePercent m)) @
     field_text ''memory_total_kb'' (dec (unat (memoryTotalKB m))) @
     field_text ''memory_used_kb'' (dec (unat (memoryUsedKB m))) @
     field_text ''memory_available_kb'' (dec (unat (memoryAvailableKB m))) @
     field_text ''memory_usage_percent'' (show2 (memoryUsagePercent m)) @
     field_text ''load_1'' (show2 (load1 m)) @
     field_text ''load_5'' (show2 (load5 m)) @
     field_text ''load_15'' (show2 (load15 m)) @
     field_text ''disk_mount'' (diskMountPoint m) @
     field_text ''disk_total_bytes'' (dec (unat (diskTotalBytes m))) @
     field_text ''disk_used_bytes'' (dec (unat (diskUsedBytes m))) @
     field_text ''disk_available_bytes'' (dec (unat (diskAvailableBytes m))) @
     field_text ''disk_usage_percent'' (show2 (diskUsagePercent m)) @
     field_text ''network_interface'' (networkInterface m) @
     field_text ''network_rx_bytes_per_second'' (show2 (networkRxBytesPerSecond m)) @
     field_text ''network_tx_bytes_per_second'' (show2 (networkTxBytesPerSecond m)) @
     field_text ''sample_interval_seconds'' (show2 (sampleIntervalSeconds m)) @
     field_text ''process_count'' (dec (length (topProcesses m))) @
     concat (map serialize_process (topProcesses m))"

text \<open>The scalar members as key and printed value, in the order they are written.\<close>

definition scalar_fields :: "SystemMetrics \<Rightarrow> (string \<times> string) list" where
  "scalar_fields m =
    [(''hostname'', hostname m),
     (''uptime_seconds'', dec (unat (uptimeSeconds m))),
     (''logical_cpus'', dec (unat (logicalCpuCount m))),
     (''cpu_usage_percent'', show2 (cpuUsagePercent m)),
     (''memory_total_kb'', dec (unat (memoryTotalKB m))),
     (''memory_used_kb'', dec (unat (memoryUsedKB m))),
     (''memory_available_kb'', dec (unat (memoryAvailableKB m))),
     (''memory_usage_percent'', show2 (memoryUsagePercent m)),
     (''load_1'', show2 (load1 m)),
     (''load_5'', show2 (load5 m)),
     (''load_15'', show2 (load15 m)),
     (''disk_mount'', diskMountPoint m),
     (''disk_total_bytes'', dec (unat (diskTotalBytes m))),
     (''disk_used_bytes'', dec (unat (diskUsedBytes m))),
     (''disk_available_bytes'', dec (unat (diskAvailableBytes m))),
     (''disk_usage_percent'', show2 (diskUsagePercent m)),
     (''network_interface'', networkInterface m),
     (''network_rx_bytes_per_second'', show2 (networkRxBytesPerSecond m)),
     (''network_tx_bytes_per_second'', show2 (networkTxBytesPerSecond m)),
     (''sample_interval_seconds'', show2 (sampleIntervalSeconds m)),
     (''process_count'', dec (length (topProcesses m)))]"

lemma serialize_lines:
  "serialize m = ''LMONITOR/1'' @ [nl] @
     concat (map (\<lambda>(k, v). field_text k v) (scalar_fields m)) @
     concat (map (\<lambda>p. field_text ''process'' (process_value p)) (topProcesses m))"
  by (simp add: serialize_def scalar_fields_def serialize_process_def [abs_def])

lemma show2_chars:
  assumes "d_isfinite d" and "c \<in> set (show2 d)"
  shows "is_digit c \<or> c = CHR ''.'' \<or> c = CHR ''-''"
  using assms
  by (cases d) (auto simp: show2_def Let_def point_string_def show_sign_def dest: dec_digits pad_dec_digits
      split: if_splits)

lemma show2_neq_Nil: "d_isfinite d \<Longrightarrow> show2 d \<noteq> []"
  by (cases d) (simp_all add: show2_def Let_def)

lemma dec_int_chars: "c \<in> set (dec_int i) \<Longrightarrow> is_digit c \<or> c = CHR ''-''"
  by (auto simp: dec_int_def dest: dec_digits split: if_splits)

end
