(* ===== verification/Metrics_Deserializer.thy ===== *)
theory Metrics_Deserializer
  imports Metrics_Serializer
begin

text \<open>
  \<open>MetricsDeserializer\<close> (\<open>src/serializer/MetricsDeserializer.cpp\<close>): validation and parsing of
  the text a worker of the server receives.  Each helper of the anonymous namespace is a
  function into \<open>result\<close>, with the texts of its exceptions; the loop over the lines
  threads a record that holds its local variables.
\<close>

section \<open>Field parsers\<close>

definition bad_value :: "string \<Rightarrow> string \<Rightarrow> string \<Rightarrow> cxx_exn" where
  "bad_value msg field value = RuntimeError (msg @ field @ CHR 0x27 # '': '' @ value)"

definition bad_field :: "string \<Rightarrow> string \<Rightarrow> cxx_exn" where
  "bad_field msg field = RuntimeError (msg @ field @ [CHR 0x27])"

definition parseUint64 :: "string \<Rightarrow> string \<Rightarrow> u64 result" where
  "parseUint64 value fieldName =
     (if value = [] then Inl (RuntimeError (''Empty integer field: '' @ fieldName))
      else case stoull value of
             Inl _ \<Rightarrow> Inl (bad_value (''Invalid unsigned integer for field '' @ [CHR 0x27]) fieldName value)
           | Inr (parsedValue, parsedCharacters) \<Rightarrow>
               if parsedCharacters \<noteq> length value
               then Inl (bad_value (''Invalid trailing characters in field '' @ [CHR 0x27]) fieldName value)
               else Inr parsedValue)"

definition parseSize :: "string \<Rightarrow> string \<Rightarrow> u64 result" where
  "parseSize value fieldName =
     ebind (parseUint64 value fieldName) (\<lambda>parsedValue.
       if unat parsedValue > 2 ^ 64 - 1
       then Inl (bad_field (''Value too large for field '' @ [CHR 0x27]) fieldName)
       else Inr parsedValue)"

definition parseInt :: "string \<Rightarrow> string \<Rightarrow> int result" where
  "parseInt value fieldName =
     (if value = [] then Inl (RuntimeError (''Empty integer field: '' @ fieldName))
      else case stoll value of
             Inl _ \<Rightarrow> Inl (bad_value (''Invalid integer for field '' @ [CHR 0x27]) fieldName value)
           | Inr (parsedValue, parsedCharacters) \<Rightarrow>
               if parsedCharacters \<noteq> length value
               then Inl (bad_value (''Invalid trailing characters in field '' @ [CHR 0x27]) fieldName value)
               else if \<not> int32_range parsedValue
               then Inl (bad_field (''Integer out of range for field '' @ [CHR 0x27]) fieldName)
               else Inr parsedValue)"

definition parseDouble :: "string \<Rightarrow> string \<Rightarrow> double result" where
  "parseDouble value fieldName =
     (if value = [] then Inl (RuntimeError (''Empty floating-point field: '' @ fieldName))
      else case stod value of
             Inl _ \<Rightarrow> Inl (bad_value (''Invalid floating-point value for field '' @ [CHR 0x27]) fieldName value)
           | Inr (parsedValue, parsedCharacters) \<Rightarrow>
               if parsedCharacters \<noteq> length value
               then Inl (bad_value (''Invalid trailing characters in field '' @ [CHR 0x27]) fieldName value)
               else if \<not> d_isfinite parsedValue
               then Inl (bad_field (''Non-finite value for field '' @ [CHR 0x27]) fieldName)
               else Inr parsedValue)"

text \<open>The loop over the first four commas: the fields so far and where the next one starts.\<close>

fun split_fields :: "nat \<Rightarrow> string \<Rightarrow> nat \<Rightarrow> string list \<Rightarrow> (string list \<times> nat) result" where
  "split_fields 0 value fieldStart fs = Inr (fs, fieldStart)"
| "split_fields (Suc i) value fieldStart fs =
     (case find_char CHR '','' fieldStart value of
        None \<Rightarrow> Inl (RuntimeError (''Malformed process record: '' @ value))
      | Some commaPosition \<Rightarrow>
          split_fields i value (commaPosition + 1)
            (fs @ [substr value fieldStart (commaPosition - fieldStart)]))"

definition parseProcess :: "string \<Rightarrow> ProcessMetric result" where
  "parseProcess value =
     ebind (split_fields 4 value 0 []) (\<lambda>(fs, fieldStart).
     let fs = fs @ [substr value fieldStart (length value - fieldStart)] in
     ebind (throw_if (length fs \<noteq> 5) (RuntimeError ''Malformed process record'')) (\<lambda>_.
     ebind (parseInt (fs ! 0) ''process.pid'') (\<lambda>pid.
     ebind (throw_if (pid < 0) (RuntimeError ''Negative process pid'')) (\<lambda>_.
     ebind (parseDouble (fs ! 1) ''process.cpu_usage_percent'') (\<lambda>cpu.
     ebind (parseDouble (fs ! 2) ''process.memory_usage_percent'') (\<lambda>mem.
     ebind (parseUint64 (fs ! 3) ''process.resident_memory_kb'') (\<lambda>rss.
     ebind (throw_if (fs ! 4 = []) (RuntimeError ''Process name must not be empty'')) (\<lambda>_.
       Inr \<lparr> pm_pid = pid, pm_name = fs ! 4, pm_cpuUsagePercent = cpu,
             pm_memoryUsagePercent = mem, pm_residentMemoryKB = rss \<rparr>))))))))"

section \<open>Required fields\<close>

definition markRequiredField :: "string set \<Rightarrow> string \<Rightarrow> string set result" where
  "markRequiredField fs key =
     (if key \<in> fs then Inl (RuntimeError (''Duplicate field: '' @ key)) else Inr (insert key fs))"

definition requiredFields :: "string list" where
  "requiredFields =
    [''hostname'', ''uptime_seconds'', ''logical_cpus'', ''cpu_usage_percent'',
     ''memory_total_kb'', ''memory_used_kb'', ''memory_available_kb'', ''memory_usage_percent'',
     ''load_1'', ''load_5'', ''load_15'', ''disk_mount'', ''disk_total_bytes'', ''disk_used_bytes'',
     ''disk_available_bytes'', ''disk_usage_percent'', ''network_interface'',
     ''network_rx_bytes_per_second'', ''network_tx_bytes_per_second'',
     ''sample_interval_seconds'', ''process_count'']"

fun require_all :: "string list \<Rightarrow> string set \<Rightarrow> unit result" where
  "require_all [] fs = Inr ()"
| "require_all (field # rest) fs =
     (if field \<notin> fs then Inl (RuntimeError (''Missing required field: '' @ field))
      else require_all rest fs)"

definition verifyRequiredFields :: "string set \<Rightarrow> unit result" where
  "verifyRequiredFields fs = require_all requiredFields fs"

section \<open>The loop over the lines\<close>

text \<open>The local variables of \<open>deserialize\<close> that the loop changes.\<close>

record parse_state =
  ps_metrics :: SystemMetrics
  ps_received :: "string set"
  ps_expected :: u64
  ps_countSeen :: bool

definition init_parse :: parse_state where
  "init_parse = \<lparr> ps_metrics = default_metrics, ps_received = {}, ps_expected = 0, ps_countSeen = False \<rparr>"

definition upd_metrics :: "(SystemMetrics \<Rightarrow> SystemMetrics) \<Rightarrow> parse_state \<Rightarrow> parse_state" where
  "upd_metrics f ps = ps\<lparr> ps_metrics := f (ps_metrics ps) \<rparr>"

text \<open>
  The chain of \<open>else if\<close> on the key, cut into its commented groups: each answers
  \<open>None\<close> when the key is not one of its own and the chain goes on.
\<close>

definition assign_system :: "string \<Rightarrow> string \<Rightarrow> parse_state \<Rightarrow> parse_state result option" where
  "assign_system key value ps =
     (if key = ''hostname'' then Some (
        ebind (throw_if (value = []) (RuntimeError ''hostname must not be empty'')) (\<lambda>_.
        Inr (upd_metrics (\<lambda>m. m\<lparr> hostname := value \<rparr>) ps)))
      else if key = ''uptime_seconds'' then Some (
        ebind (parseUint64 value key) (\<lambda>v. Inr (upd_metrics (\<lambda>m. m\<lparr> uptimeSeconds := v \<rparr>) ps)))
      else if key = ''logical_cpus'' then Some (
        ebind (parseSize value key) (\<lambda>v.
        ebind (throw_if (v = 0) (RuntimeError ''logical_cpus must be greater than 0'')) (\<lambda>_.
        Inr (upd_metrics (\<lambda>m. m\<lparr> logicalCpuCount := v \<rparr>) ps))))
      else None)"

definition assign_cpu_memory :: "string \<Rightarrow> string \<Rightarrow> parse_state \<Rightarrow> parse_state result option" where
  "assign_cpu_memory key value ps =
     (if key = ''cpu_usage_percent'' then Some (
        ebind (parseDouble value key) (\<lambda>v. Inr (upd_metrics (\<lambda>m. m\<lparr> cpuUsagePercent := v \<rparr>) ps)))
      else if key = ''memory_total_kb'' then Some (
        ebind (parseUint64 value key) (\<lambda>v. Inr (upd_metrics (\<lambda>m. m\<lparr> memoryTotalKB := v \<rparr>) ps)))
      else if key = ''memory_used_kb'' then Some (
        ebind (parseUint64 value key) (\<lambda>v. Inr (upd_metrics (\<lambda>m. m\<lparr> memoryUsedKB := v \<rparr>) ps)))
      else if key = ''memory_available_kb'' then Some (
        ebind (parseUint64 value key) (\<lambda>v. Inr (upd_metrics (\<lambda>m. m\<lparr> memoryAvailableKB := v \<rparr>) ps)))
      else if key = ''memory_usage_percent'' then Some (
        ebind (parseDouble value key) (\<lambda>v. Inr (upd_metrics (\<lambda>m. m\<lparr> memoryUsagePercent := v \<rparr>) ps)))
      else None)"

definition assign_load_disk :: "string \<Rightarrow> string \<Rightarrow> parse_state \<Rightarrow> parse_state result option" where
  "assign_load_disk key value ps =
     (if key = ''load_1'' then Some (
        ebind (parseDouble value key) (\<lambda>v. Inr (upd_metrics (\<lambda>m. m\<lparr> load1 := v \<rparr>) ps)))
      else if key = ''load_5'' then Some (
        ebind (parseDouble value key) (\<lambda>v. Inr (upd_metrics (\<lambda>m. m\<lparr> load5 := v \<rparr>) ps)))
      else if key = ''load_15'' then Some (
        ebind (parseDouble value key) (\<lambda>v. Inr (upd_metrics (\<lambda>m. m\<lparr> load15 := v \<rparr>) ps)))
      else if key = ''disk_mount'' then Some (
        ebind (throw_if (value = []) (RuntimeError ''disk_mount must not be empty'')) (\<lambda>_.
        Inr (upd_metrics (\<lambda>m. m\<lparr> diskMountPoint := value \<rparr>) ps)))
      else if key = ''disk_total_bytes'' then Some (
        ebind (parseUint64 value key) (\<lambda>v. Inr (upd_metrics (\<lambda>m. m\<lparr> diskTotalBytes := v \<rparr>) ps)))
      else if key = ''disk_used_bytes'' then Some (
        ebind (parseUint64 value key) (\<lambda>v. Inr (upd_metrics (\<lambda>m. m\<lparr> diskUsedBytes := v \<rparr>) ps)))
      else if key = ''disk_available_bytes'' then Some (
        ebind (parseUint64 value key) (\<lambda>v. Inr (upd_metrics (\<lambda>m. m\<lparr> diskAvailableBytes := v \<rparr>) ps)))
      else if key = ''disk_usage_percent'' then Some (
        ebind (parseDouble value key) (\<lambda>v. Inr (upd_metrics (\<lambda>m. m\<lparr> diskUsagePercent := v \<rparr>) ps)))
      else None)"

definition assign_network_sampling :: "string \<Rightarrow> string \<Rightarrow> parse_state \<Rightarrow> parse_state result option" where
  "assign_network_sampling key value ps =
     (if key = ''network_interface'' then Some (
        ebind (throw_if (value = []) (RuntimeError ''network_interface must not be empty'')) (\<lambda>_.
        Inr (upd_metrics (\<lambda>m. m\<lparr> networkInterface := value \<rparr>) ps)))
      else if key = ''network_rx_bytes_per_second'' then Some (
        ebind (parseDouble value key) (\<lambda>v. Inr (upd_metrics (\<lambda>m. m\<lparr> networkRxBytesPerSecond := v \<rparr>) ps)))
      else if key = ''network_tx_bytes_per_second'' then Some (
        ebind (parseDouble value key) (\<lambda>v. Inr (upd_metrics (\<lambda>m. m\<lparr> networkTxBytesPerSecond := v \<rparr>) ps)))
      else if key = ''sample_interval_seconds'' then Some (
        ebind (parseDouble value key) (\<lambda>v.
        ebind (throw_if (d_le v d_zero) (RuntimeError ''sample_interval_seconds must be greater than 0'')) (\<lambda>_.
        Inr (upd_metrics (\<lambda>m. m\<lparr> sampleIntervalSeconds := v \<rparr>) ps))))
      else if key = ''process_count'' then Some (
        ebind (parseSize value key) (\<lambda>v. Inr (ps\<lparr> ps_expected := v, ps_countSeen := True \<rparr>)))
      else None)"

definition assign_field :: "string \<Rightarrow> string \<Rightarrow> parse_state \<Rightarrow> parse_state result" where
  "assign_field key value ps =
     (case assign_system key value ps of Some r \<Rightarrow> r | None \<Rightarrow>
     (case assign_cpu_memory key value ps of Some r \<Rightarrow> r | None \<Rightarrow>
     (case assign_load_disk key value ps of Some r \<Rightarrow> r | None \<Rightarrow>
     (case assign_network_sampling key value ps of Some r \<Rightarrow> r | None \<Rightarrow>
      Inl (RuntimeError (''Unknown metrics field: '' @ key))))))"

text \<open>The body of the loop for one line.\<close>

definition parse_line :: "string \<Rightarrow> parse_state \<Rightarrow> parse_state result" where
  "parse_line raw ps =
     (let line = pop_cr raw in
      if line = [] then Inr ps
      else case find_char CHR ''='' 0 line of
             None \<Rightarrow> Inl (RuntimeError (''Malformed metrics line: '' @ line))
           | Some equalsPosition \<Rightarrow>
               let key = substr line 0 equalsPosition;
                   value = substr line (equalsPosition + 1) (length line - (equalsPosition + 1))
               in if key = [] then Inl (RuntimeError ''Metrics field name must not be empty'')
                  else if key = ''process''
                  then ebind (parseProcess value) (\<lambda>p.
                         Inr (upd_metrics (\<lambda>m. m\<lparr> topProcesses := topProcesses m @ [p] \<rparr>) ps))
                  else ebind (markRequiredField (ps_received ps) key) (\<lambda>received.
                         assign_field key value (ps\<lparr> ps_received := received \<rparr>)))"

fun parse_lines :: "string list \<Rightarrow> parse_state \<Rightarrow> parse_state result" where
  "parse_lines [] ps = Inr ps"
| "parse_lines (l # ls) ps = ebind (parse_line l ps) (parse_lines ls)"

definition finish_parse :: "parse_state \<Rightarrow> SystemMetrics result" where
  "finish_parse ps =
     ebind (verifyRequiredFields (ps_received ps)) (\<lambda>_.
     ebind (throw_if (\<not> ps_countSeen ps) (RuntimeError ''Missing process_count'')) (\<lambda>_.
     ebind (throw_if (length (topProcesses (ps_metrics ps)) \<noteq> unat (ps_expected ps))
              (RuntimeError (''Process count mismatch: expected '' @ dec (unat (ps_expected ps)) @
                 '', received '' @ dec (length (topProcesses (ps_metrics ps)))))) (\<lambda>_.
       Inr (ps_metrics ps))))"

definition deserialize :: "string \<Rightarrow> SystemMetrics result" where
  "deserialize payload =
     (if payload = [] then Inl (RuntimeError ''Empty metrics payload'')
      else case getline payload of
             None \<Rightarrow> Inl (RuntimeError ''Missing protocol version'')
           | Some (line, input) \<Rightarrow>
               let line = pop_cr line in
               if line \<noteq> ''LMONITOR/1''
               then Inl (RuntimeError (''Unsupported metrics protocol version: '' @ line))
               else ebind (parse_lines (get_lines input) init_parse) finish_parse)"

section \<open>What the field parsers accept\<close>

lemma parseUint64_dec [simp]: "parseUint64 (dec (unat w)) f = Inr w"
  by (simp add: parseUint64_def stoull_dec_u64)

lemma parseSize_dec [simp]: "parseSize (dec (unat w)) f = Inr w"
proof -
  have "unat w < 2 ^ LENGTH(64)" by (rule unsigned_less)
  then show ?thesis by (simp add: parseSize_def)
qed

lemma parseSize_dec_nat: "n < 2 ^ 64 \<Longrightarrow> parseSize (dec n) f = Inr (word_of_nat n)"
  using parseSize_dec [of "word_of_nat n" f] by (simp add: unat_of_nat)

lemma parseInt_dec_int: "int32_range i \<Longrightarrow> parseInt (dec_int i) f = Inr i"
proof -
  assume i: "int32_range i"
  then have "int64_range i" by (simp add: int32_range_def int64_range_def)
  moreover have "dec_int i \<noteq> []" by (simp add: dec_int_def)
  ultimately show ?thesis using i by (simp add: parseInt_def stoll_dec_int)
qed

lemma parseDouble_show2:
  assumes "d_isfinite d" and "d_ok d"
  shows "parseDouble (show2 d) f = Inr (fixed_value 2 d)"
proof (cases d)
  case (DFin s q)
  have "stod (show2 d) = Inr (fixed_value 2 d, length (show2 d))"
    unfolding show2_def DFin by (rule stod_show_fixed) (use assms DFin in auto)
  then show ?thesis
    using show2_neq_Nil [OF assms(1)] DFin by (simp add: parseDouble_def)
qed (use assms in simp_all)

lemma parseDouble_finite: "parseDouble v f = Inr d \<Longrightarrow> d_isfinite d"
  by (auto simp: parseDouble_def split: if_splits sum.splits)

lemma parseInt_range: "parseInt v f = Inr i \<Longrightarrow> int32_range i"
  by (auto simp: parseInt_def split: if_splits sum.splits)

text \<open>
  One step of the comma loop, with the part of the value already passed made explicit.
\<close>

lemma split_fields_step:
  assumes "CHR '','' \<notin> set a"
  shows "split_fields (Suc i) (pre @ a @ CHR '','' # rest) (length pre) fs =
         split_fields i ((pre @ a @ [CHR '','']) @ rest) (length (pre @ a @ [CHR '',''])) (fs @ [a])"
  using assms find_char_append [of "CHR '',''" a rest]
  by (simp add: find_char_drop [of _ "length pre"] substr_def)

lemma split_four:
  assumes "CHR '','' \<notin> set a" "CHR '','' \<notin> set b" "CHR '','' \<notin> set c" "CHR '','' \<notin> set d"
    and v: "v = a @ CHR '','' # b @ CHR '','' # c @ CHR '','' # d @ CHR '','' # e"
  shows "\<exists>start. split_fields 4 v 0 [] = Inr ([a, b, c, d], start) \<and> drop start v = e"
proof -
  define pre where "pre = a @ CHR '','' # b @ CHR '','' # c @ CHR '','' # d @ [CHR '','']"
  have "split_fields 4 v 0 [] = Inr ([a, b, c, d], length pre)"
    using assms split_fields_step [of a 3 "[]" "b @ CHR '','' # c @ CHR '','' # d @ CHR '','' # e" "[]"]
      split_fields_step [of b 2 "a @ [CHR '','']" "c @ CHR '','' # d @ CHR '','' # e" "[a]"]
      split_fields_step [of c 1 "a @ CHR '','' # b @ [CHR '','']" "d @ CHR '','' # e" "[a, b]"]
      split_fields_step [of d 0 "a @ CHR '','' # b @ CHR '','' # c @ [CHR '','']" "e" "[a, b, c]"]
    by (simp add: eval_nat_numeral pre_def)
  moreover have "v = pre @ e" by (simp add: v pre_def)
  ultimately show ?thesis by simp
qed

text \<open>Every record that is accepted has this shape.\<close>

lemma parseProcess_valid: "parseProcess v = Inr p \<Longrightarrow> valid_process p"
  by (auto simp: parseProcess_def Let_def result_simps valid_process_def
      dest: parseDouble_finite parseInt_range split: prod.splits)

section \<open>One line\<close>

lemma parse_line_field:
  assumes "CHR ''='' \<notin> set key" and "key \<noteq> []" and "value = [] \<or> last value \<noteq> cr"
  shows "parse_line (key @ CHR ''='' # value) ps =
     (if key = ''process''
      then ebind (parseProcess value) (\<lambda>p.
             Inr (upd_metrics (\<lambda>m. m\<lparr> topProcesses := topProcesses m @ [p] \<rparr>) ps))
      else ebind (markRequiredField (ps_received ps) key) (\<lambda>received.
             assign_field key value (ps\<lparr> ps_received := received \<rparr>)))"
proof -
  have "pop_cr (key @ CHR ''='' # value) = key @ CHR ''='' # value"
    using assms(3) by (auto simp: pop_cr_def)
  then show ?thesis
    using assms(1,2) by (simp add: parse_line_def find_char_append substr_def)
qed

lemma parse_lines_append: "parse_lines (xs @ ys) ps = ebind (parse_lines xs ps) (parse_lines ys)"
  by (induction xs arbitrary: ps) (auto simp: ebind_def split: sum.splits)

lemmas assign_defs = assign_field_def assign_system_def assign_cpu_memory_def assign_load_disk_def
  assign_network_sampling_def

end
