(* ===== verification/Wire_Format.thy ===== *)
theory Wire_Format
  imports Metrics_Deserializer
begin

text \<open>
  The agent's serializer against the server's deserializer: what is sent arrives, with every
  double rounded to two decimals; what is accepted has every required key exactly once, no
  other key, and is valid.
\<close>

section \<open>Metrics that can be sent\<close>

text \<open>A text the line format can carry: not empty, on one line, not ending in a carriage return.\<close>

definition line_text :: "string \<Rightarrow> bool" where
  "line_text s \<longleftrightarrow> s \<noteq> [] \<and> nl \<notin> set s \<and> last s \<noteq> cr"

definition good_double :: "double \<Rightarrow> bool" where
  "good_double d \<longleftrightarrow> d_isfinite d \<and> d_ok d"

definition sendable_process :: "ProcessMetric \<Rightarrow> bool" where
  "sendable_process p \<longleftrightarrow> 0 \<le> pm_pid p \<and> int32_range (pm_pid p) \<and> line_text (pm_name p) \<and>
     good_double (pm_cpuUsagePercent p) \<and> good_double (pm_memoryUsagePercent p)"

text \<open>The interval has to survive the rounding: below half a hundredth it is printed as 0.\<close>

definition sendable :: "SystemMetrics \<Rightarrow> bool" where
  "sendable m \<longleftrightarrow> line_text (hostname m) \<and> line_text (diskMountPoint m) \<and>
     line_text (networkInterface m) \<and> logicalCpuCount m \<noteq> 0 \<and>
     (\<forall>d \<in> set (metric_doubles m). good_double d) \<and>
     \<not> d_le (fixed_value 2 (sampleIntervalSeconds m)) d_zero \<and>
     (\<forall>p \<in> set (topProcesses m). sendable_process p) \<and> length (topProcesses m) < 2 ^ 64"

definition rounded_process :: "ProcessMetric \<Rightarrow> ProcessMetric" where
  "rounded_process p = p\<lparr> pm_cpuUsagePercent := fixed_value 2 (pm_cpuUsagePercent p),
     pm_memoryUsagePercent := fixed_value 2 (pm_memoryUsagePercent p) \<rparr>"

definition rounded :: "SystemMetrics \<Rightarrow> SystemMetrics" where
  "rounded m = m\<lparr>
     cpuUsagePercent := fixed_value 2 (cpuUsagePercent m),
     memoryUsagePercent := fixed_value 2 (memoryUsagePercent m),
     load1 := fixed_value 2 (load1 m), load5 := fixed_value 2 (load5 m),
     load15 := fixed_value 2 (load15 m),
     diskUsagePercent := fixed_value 2 (diskUsagePercent m),
     networkRxBytesPerSecond := fixed_value 2 (networkRxBytesPerSecond m),
     networkTxBytesPerSecond := fixed_value 2 (networkTxBytesPerSecond m),
     sampleIntervalSeconds := fixed_value 2 (sampleIntervalSeconds m),
     topProcesses := map rounded_process (topProcesses m) \<rparr>"

section \<open>Line texts of printed values\<close>

lemma digit_line_char: "is_digit c \<or> c = CHR ''.'' \<or> c = CHR ''-'' \<Longrightarrow> c \<noteq> nl \<and> c \<noteq> cr \<and> c \<noteq> CHR '',''"
  using is_digit_not_special by auto

lemma line_text_chars: "s \<noteq> [] \<Longrightarrow> \<forall>c \<in> set s. c \<noteq> nl \<and> c \<noteq> cr \<Longrightarrow> line_text s"
  by (auto simp: line_text_def)

lemma line_text_dec [simp]: "line_text (dec n)"
  by (rule line_text_chars) (auto dest: dec_digits)

lemma line_text_show2 [simp]: "d_isfinite d \<Longrightarrow> line_text (show2 d)"
  by (rule line_text_chars) (auto dest: show2_chars simp: show2_neq_Nil)

lemma no_comma [simp]:
  "CHR '','' \<notin> set (dec n)" "CHR '','' \<notin> set (dec_int i)" "d_isfinite d \<Longrightarrow> CHR '','' \<notin> set (show2 d)"
  by (auto dest: dec_digits dec_int_chars show2_chars digit_line_char)

lemma nl_dec_int [simp]: "nl \<notin> set (dec_int i)"
  by (auto dest: dec_int_chars digit_line_char)

lemma line_text_process_value: "sendable_process p \<Longrightarrow> line_text (process_value p)"
  using line_text_show2 [of "pm_cpuUsagePercent p"] line_text_show2 [of "pm_memoryUsagePercent p"]
    line_text_dec [of "unat (pm_residentMemoryKB p)"]
  by (auto simp: sendable_process_def process_value_def line_text_def good_double_def)

section \<open>Processes\<close>

lemma parseProcess_value:
  assumes "sendable_process p"
  shows "parseProcess (process_value p) = Inr (rounded_process p)"
proof -
  from assms have fin: "d_isfinite (pm_cpuUsagePercent p)" "d_isfinite (pm_memoryUsagePercent p)"
    by (simp_all add: sendable_process_def good_double_def)
  obtain start where "split_fields 4 (process_value p) 0 [] =
      Inr ([dec_int (pm_pid p), show2 (pm_cpuUsagePercent p), show2 (pm_memoryUsagePercent p),
            dec (unat (pm_residentMemoryKB p))], start)"
    and name: "drop start (process_value p) = pm_name p"
    using fin split_four [OF _ _ _ _ refl, of "dec_int (pm_pid p)" "show2 (pm_cpuUsagePercent p)"
        "show2 (pm_memoryUsagePercent p)" "dec (unat (pm_residentMemoryKB p))" "pm_name p"]
    by (auto simp: process_value_def)
  moreover have "\<not> length (process_value p) \<le> start"
    using name assms by (auto simp: sendable_process_def line_text_def)
  ultimately have "parseProcess (process_value p) = Inr \<lparr> pm_pid = pm_pid p, pm_name = pm_name p,
      pm_cpuUsagePercent = fixed_value 2 (pm_cpuUsagePercent p),
      pm_memoryUsagePercent = fixed_value 2 (pm_memoryUsagePercent p),
      pm_residentMemoryKB = pm_residentMemoryKB p \<rparr>"
    using assms fin
    by (simp add: parseProcess_def Let_def substr_def sendable_process_def good_double_def
        line_text_def parseInt_dec_int parseDouble_show2)
  then show ?thesis by (simp add: rounded_process_def)
qed

lemma parse_process_line:
  assumes "sendable_process p"
  shows "parse_line (''process'' @ CHR ''='' # process_value p) ps =
         Inr (upd_metrics (\<lambda>m. m\<lparr> topProcesses := topProcesses m @ [rounded_process p] \<rparr>) ps)"
  using assms line_text_process_value [OF assms]
  by (subst parse_line_field) (auto simp: line_text_def parseProcess_value)

lemma parse_process_lines:
  "\<forall>p \<in> set procs. sendable_process p \<Longrightarrow>
   parse_lines (map (\<lambda>p. ''process'' @ CHR ''='' # process_value p) procs) ps =
   Inr (upd_metrics (\<lambda>m. m\<lparr> topProcesses := topProcesses m @ map rounded_process procs \<rparr>) ps)"
proof (induction procs arbitrary: ps)
  case Nil
  show ?case by (simp add: upd_metrics_def)
next
  case (Cons p procs)
  have "parse_lines (map (\<lambda>p. ''process'' @ CHR ''='' # process_value p) (p # procs)) ps =
    parse_lines (map (\<lambda>p. ''process'' @ CHR ''='' # process_value p) procs)
      (upd_metrics (\<lambda>m. m\<lparr> topProcesses := topProcesses m @ [rounded_process p] \<rparr>) ps)"
    using Cons.prems parse_process_line [of p ps] by simp
  then show ?case
    using Cons.prems Cons.IH by (simp add: upd_metrics_def)
qed

section \<open>The scalar fields\<close>

lemma parse_scalar_line:
  assumes "CHR ''='' \<notin> set key" "key \<noteq> []" "key \<noteq> ''process''" "line_text value" "key \<notin> ps_received ps"
  shows "parse_line (key @ CHR ''='' # value) ps =
         assign_field key value (ps\<lparr> ps_received := insert key (ps_received ps) \<rparr>)"
  using assms by (subst parse_line_field) (auto simp: line_text_def markRequiredField_def)

lemma parse_scalar_fields:
  assumes m: "sendable m"
  shows "\<exists>ps. parse_lines (map (\<lambda>(k, v). k @ CHR ''='' # v) (scalar_fields m)) init_parse = Inr ps \<and>
     ps_metrics ps = (rounded m)\<lparr> topProcesses := [] \<rparr> \<and> (\<forall>f \<in> set requiredFields. f \<in> ps_received ps) \<and>
     ps_expected ps = word_of_nat (length (topProcesses m)) \<and> ps_countSeen ps"
proof -
  from m have lt: "line_text (hostname m)" "line_text (diskMountPoint m)" "line_text (networkInterface m)"
    "hostname m \<noteq> []" "diskMountPoint m \<noteq> []" "networkInterface m \<noteq> []"
    by (simp_all add: sendable_def line_text_def)
  from m have fin: "d_isfinite (cpuUsagePercent m)" "d_isfinite (memoryUsagePercent m)"
    "d_isfinite (load1 m)" "d_isfinite (load5 m)" "d_isfinite (load15 m)"
    "d_isfinite (diskUsagePercent m)" "d_isfinite (networkRxBytesPerSecond m)"
    "d_isfinite (networkTxBytesPerSecond m)" "d_isfinite (sampleIntervalSeconds m)"
    by (simp_all add: sendable_def metric_doubles_def good_double_def)
  from m have ok: "d_ok (cpuUsagePercent m)" "d_ok (memoryUsagePercent m)"
    "d_ok (load1 m)" "d_ok (load5 m)" "d_ok (load15 m)"
    "d_ok (diskUsagePercent m)" "d_ok (networkRxBytesPerSecond m)"
    "d_ok (networkTxBytesPerSecond m)" "d_ok (sampleIntervalSeconds m)"
    by (simp_all add: sendable_def metric_doubles_def good_double_def)
  note parseDouble_show2 [OF fin(1) ok(1), simp] parseDouble_show2 [OF fin(2) ok(2), simp]
    parseDouble_show2 [OF fin(3) ok(3), simp] parseDouble_show2 [OF fin(4) ok(4), simp]
    parseDouble_show2 [OF fin(5) ok(5), simp] parseDouble_show2 [OF fin(6) ok(6), simp]
    parseDouble_show2 [OF fin(7) ok(7), simp] parseDouble_show2 [OF fin(8) ok(8), simp]
    parseDouble_show2 [OF fin(9) ok(9), simp]
  have len: "length (topProcesses m) < 2 ^ 64" and int: "\<not> d_le (fixed_value 2 (sampleIntervalSeconds m)) d_zero"
    and cpus: "logicalCpuCount m \<noteq> 0"
    using m by (simp_all add: sendable_def)
  show ?thesis
    using parseSize_dec_nat [OF len]
    by (simp add: scalar_fields_def parse_scalar_line lt fin int cpus assign_defs upd_metrics_def init_parse_def
        rounded_def requiredFields_def default_metrics_def
        del: append_Cons)
qed

section \<open>The round trip\<close>

lemma require_all_ok: "\<forall>f \<in> set req. f \<in> received \<Longrightarrow> require_all req received = Inr ()"
  by (induction req) auto

lemma sendable_lines:
  assumes "sendable m"
  shows "get_lines (concat (map (\<lambda>(k, v). field_text k v) (scalar_fields m)) @
           concat (map (\<lambda>p. field_text ''process'' (process_value p)) (topProcesses m))) =
         map (\<lambda>(k, v). k @ CHR ''='' # v) (scalar_fields m) @
         map (\<lambda>p. ''process'' @ CHR ''='' # process_value p) (topProcesses m)"
proof -
  define ls where "ls = map (\<lambda>(k, v). k @ CHR ''='' # v) (scalar_fields m) @
    map (\<lambda>p. ''process'' @ CHR ''='' # process_value p) (topProcesses m)"
  have fin: "d_isfinite d \<Longrightarrow> nl \<notin> set (show2 d)" for d
    using line_text_show2 [of d] by (simp add: line_text_def)
  have "nl \<notin> set (dec n)" for n using line_text_dec [of n] by (simp add: line_text_def)
  then have "\<forall>l \<in> set (map (\<lambda>(k, v). k @ CHR ''='' # v) (scalar_fields m)). nl \<notin> set l"
    using assms fin
    by (simp add: scalar_fields_def sendable_def metric_doubles_def good_double_def line_text_def)
  moreover have "\<forall>p \<in> set (topProcesses m). nl \<notin> set (process_value p)"
    using assms line_text_process_value by (auto simp: sendable_def line_text_def)
  ultimately have "get_lines (concat (map (\<lambda>l. l @ [nl]) ls)) = ls"
    by (intro get_lines_concat) (auto simp: ls_def)
  moreover have "concat (map (\<lambda>l. l @ [nl]) ls) =
      concat (map (\<lambda>(k, v). field_text k v) (scalar_fields m)) @
      concat (map (\<lambda>p. field_text ''process'' (process_value p)) (topProcesses m))"
    by (simp add: ls_def field_text_def comp_def case_prod_unfold)
  ultimately show ?thesis by (simp add: ls_def)
qed

lemma roundtrip_metrics:
  assumes "sendable m"
  shows "deserialize (serialize m) = Inr (rounded m)"
proof -
  define body where "body = concat (map (\<lambda>(k, v). field_text k v) (scalar_fields m)) @
    concat (map (\<lambda>p. field_text ''process'' (process_value p)) (topProcesses m))"
  have ser: "serialize m = ''LMONITOR/1'' @ nl # body"
    by (simp add: serialize_lines body_def)
  obtain ps where scal: "parse_lines (map (\<lambda>(k, v). k @ CHR ''='' # v) (scalar_fields m)) init_parse = Inr ps"
    and ps: "ps_metrics ps = (rounded m)\<lparr> topProcesses := [] \<rparr>" "\<forall>f \<in> set requiredFields. f \<in> ps_received ps"
      "ps_expected ps = word_of_nat (length (topProcesses m))" "ps_countSeen ps"
    using parse_scalar_fields [OF assms] by blast
  define final where
    "final = upd_metrics (\<lambda>m'. m'\<lparr> topProcesses := topProcesses m' @ map rounded_process (topProcesses m) \<rparr>) ps"
  have "parse_lines (get_lines body) init_parse = Inr final"
    using assms scal parse_process_lines [of "topProcesses m" ps]
    by (simp add: body_def sendable_lines parse_lines_append final_def sendable_def)
  moreover have "finish_parse final = Inr (rounded m)"
    using ps assms require_all_ok [of requiredFields "ps_received ps"]
    by (simp add: finish_parse_def final_def upd_metrics_def verifyRequiredFields_def rounded_def
        unat_of_nat sendable_def)
  moreover have "getline (serialize m) = Some (''LMONITOR/1'', body)"
    unfolding ser by (rule getline_append_nl) simp
  moreover have "pop_cr ''LMONITOR/1'' = ''LMONITOR/1''" by (simp add: pop_cr_def)
  moreover have "serialize m \<noteq> []" by (simp add: ser)
  ultimately show ?thesis by (simp add: deserialize_def)
qed

text \<open>
  C3: every sendable snapshot is accepted by the server's deserializer, and arrives with its
  doubles rounded to two decimals and everything else unchanged.
\<close>

theorem deserialize_serialize:
  assumes "sendable m"
  shows "deserialize (serialize m) = Inr (rounded m)"
  using assms by (rule roundtrip_metrics)

text \<open>A snapshot with two processes, for the witnesses.\<close>

definition demo_metrics :: SystemMetrics where
  "demo_metrics = default_metrics\<lparr> hostname := ''web-1'', uptimeSeconds := 86400, logicalCpuCount := 4,
     cpuUsagePercent := DFin False 25, diskMountPoint := ''/'', networkInterface := ''eth0'',
     sampleIntervalSeconds := DFin False 1,
     topProcesses := [
       \<lparr> pm_pid = 1, pm_name = ''init, the first'', pm_cpuUsagePercent = d_zero,
         pm_memoryUsagePercent = d_zero, pm_residentMemoryKB = 1024 \<rparr>,
       \<lparr> pm_pid = 4242, pm_name = ''sh'', pm_cpuUsagePercent = DFin False 25,
         pm_memoryUsagePercent = d_zero, pm_residentMemoryKB = 0 \<rparr>] \<rparr>"

lemma fixed_value_nat:
  assumes "n < 2 ^ 53"
  shows "fixed_value p (DFin s (of_nat n)) = DFin s (of_nat n)"
proof -
  have "(of_nat n * 10 ^ p :: rat) = of_int (int (n * 10 ^ p))" by simp
  then have "fixed_units p (of_nat n) = n * 10 ^ p"
    unfolding fixed_units_def by (simp only: round_half_even_of_int nat_int)
  then show ?thesis using rnd_mag_of_nat [OF assms] by simp
qed

lemma good_double_nat:
  assumes "n < 2 ^ 53"
  shows "good_double (DFin s (of_nat n))"
proof -
  have "(of_nat n :: rat) < 2 powi 53"
    using assms by (metis of_nat_less_iff of_nat_numeral of_nat_power power_int_numeral)
  also have "\<dots> \<le> dbl_limit"
    unfolding dbl_limit_def pow2_def by (intro power_int_increasing) simp_all
  finally show ?thesis using rnd_mag_of_nat [OF assms] by (simp add: good_double_def)
qed

lemma demo_sendable: "sendable demo_metrics"
  using good_double_nat [of 0 False] good_double_nat [of 1 False] good_double_nat [of 25 False]
     fixed_value_nat [of 1 2 False]
  by (simp add: sendable_def demo_metrics_def default_metrics_def line_text_def metric_doubles_def
      sendable_process_def d_zero_def int32_range_def d_val_def del: fixed_value.simps)
theorem deserialize_serialize_witness:
  "deserialize (serialize demo_metrics) = Inr (rounded demo_metrics)"
  by (rule deserialize_serialize [OF demo_sendable])

section \<open>What is accepted is valid\<close>

text \<open>
  The invariant of the loop over the lines: numbers are finite and processes valid at all
  times; a field with a further check satisfies it once its key has been received.
\<close>

definition parse_inv :: "parse_state \<Rightarrow> bool" where
  "parse_inv ps \<longleftrightarrow>
     (\<forall>d \<in> set (metric_doubles (ps_metrics ps)). d_isfinite d) \<and>
     (\<forall>p \<in> set (topProcesses (ps_metrics ps)). valid_process p) \<and>
     (''hostname'' \<in> ps_received ps \<longrightarrow> hostname (ps_metrics ps) \<noteq> []) \<and>
     (''disk_mount'' \<in> ps_received ps \<longrightarrow> diskMountPoint (ps_metrics ps) \<noteq> []) \<and>
     (''network_interface'' \<in> ps_received ps \<longrightarrow> networkInterface (ps_metrics ps) \<noteq> []) \<and>
     (''logical_cpus'' \<in> ps_received ps \<longrightarrow> logicalCpuCount (ps_metrics ps) \<noteq> 0) \<and>
     (''sample_interval_seconds'' \<in> ps_received ps \<longrightarrow>
        d_less d_zero (sampleIntervalSeconds (ps_metrics ps)))"

lemma d_not_le_less: "d_isfinite d \<Longrightarrow> \<not> d_le d d_zero \<Longrightarrow> d_less d_zero d"
  by (cases d) (auto simp: d_zero_def)

lemma parse_inv_init: "parse_inv init_parse"
  by (simp add: parse_inv_def init_parse_def default_metrics_def metric_doubles_def d_zero_def)

lemma assign_system_inv:
  assumes "parse_inv ps" and "assign_system key v (ps\<lparr> ps_received := insert key (ps_received ps) \<rparr>) = Some (Inr ps')"
  shows "parse_inv ps'"
  using assms
  by (clarsimp simp: assign_system_def result_simps upd_metrics_def split: if_split_asm;
      simp add: parse_inv_def metric_doubles_def parseDouble_finite d_not_le_less)

lemma assign_cpu_memory_inv:
  assumes "parse_inv ps" and "assign_cpu_memory key v (ps\<lparr> ps_received := insert key (ps_received ps) \<rparr>) = Some (Inr ps')"
  shows "parse_inv ps'"
  using assms
  by (clarsimp simp: assign_cpu_memory_def result_simps upd_metrics_def split: if_split_asm;
      simp add: parse_inv_def metric_doubles_def parseDouble_finite d_not_le_less)

lemma assign_load_disk_inv:
  assumes "parse_inv ps" and "assign_load_disk key v (ps\<lparr> ps_received := insert key (ps_received ps) \<rparr>) = Some (Inr ps')"
  shows "parse_inv ps'"
  using assms
  by (clarsimp simp: assign_load_disk_def result_simps upd_metrics_def split: if_split_asm;
      simp add: parse_inv_def metric_doubles_def parseDouble_finite d_not_le_less)

lemma assign_network_sampling_inv:
  assumes "parse_inv ps" and "assign_network_sampling key v (ps\<lparr> ps_received := insert key (ps_received ps) \<rparr>) = Some (Inr ps')"
  shows "parse_inv ps'"
  using assms
  by (clarsimp simp: assign_network_sampling_def result_simps upd_metrics_def split: if_split_asm;
      simp add: parse_inv_def metric_doubles_def parseDouble_finite d_not_le_less)

lemma assign_field_inv:
  assumes "parse_inv ps" and "assign_field key v (ps\<lparr> ps_received := insert key (ps_received ps) \<rparr>) = Inr ps'"
  shows "parse_inv ps'"
  using assms
  by (auto simp: assign_field_def split: option.splits
      intro: assign_system_inv assign_cpu_memory_inv assign_load_disk_inv assign_network_sampling_inv)

lemma parse_line_inv:
  assumes "parse_inv ps" and "parse_line l ps = Inr ps'"
  shows "parse_inv ps'"
  using assms
  by (auto simp: parse_line_def Let_def result_simps markRequiredField_def upd_metrics_def
      intro: assign_field_inv split: if_splits option.splits dest: parseProcess_valid)
     (auto simp: parse_inv_def metric_doubles_def dest: parseProcess_valid)

lemma parse_lines_inv: "parse_inv ps \<Longrightarrow> parse_lines ls ps = Inr ps' \<Longrightarrow> parse_inv ps'"
  by (induction ls arbitrary: ps) (auto simp: result_simps dest: parse_line_inv)

lemma require_all_Inr: "require_all req received = Inr u \<longleftrightarrow> set req \<subseteq> received"
  by (induction req) auto

lemma deserialize_InrE:
  assumes "deserialize payload = Inr m"
  obtains line input ps where "getline payload = Some (line, input)" "pop_cr line = ''LMONITOR/1''"
    "parse_lines (get_lines input) init_parse = Inr ps" "set requiredFields \<subseteq> ps_received ps"
    "ps_countSeen ps" "length (topProcesses m) = unat (ps_expected ps)" "m = ps_metrics ps"
  using assms
  by (auto simp: deserialize_def finish_parse_def verifyRequiredFields_def result_simps require_all_Inr Let_def
      split: if_splits option.splits)

lemma deserialize_InrI_valid:
  assumes "deserialize payload = Inr m"
  shows "valid_metrics m"
proof -
  from assms obtain ps input where lines: "parse_lines (get_lines input) init_parse = Inr ps"
    and req: "set requiredFields \<subseteq> ps_received ps" and m: "m = ps_metrics ps"
    by (rule deserialize_InrE)
  have "parse_inv ps" using parse_inv_init lines by (rule parse_lines_inv)
  with req show ?thesis by (simp add: m parse_inv_def valid_metrics_def requiredFields_def)
qed

text \<open>
  C6: a snapshot the deserializer accepts is valid, whatever bytes it was read from: finite
  numbers, non-empty names, at least one CPU, a positive sampling interval, and processes
  with a non-negative 32-bit pid, a name and finite usages.
\<close>

theorem deserialize_valid:
  assumes "deserialize payload = Inr m"
  shows "valid_metrics m"
  using assms by (rule deserialize_InrI_valid)

theorem deserialize_valid_witness: "valid_metrics (rounded demo_metrics)"
  by (rule deserialize_valid [OF roundtrip_metrics [OF demo_sendable]])

section \<open>What is accepted has every required key once\<close>

text \<open>The key of a line, for the lines that are neither empty nor a process record.\<close>

definition scalar_key :: "string \<Rightarrow> string option" where
  "scalar_key raw =
     (let line = pop_cr raw; key = takeWhile (\<lambda>c. c \<noteq> CHR ''='') line
      in if line = [] \<or> key = ''process'' then None else Some key)"

lemma assign_field_known: "assign_field key v ps = Inr ps' \<Longrightarrow> key \<in> set requiredFields"
  by (auto simp: assign_defs requiredFields_def split: if_splits)

lemma assign_field_received: "assign_field key v ps = Inr ps' \<Longrightarrow> ps_received ps' = ps_received ps"
  by (auto simp: assign_defs result_simps upd_metrics_def split: if_splits)

lemma find_char_0_key: "find_char c 0 line = Some p \<Longrightarrow> substr line 0 p = takeWhile (\<lambda>x. x \<noteq> c) line"
  by (auto simp: find_char_def Let_def substr_def split: if_splits) (metis takeWhile_eq_take)

lemma parse_line_key:
  assumes "parse_line l ps = Inr ps'"
  shows "(case scalar_key l of
            None \<Rightarrow> ps_received ps' = ps_received ps
          | Some k \<Rightarrow> k \<notin> ps_received ps \<and> k \<in> set requiredFields \<and>
                      ps_received ps' = insert k (ps_received ps))"
  using assms
  by (auto simp: parse_line_def scalar_key_def Let_def result_simps markRequiredField_def upd_metrics_def
      find_char_0_key split: if_splits option.splits dest: assign_field_known assign_field_received)

lemma parse_lines_keys:
  "parse_lines ls ps = Inr ps' \<Longrightarrow>
     distinct (List.map_filter scalar_key ls) \<and>
     set (List.map_filter scalar_key ls) \<inter> ps_received ps = {} \<and>
     set (List.map_filter scalar_key ls) \<subseteq> set requiredFields \<and>
     ps_received ps' = ps_received ps \<union> set (List.map_filter scalar_key ls)"
proof (induction ls arbitrary: ps)
  case (Cons l ls)
  from Cons.prems obtain ps1 where l: "parse_line l ps = Inr ps1" and ls: "parse_lines ls ps1 = Inr ps'"
    by (auto simp: result_simps)
  show ?case
    using parse_line_key [OF l] Cons.IH [OF ls]
    by (auto simp: map_filter_simps split: option.splits)
qed (simp add: map_filter_simps)

text \<open>
  C30: an accepted payload has, after its version line, each of the 21 required keys on
  exactly one line and no other key beside \<open>process\<close>.
\<close>

theorem deserialize_keys:
  assumes "deserialize payload = Inr m"
  shows "distinct (List.map_filter scalar_key (tl (get_lines payload))) \<and>
         set (List.map_filter scalar_key (tl (get_lines payload))) = set requiredFields"
proof -
  from assms obtain line input ps where gl: "getline payload = Some (line, input)"
    and lines: "parse_lines (get_lines input) init_parse = Inr ps"
    and req: "set requiredFields \<subseteq> ps_received ps"
    by (rule deserialize_InrE)
  have "tl (get_lines payload) = get_lines input"
    by (subst get_lines.simps) (simp add: gl)
  then show ?thesis using parse_lines_keys [OF lines] req by (simp add: init_parse_def)
qed

theorem deserialize_keys_witness:
  "set (List.map_filter scalar_key (tl (get_lines (serialize demo_metrics)))) = set requiredFields"
  using deserialize_keys [OF roundtrip_metrics [OF demo_sendable]] by blast

end
