(* ===== verification/Hash_Map.thy ===== *)
theory Hash_Map
  imports Prelude
begin

text \<open>
  \<open>std::unordered_map\<close> as the components use it: \<open>find\<close>, \<open>m[k] = v\<close> (and
  \<open>insert_or_assign\<close>), \<open>erase\<close>, \<open>clear\<close>, \<open>size\<close>, and a \<open>for\<close> loop over the
  entries, which may change the mapped values.  The container is a list of entries with
  distinct keys.  The standard leaves the order of iteration open; the position of a new
  key in the list stands for one such order, and no property of the development depends
  on it.  The laws the components use are the assumptions of the locale
  \<open>hash_map\<close>, interpreted on the model at the end.
\<close>

type_synonym ('k, 'v) umap = "('k \<times> 'v) list"

definition um_find :: "('k, 'v) umap \<Rightarrow> 'k \<Rightarrow> 'v option" where
  "um_find m k = map_of m k"

fun um_assign :: "'k \<Rightarrow> 'v \<Rightarrow> ('k, 'v) umap \<Rightarrow> ('k, 'v) umap" where
  "um_assign k v [] = [(k, v)]"
| "um_assign k v ((k', v') # m) = (if k' = k then (k, v) # m else (k', v') # um_assign k v m)"

definition um_erase :: "'k \<Rightarrow> ('k, 'v) umap \<Rightarrow> ('k, 'v) umap" where
  "um_erase k m = filter (\<lambda>(k', v'). k' \<noteq> k) m"

definition um_values :: "('k, 'v) umap \<Rightarrow> 'v list" where
  "um_values m = map snd m"

definition um_update_all :: "('k \<Rightarrow> 'v \<Rightarrow> 'v) \<Rightarrow> ('k, 'v) umap \<Rightarrow> ('k, 'v) umap" where
  "um_update_all f m = map (\<lambda>(k, v). (k, f k v)) m"

definition um_ok :: "('k, 'v) umap \<Rightarrow> bool" where
  "um_ok m \<longleftrightarrow> distinct (map fst m)"

named_theorems um_simps \<open>lookups after the operations of a hash map\<close>

lemma um_find_Nil [um_simps, simp]: "um_find [] = Map.empty"
  by (rule ext) (simp add: um_find_def)

lemma um_find_assign [um_simps]: "um_find (um_assign k v m) = (um_find m)(k \<mapsto> v)"
proof
  show "um_find (um_assign k v m) k' = ((um_find m)(k \<mapsto> v)) k'" for k'
    by (induction k v m rule: um_assign.induct) (auto simp: um_find_def)
qed

lemma um_find_erase [um_simps]: "um_find (um_erase k m) = (um_find m)(k := None)"
proof
  show "um_find (um_erase k m) k' = ((um_find m)(k := None)) k'" for k'
    by (induction m) (auto simp: um_find_def um_erase_def)
qed

lemma um_find_update_all [um_simps]: "um_find (um_update_all f m) k = map_option (f k) (um_find m k)"
  by (induction m) (auto simp: um_find_def um_update_all_def)

lemma set_um_assign_keys: "fst ` set (um_assign k v m) = insert k (fst ` set m)"
  by (induction k v m rule: um_assign.induct) auto

lemma um_ok_Nil [simp, intro]: "um_ok []"
  by (simp add: um_ok_def)

lemma um_ok_assign [simp, intro]: "um_ok m \<Longrightarrow> um_ok (um_assign k v m)"
proof (induction k v m rule: um_assign.induct)
  case (2 k v k' v' m)
  then show ?case using set_um_assign_keys [of k v m] by (auto simp: um_ok_def)
qed (simp add: um_ok_def)

lemma um_ok_erase [simp, intro]: "um_ok m \<Longrightarrow> um_ok (um_erase k m)"
  by (induction m) (auto simp: um_ok_def um_erase_def)

lemma map_fst_update_all [simp]: "map fst (um_update_all f m) = map fst m"
  by (induction m) (auto simp: um_update_all_def)

lemma um_ok_update_all [simp, intro]: "um_ok m \<Longrightarrow> um_ok (um_update_all f m)"
  by (simp add: um_ok_def)

lemma um_entry_iff: "um_ok m \<Longrightarrow> (k, v) \<in> set m \<longleftrightarrow> um_find m k = Some v"
  by (auto simp: um_ok_def um_find_def)

lemma um_values_iff: "um_ok m \<Longrightarrow> v \<in> set (um_values m) \<longleftrightarrow> (\<exists>k. um_find m k = Some v)"
  by (force simp: um_values_def um_entry_iff [symmetric])

lemma length_um_assign:
  "length (um_assign k v m) = (if um_find m k = None then Suc (length m) else length m)"
  by (induction k v m rule: um_assign.induct) (auto simp: um_find_def)

lemma um_card_dom: "um_ok m \<Longrightarrow> length m = card (dom (um_find m))"
  by (metis dom_map_of_conv_image_fst distinct_card length_map list.set_map um_find_def um_ok_def ext)

section \<open>The interface\<close>

locale hash_map =
  fixes empty_map :: "'m"
    and find :: "'m \<Rightarrow> 'k \<Rightarrow> 'v option"
    and assign :: "'k \<Rightarrow> 'v \<Rightarrow> 'm \<Rightarrow> 'm"
    and erase :: "'k \<Rightarrow> 'm \<Rightarrow> 'm"
    and entries :: "'m \<Rightarrow> ('k \<times> 'v) list"
    and ok :: "'m \<Rightarrow> bool"
  assumes find_empty: "find empty_map k = None"
    and find_assign: "ok m \<Longrightarrow> find (assign k v m) = (find m)(k \<mapsto> v)"
    and find_erase: "ok m \<Longrightarrow> find (erase k m) = (find m)(k := None)"
    and entries_iff: "ok m \<Longrightarrow> (k, v) \<in> set (entries m) \<longleftrightarrow> find m k = Some v"
    and entries_keys: "ok m \<Longrightarrow> distinct (map fst (entries m))"
    and ok_empty: "ok empty_map"
    and ok_assign: "ok m \<Longrightarrow> ok (assign k v m)"
    and ok_erase: "ok m \<Longrightarrow> ok (erase k m)"
begin

text \<open>A write is seen by a reader of its key and by no other; the later write wins.\<close>

lemma read_own_write: "ok m \<Longrightarrow> find (assign k v m) k = Some v"
  by (simp add: find_assign)

lemma read_other_write: "ok m \<Longrightarrow> k' \<noteq> k \<Longrightarrow> find (assign k v m) k' = find m k'"
  by (simp add: find_assign)

lemma last_write_wins: "ok m \<Longrightarrow> find (assign k v (assign k w m)) = find (assign k v m)"
  by (simp add: find_assign ok_assign)

lemma writes_commute:
  "ok m \<Longrightarrow> k \<noteq> k' \<Longrightarrow> find (assign k v (assign k' w m)) = find (assign k' w (assign k v m))"
  by (simp add: find_assign ok_assign fun_upd_twist)

text \<open>A run of writes leaves, at each key, the value of its last write.\<close>

lemma find_assigns:
  "ok m \<Longrightarrow> find (fold (\<lambda>(k, v). assign k v) kvs m) k =
     (case map_of (rev kvs) k of None \<Rightarrow> find m k | Some v \<Rightarrow> Some v)"
proof (induction kvs arbitrary: m)
  case Nil
  then show ?case by simp
next
  case (Cons kv kvs)
  obtain k' v' where kv: "kv = (k', v')" by (cases kv)
  from Cons.prems have "ok (assign k' v' m)" by (rule ok_assign)
  then show ?case
    using Cons.IH [of "assign k' v' m"] Cons.prems
    by (simp add: kv find_assign map_add_def split: option.splits)
qed

lemma ok_assigns: "ok m \<Longrightarrow> ok (fold (\<lambda>(k, v). assign k v) kvs m)"
  by (induction kvs arbitrary: m) (auto intro: ok_assign)

lemma size_entries: "ok m \<Longrightarrow> length (entries m) = card (dom (find m))"
proof -
  assume m: "ok m"
  have "dom (find m) = fst ` set (entries m)"
    using entries_iff [OF m] by (auto simp: dom_def image_iff Bex_def)
  then show ?thesis
    using entries_keys [OF m] by (metis distinct_card length_map list.set_map)
qed

end

interpretation um: hash_map "[]" um_find um_assign um_erase "\<lambda>m. m" um_ok
  by unfold_locales (auto simp: um_simps um_entry_iff um_ok_def [symmetric])

end
