(* ===== verification/Config_File.thy ===== *)
theory Config_File
  imports Hash_Map Num_Text
begin

text \<open>
  The configuration file: \<open>include/config/Config.h\<close> and \<open>src/config/Config.cpp\<close>.  The
  contents of the file \<open>std::ifstream\<close> opens are a parameter, \<open>None\<close> when it cannot
  be opened.  Loading the text of a well-formed file gives back its bindings, the last one of
  a key winning; the typed getters return the default for a missing or empty value and an
  exception for a text that is not a number.
\<close>

section \<open>Loading\<close>

type_synonym config = "(string, string) umap"

definition full_key :: "string \<Rightarrow> string \<Rightarrow> string" where
  "full_key currentSection key =
     (if currentSection \<noteq> [] then currentSection @ ''.'' @ key else key)"

text \<open>One turn of the loop, on the current section and the values.\<close>

definition load_line :: "string \<Rightarrow> string \<times> config \<Rightarrow> string \<times> config" where
  "load_line line st = (case st of (currentSection, vals) \<Rightarrow>
     if line = [] then (currentSection, vals)
     else if hd line = CHR ''#'' then (currentSection, vals)
     else if hd line = CHR ''['' \<and> last line = CHR '']''
     then (substr line 1 (length line - 2), vals)
     else case find_char CHR ''='' 0 line of
            None \<Rightarrow> (currentSection, vals)
          | Some pos \<Rightarrow>
              let key = substr line 0 pos; value = drop (pos + 1) line
              in (currentSection, um_assign (full_key currentSection key) value vals))"

definition load_config :: "string option \<Rightarrow> config \<Rightarrow> bool \<times> config" where
  "load_config file vals = (case file of
     None \<Rightarrow> (False, vals)
   | Some content \<Rightarrow> (True, snd (fold load_line (get_lines content) ([], []))))"

section \<open>Reading values\<close>

definition config_get :: "config \<Rightarrow> string \<Rightarrow> string \<Rightarrow> string" where
  "config_get vals key defaultValue =
     (case um_find vals key of None \<Rightarrow> defaultValue | Some v \<Rightarrow> v)"

definition config_getInt :: "config \<Rightarrow> string \<Rightarrow> int \<Rightarrow> int result" where
  "config_getInt vals key defaultValue =
     (let value = config_get vals key [] in
      if value = [] then Inr defaultValue else stoi value)"

definition config_getDouble :: "config \<Rightarrow> string \<Rightarrow> double \<Rightarrow> double result" where
  "config_getDouble vals key defaultValue =
     (let value = config_get vals key [] in
      if value = [] then Inr defaultValue else map_sum id fst (stod value))"

lemma config_get_missing: "um_find vals key = None \<Longrightarrow> config_get vals key d = d"
  by (simp add: config_get_def)

lemma config_getInt_missing: "um_find vals key = None \<Longrightarrow> config_getInt vals key d = Inr d"
  by (simp add: config_getInt_def config_get_missing)

lemma config_getDouble_missing: "um_find vals key = None \<Longrightarrow> config_getDouble vals key d = Inr d"
  by (simp add: config_getDouble_def config_get_missing)

lemma config_getInt_dec:
  "um_find vals key = Some (dec_int i) \<Longrightarrow> int32_range i \<Longrightarrow> config_getInt vals key d = Inr i"
proof -
  have "dec_int i \<noteq> []" by (simp add: dec_int_def)
  then show "um_find vals key = Some (dec_int i) \<Longrightarrow> int32_range i \<Longrightarrow> config_getInt vals key d = Inr i"
    by (simp add: config_getInt_def config_get_def stoi_dec_int Let_def)
qed

section \<open>Well-formed files\<close>

text \<open>
  The text of a list of sections, and what a section and a binding need for the file to mean
  them: names and values on one line, a key without an equals sign that does not look like a
  comment, and a line that does not look like a section header.
\<close>

type_synonym ini = "(string \<times> (string \<times> string) list) list"

definition binding_line :: "string \<times> string \<Rightarrow> string" where
  "binding_line kv = fst kv @ CHR ''='' # snd kv"

definition section_lines :: "string \<times> (string \<times> string) list \<Rightarrow> string list" where
  "section_lines sec = (CHR ''['' # fst sec @ [CHR '']'']) # map binding_line (snd sec)"

definition ini_text :: "ini \<Rightarrow> string" where
  "ini_text ini = concat (map (\<lambda>l. l @ [nl]) (concat (map section_lines ini)))"

definition ini_binding_ok :: "string \<times> string \<Rightarrow> bool" where
  "ini_binding_ok kv \<longleftrightarrow> CHR ''='' \<notin> set (fst kv) \<and> nl \<notin> set (fst kv @ snd kv) \<and>
     (fst kv \<noteq> [] \<longrightarrow> hd (fst kv) \<noteq> CHR ''#'' \<and> hd (fst kv) \<noteq> CHR ''['')"

definition ini_ok :: "ini \<Rightarrow> bool" where
  "ini_ok ini \<longleftrightarrow> (\<forall>sec \<in> set ini. nl \<notin> set (fst sec) \<and> (\<forall>kv \<in> set (snd sec). ini_binding_ok kv))"

definition section_bindings :: "string \<times> (string \<times> string) list \<Rightarrow> (string \<times> string) list" where
  "section_bindings sec = map (\<lambda>kv. (full_key (fst sec) (fst kv), snd kv)) (snd sec)"

lemma ini_lines: "ini_ok ini \<Longrightarrow> get_lines (ini_text ini) = concat (map section_lines ini)"
  unfolding ini_text_def
  by (rule get_lines_concat) (auto simp: ini_ok_def section_lines_def binding_line_def ini_binding_ok_def)

lemma load_binding:
  "ini_binding_ok kv \<Longrightarrow>
   load_line (binding_line kv) (sec, vals) = (sec, um_assign (full_key sec (fst kv)) (snd kv) vals)"
  using find_char_append [of "CHR ''=''" "fst kv" "snd kv"]
  by (cases "fst kv") (auto simp: load_line_def binding_line_def ini_binding_ok_def Let_def substr_def)

lemma load_bindings:
  "\<forall>kv \<in> set kvs. ini_binding_ok kv \<Longrightarrow>
   fold load_line (map binding_line kvs) (sec, vals) =
   (sec, fold (\<lambda>(k, v). um_assign k v) (section_bindings (sec, kvs)) vals)"
  by (induction kvs arbitrary: vals) (simp_all add: load_binding section_bindings_def)

lemma load_header: "load_line (CHR ''['' # name @ [CHR '']'']) (sec, vals) = (name, vals)"
  by (simp add: load_line_def substr_def)

lemma load_sections:
  "ini_ok ini \<Longrightarrow>
   snd (fold load_line (concat (map section_lines ini)) (sec, vals)) =
   fold (\<lambda>(k, v). um_assign k v) (concat (map section_bindings ini)) vals"
proof (induction ini arbitrary: sec vals)
  case (Cons s ini)
  obtain name kvs where s: "s = (name, kvs)" by (cases s)
  from Cons.prems have kvs: "\<forall>kv \<in> set kvs. ini_binding_ok kv" and ini: "ini_ok ini"
    by (simp_all add: ini_ok_def s)
  show ?case
    using Cons.IH [OF ini]
    by (simp add: s section_lines_def [of "(name, kvs)"] load_header load_bindings [OF kvs])
qed simp

text \<open>
  C35: loading the text of a well-formed file succeeds, and every key then has the value of
  its last binding in the file, under the name \<open>section.key\<close>; what was loaded before is
  gone.
\<close>

theorem load_config_ini:
  assumes "ini_ok ini"
  shows "fst (load_config (Some (ini_text ini)) vals) \<and>
         um_find (snd (load_config (Some (ini_text ini)) vals)) key =
           map_of (rev (concat (map section_bindings ini))) key"
  using um.find_assigns [of "[]" "concat (map section_bindings ini)" key]
  by (simp add: load_config_def ini_lines [OF assms] load_sections [OF assms] split: option.splits)

theorem load_config_ini_witness:
  "um_find (snd (load_config (Some (ini_text
      [(''server'', [(''port'', ''9000''), (''port'', ''9001'')]), (''log'', [(''level'', ''a=b'')])]))
      [(''x'', ''y'')])) ''server.port'' = Some ''9001''"
  using load_config_ini [of "[(''server'', [(''port'', ''9000''), (''port'', ''9001'')]),
      (''log'', [(''level'', ''a=b'')])]" "[(''x'', ''y'')]" "''server.port''"]
  by (simp add: ini_ok_def ini_binding_ok_def section_bindings_def full_key_def)

lemma um_ok_load_line: "um_ok (snd st) \<Longrightarrow> um_ok (snd (load_line line st))"
  by (auto simp: load_line_def Let_def split: prod.split option.split)

lemma um_ok_load: "um_ok vals \<Longrightarrow> um_ok (snd (load_config file vals))"
proof -
  have "um_ok (snd st) \<Longrightarrow> um_ok (snd (fold load_line ls st))" for ls st
    by (induction ls arbitrary: st) (simp_all add: um_ok_load_line)
  moreover assume "um_ok vals"
  ultimately show ?thesis by (simp add: load_config_def split: option.split)
qed

end
