(* ===== verification/History_Store.thy ===== *)
theory History_Store
  imports Hash_Map System_Metrics
begin

text \<open>
  The bounded history per host: \<open>include/store/MetricsHistoryStore.h\<close> and
  \<open>src/store/MetricsHistoryStore.cpp\<close>.  The clock is an argument, in milliseconds since
  the epoch.  The history of a host is the last \<open>maxPointsPerHost\<close> of its samples, in the
  order they were added.
\<close>

record MetricsHistoryPoint =
  hp_timestampMs :: int
  hp_cpuUsagePercent :: double
  hp_memoryUsagePercent :: double

record history_store =
  maxPointsPerHost :: u64
  histories :: "(string, MetricsHistoryPoint list) umap"

definition new_history :: "u64 \<Rightarrow> history_store" where
  "new_history maxPoints = \<lparr> maxPointsPerHost = (if maxPoints = 0 then 1 else maxPoints), histories = [] \<rparr>"

text \<open>The loop that drops the oldest points while there are too many.\<close>

fun pop_front_while :: "nat \<Rightarrow> 'a list \<Rightarrow> 'a list" where
  "pop_front_while n [] = []"
| "pop_front_while n (x # xs) = (if length (x # xs) > n then pop_front_while n xs else x # xs)"

definition history_add :: "int \<Rightarrow> string \<Rightarrow> double \<Rightarrow> double \<Rightarrow> history_store \<Rightarrow> history_store" where
  "history_add nowMs h cpu mem st =
     (if h = [] then st
      else let point = \<lparr> hp_timestampMs = nowMs, hp_cpuUsagePercent = cpu, hp_memoryUsagePercent = mem \<rparr>;
               history = (case um_find (histories st) h of None \<Rightarrow> [] | Some ps \<Rightarrow> ps)
           in st\<lparr> histories := um_assign h
                    (pop_front_while (unat (maxPointsPerHost st)) (history @ [point])) (histories st) \<rparr>)"

definition history_get :: "string \<Rightarrow> history_store \<Rightarrow> MetricsHistoryPoint list" where
  "history_get h st = (case um_find (histories st) h of None \<Rightarrow> [] | Some ps \<Rightarrow> ps)"

definition history_clear :: "string \<Rightarrow> history_store \<Rightarrow> history_store" where
  "history_clear h st = st\<lparr> histories := um_erase h (histories st) \<rparr>"

definition history_clear_all :: "history_store \<Rightarrow> history_store" where
  "history_clear_all st = st\<lparr> histories := [] \<rparr>"

section \<open>Lemmas\<close>

definition last_n :: "nat \<Rightarrow> 'a list \<Rightarrow> 'a list" where
  "last_n n xs = drop (length xs - n) xs"

lemma pop_front_while_eq: "pop_front_while n xs = last_n n xs"
  by (induction n xs rule: pop_front_while.induct) (auto simp: last_n_def Suc_diff_le)

lemma length_last_n: "length (last_n n xs) = min n (length xs)"
  by (simp add: last_n_def)

lemma last_n_snoc: "0 < n \<Longrightarrow> last_n n (last_n n xs @ [x]) = last_n n (xs @ [x])"
  by (cases "n \<le> length xs") (simp_all add: last_n_def Suc_diff_le)

lemma history_get_add:
  "history_get h' (history_add t h c m st) =
     (if h' = h \<and> h \<noteq> [] then last_n (unat (maxPointsPerHost st))
        (history_get h st @ [\<lparr> hp_timestampMs = t, hp_cpuUsagePercent = c, hp_memoryUsagePercent = m \<rparr>])
      else history_get h' st)"
  by (auto simp: history_add_def history_get_def Let_def um_simps pop_front_while_eq)

lemma maxPoints_add [simp]: "maxPointsPerHost (history_add t h c m st) = maxPointsPerHost st"
  by (simp add: history_add_def Let_def)

lemma maxPoints_pos: "0 < unat (maxPointsPerHost (new_history n))"
  by (auto simp: new_history_def unat_gt_0)

lemma history_get_clear:
  "history_get h' (history_clear h st) = (if h' = h then [] else history_get h' st)"
  "history_get h' (history_clear_all st) = []"
  by (simp_all add: history_clear_def history_clear_all_def history_get_def um_simps)

type_synonym sample = "int \<times> string \<times> double \<times> double"

definition add_sample :: "sample \<Rightarrow> history_store \<Rightarrow> history_store" where
  "add_sample s = (case s of (t, h, c, m) \<Rightarrow> history_add t h c m)"

definition points_of :: "string \<Rightarrow> sample list \<Rightarrow> MetricsHistoryPoint list" where
  "points_of h samples = map (\<lambda>(t, h, c, m).
     \<lparr> hp_timestampMs = t, hp_cpuUsagePercent = c, hp_memoryUsagePercent = m \<rparr>)
     (filter (\<lambda>(t, h', c, m). h' = h) samples)"

lemma points_of_snoc [simp]:
  "points_of h (ss @ [(t, h', c, m)]) = points_of h ss @
     (if h' = h then [\<lparr> hp_timestampMs = t, hp_cpuUsagePercent = c, hp_memoryUsagePercent = m \<rparr>] else [])"
  by (simp add: points_of_def)

lemma maxPoints_fold [simp]: "maxPointsPerHost (fold add_sample ss st) = maxPointsPerHost st"
  by (induction ss arbitrary: st) (auto simp: add_sample_def split: prod.splits)

text \<open>
  C22: after any run of samples for any hosts, the history of a host is the last
  \<open>maxPointsPerHost\<close> of its own samples, oldest first, and so never longer than that; a
  limit of 0 counts as 1.
\<close>

theorem history_is_window:
  "history_get h (fold add_sample ss (new_history n)) =
     (if h = [] then [] else last_n (max 1 (unat n)) (points_of h ss)) \<and>
   length (history_get h (fold add_sample ss (new_history n))) \<le> max 1 (unat n)"
proof -
  have n: "unat (maxPointsPerHost (new_history n)) = max 1 (unat n)"
    using unat_gt_0 [of n] by (cases "n = 0") (auto simp: new_history_def max_def)
  have "history_get h (fold add_sample ss (new_history n)) =
     (if h = [] then [] else last_n (max 1 (unat n)) (points_of h ss))"
  proof (induction ss rule: rev_induct)
    case Nil
    show ?case by (simp add: history_get_def new_history_def points_of_def last_n_def)
  next
    case (snoc s ss)
    obtain t h' c m where s: "s = (t, h', c, m)" by (cases s)
    show ?case
      using snoc maxPoints_fold [of ss "new_history n"]
      by (auto simp: s history_get_add n last_n_snoc add_sample_def [of "(t, h', c, m)"] simp del: maxPoints_fold)
  qed
  then show ?thesis by (simp add: length_last_n)
qed

end
