(* ===== verification/Metrics_Store.thy ===== *)
theory Metrics_Store
  imports Hash_Map System_Metrics
begin

text \<open>
  The store of the latest metrics per host: \<open>include/store/MetricsStore.h\<close> and
  \<open>src/store/MetricsStore.cpp\<close>.  The value of \<open>std::chrono::system_clock::now()\<close> is an
  argument of the operations that read it, in nanoseconds since the epoch; the mutex makes
  each operation one step.  The lemmas show that a host is found with the last metrics stored
  for it, that a snapshot has each host once, and how a host's status ages.
\<close>

section \<open>Status and records\<close>

datatype HostStatus = Online | Stale | Offline

text \<open>Statuses in the order a silent host goes through them.\<close>

instantiation HostStatus :: linorder
begin

definition less_eq_HostStatus :: "HostStatus \<Rightarrow> HostStatus \<Rightarrow> bool" where
  "less_eq_HostStatus a b \<longleftrightarrow> a = Online \<or> b = Offline \<or> a = b"

definition less_HostStatus :: "HostStatus \<Rightarrow> HostStatus \<Rightarrow> bool" where
  "less_HostStatus a b \<longleftrightarrow> a \<le> b \<and> a \<noteq> (b :: HostStatus)"

instance
proof
  fix a b c :: HostStatus
  show "a < b \<longleftrightarrow> a \<le> b \<and> \<not> b \<le> a"
    by (cases a; cases b) (simp_all add: less_HostStatus_def less_eq_HostStatus_def)
  show "a \<le> a" by (simp add: less_eq_HostStatus_def)
  show "a \<le> b \<Longrightarrow> b \<le> c \<Longrightarrow> a \<le> c" by (auto simp: less_eq_HostStatus_def)
  show "a \<le> b \<Longrightarrow> b \<le> a \<Longrightarrow> a = b" by (auto simp: less_eq_HostStatus_def)
  show "a \<le> b \<or> b \<le> a" by (cases a; cases b) (simp_all add: less_eq_HostStatus_def)
qed

end

record StoredMetrics =
  sm_metrics :: SystemMetrics
  updatedAt :: int

type_synonym metrics_store = "(string, StoredMetrics) umap"

section \<open>Operations\<close>

definition store_update :: "int \<Rightarrow> SystemMetrics \<Rightarrow> metrics_store \<Rightarrow> metrics_store result" where
  "store_update now metrics st =
     (if hostname metrics = []
      then Inl (InvalidArgument ''MetricsStore cannot store metrics with empty hostname'')
      else Inr (um_assign (hostname metrics) \<lparr> sm_metrics = metrics, updatedAt = now \<rparr> st))"

definition getLatest :: "string \<Rightarrow> metrics_store \<Rightarrow> StoredMetrics option" where
  "getLatest h st = um_find st h"

definition getAll :: "metrics_store \<Rightarrow> StoredMetrics list" where
  "getAll st = um_values st"

definition ONLINE_THRESHOLD :: int where "ONLINE_THRESHOLD = 5"

definition STALE_THRESHOLD :: int where "STALE_THRESHOLD = 15"

text \<open>\<open>duration_cast\<close> truncates; the difference is not negative where it is taken.\<close>

definition getStatus :: "int \<Rightarrow> StoredMetrics \<Rightarrow> HostStatus" where
  "getStatus now s =
     (if updatedAt s > now then Online
      else let age = (now - updatedAt s) div 1000000000
           in if age \<le> ONLINE_THRESHOLD then Online
              else if age \<le> STALE_THRESHOLD then Stale
              else Offline)"

definition getStatusOf :: "int \<Rightarrow> string \<Rightarrow> metrics_store \<Rightarrow> HostStatus option" where
  "getStatusOf now h st =
     (case getLatest h st of None \<Rightarrow> None | Some s \<Rightarrow> Some (getStatus now s))"

primrec statusToString :: "HostStatus \<Rightarrow> string" where
  "statusToString Online = ''ONLINE''"
| "statusToString Stale = ''STALE''"
| "statusToString Offline = ''OFFLINE''"

definition store_size :: "metrics_store \<Rightarrow> nat" where
  "store_size st = length st"

definition store_empty :: "metrics_store \<Rightarrow> bool" where
  "store_empty st \<longleftrightarrow> st = []"

section \<open>The invariant\<close>

text \<open>Every record is filed under the host name of its metrics, which is not empty.\<close>

definition store_ok :: "metrics_store \<Rightarrow> bool" where
  "store_ok st \<longleftrightarrow> um_ok st \<and> um_find st [] = None \<and>
     (\<forall>h s. um_find st h = Some s \<longrightarrow> hostname (sm_metrics s) = h)"

lemma store_ok_empty [simp]: "store_ok []"
  by (simp add: store_ok_def)

lemma store_ok_update: "store_ok st \<Longrightarrow> store_update now m st = Inr st' \<Longrightarrow> store_ok st'"
  by (auto simp: store_update_def store_ok_def um_simps split: if_splits)

lemma store_update_Inr:
  "store_update now m st = Inr st' \<longleftrightarrow>
     hostname m \<noteq> [] \<and> st' = um_assign (hostname m) \<lparr> sm_metrics = m, updatedAt = now \<rparr> st"
  by (auto simp: store_update_def)

lemma getAll_hosts:
  "store_ok st \<Longrightarrow> map (\<lambda>s. hostname (sm_metrics s)) (getAll st) = map fst st"
  by (auto simp: getAll_def um_values_def store_ok_def um_entry_iff [symmetric])

lemma getAll_iff: "store_ok st \<Longrightarrow> s \<in> set (getAll st) \<longleftrightarrow> getLatest (hostname (sm_metrics s)) st = Some s"
  by (auto simp: getAll_def getLatest_def store_ok_def um_values_iff)

section \<open>A run of updates\<close>

text \<open>The updates of a run, with their times; one that throws leaves the store as it was.\<close>

definition store_step :: "int \<times> SystemMetrics \<Rightarrow> metrics_store \<Rightarrow> metrics_store" where
  "store_step u st = (case store_update (fst u) (snd u) st of Inl e \<Rightarrow> st | Inr st' \<Rightarrow> st')"

definition stored_of :: "int \<times> SystemMetrics \<Rightarrow> StoredMetrics" where
  "stored_of u = \<lparr> sm_metrics = snd u, updatedAt = fst u \<rparr>"

lemma store_ok_step: "store_ok st \<Longrightarrow> store_ok (store_step u st)"
  by (auto simp: store_step_def split: sum.split intro: store_ok_update)

lemma store_ok_steps: "store_ok st \<Longrightarrow> store_ok (fold store_step us st)"
  by (induction us arbitrary: st) (simp_all add: store_ok_step)

lemma getLatest_step:
  "getLatest h (store_step u st) =
     (if h = hostname (snd u) \<and> h \<noteq> [] then Some (stored_of u) else getLatest h st)"
  by (auto simp: store_step_def store_update_def getLatest_def stored_of_def um_simps)

lemma getLatest_steps:
  "h \<noteq> [] \<Longrightarrow> getLatest h (fold store_step us st) =
     (case filter (\<lambda>u. hostname (snd u) = h) us of
        [] \<Rightarrow> getLatest h st | v # vs \<Rightarrow> Some (stored_of (last (v # vs))))"
proof (induction us arbitrary: st)
  case (Cons u us)
  then show ?case
    by (cases "filter (\<lambda>u. hostname (snd u) = h) us") (auto simp: getLatest_step)
qed simp

text \<open>
  After any run of updates from an empty store, a host is found exactly when one of them
  named it, with the metrics and the time of the last such update; the snapshot of all hosts
  holds exactly these records, each host once.
\<close>

theorem store_latest:
  "let st = fold store_step us [] in
     getLatest h st =
       (if h \<noteq> [] \<and> h \<in> (\<lambda>u. hostname (snd u)) ` set us
        then Some (stored_of (last (filter (\<lambda>u. hostname (snd u) = h) us))) else None) \<and>
     distinct (map (\<lambda>s. hostname (sm_metrics s)) (getAll st)) \<and>
     (s \<in> set (getAll st)) = (getLatest (hostname (sm_metrics s)) st = Some s)"
proof -
  define st where "st = fold store_step us []"
  have ok: "store_ok st" unfolding st_def by (rule store_ok_steps) simp
  have "getLatest h st =
       (if h \<noteq> [] \<and> h \<in> (\<lambda>u. hostname (snd u)) ` set us
        then Some (stored_of (last (filter (\<lambda>u. hostname (snd u) = h) us))) else None)"
  proof (cases "h = []")
    case True
    with ok show ?thesis by (auto simp: store_ok_def getLatest_def)
  next
    case False
    have "filter (\<lambda>u. hostname (snd u) = h) us = [] \<longleftrightarrow> h \<notin> (\<lambda>u. hostname (snd u)) ` set us"
      by (auto simp: filter_empty_conv)
    with False show ?thesis
      using getLatest_steps [of h us "[]"]
      by (cases "filter (\<lambda>u. hostname (snd u) = h) us") (simp_all add: st_def getLatest_def)
  qed
  moreover have "distinct (map (\<lambda>s. hostname (sm_metrics s)) (getAll st))"
    using ok by (simp add: getAll_hosts) (simp add: store_ok_def um_ok_def)
  ultimately show ?thesis using getAll_iff [OF ok] by (simp add: Let_def flip: st_def)
qed

section \<open>Ageing\<close>

lemma getStatus_eq:
  "getStatus now s =
     (if now - updatedAt s < 6 * 1000000000 then Online
      else if now - updatedAt s < 16 * 1000000000 then Stale else Offline)"
  by (auto simp: getStatus_def ONLINE_THRESHOLD_def STALE_THRESHOLD_def Let_def)

text \<open>
  A record that is not renewed only moves from online to stale to offline as the clock
  advances, and it is online for less than six seconds of age and offline from sixteen.
\<close>

theorem getStatus_ages:
  assumes "now \<le> later"
  shows "getStatus now s \<le> getStatus later s \<and>
         (getStatus now s = Online \<longleftrightarrow> now - updatedAt s < 6 * 1000000000) \<and>
         (getStatus now s = Offline \<longleftrightarrow> 16 * 1000000000 \<le> now - updatedAt s)"
  using assms by (auto simp: getStatus_eq less_eq_HostStatus_def)

theorem getStatus_ages_witness:
  "getStatus 0 \<lparr> sm_metrics = default_metrics, updatedAt = 0 \<rparr>
     \<le> getStatus 7000000000 \<lparr> sm_metrics = default_metrics, updatedAt = 0 \<rparr> \<and>
   getStatus 7000000000 \<lparr> sm_metrics = default_metrics, updatedAt = 0 \<rparr> = Stale"
  using getStatus_ages [of 0 7000000000 "\<lparr> sm_metrics = default_metrics, updatedAt = 0 \<rparr>"]
  by (simp add: getStatus_eq)

lemma getStatusOf_renewed:
  "store_update now m st = Inr st' \<Longrightarrow> getStatusOf now (hostname m) st' = Some Online"
  by (auto simp: store_update_Inr getStatusOf_def getLatest_def um_simps getStatus_eq)

lemma store_size_assign:
  "store_ok st \<Longrightarrow> store_update now m st = Inr st' \<Longrightarrow>
     store_size st' = (if getLatest (hostname m) st = None then Suc (store_size st) else store_size st)"
  by (auto simp: store_update_Inr store_size_def getLatest_def length_um_assign)

end
