(* ===== verification/State_Tracker.thy ===== *)
theory State_Tracker
  imports Metrics_Store
begin

text \<open>
  The tracker of host status changes: \<open>include/store/StateTracker.h\<close> and
  \<open>src/store/StateTracker.cpp\<close>.  Over any interleaving of observations of several hosts,
  the changes it reports for a host are its observed statuses with repetitions dropped, each
  linked to the one before.
\<close>

record StateChange =
  changed :: bool
  oldStatus :: HostStatus
  newStatus :: HostStatus

type_synonym state_tracker = "(string, HostStatus) umap"

definition tracker_update :: "string \<Rightarrow> HostStatus \<Rightarrow> state_tracker \<Rightarrow> StateChange \<times> state_tracker" where
  "tracker_update h current st =
     (case um_find st h of
        None \<Rightarrow> (\<lparr> changed = True, oldStatus = Offline, newStatus = current \<rparr>, um_assign h current st)
      | Some previous \<Rightarrow>
          (\<lparr> changed = (previous \<noteq> current), oldStatus = previous, newStatus = current \<rparr>,
           if previous \<noteq> current then um_assign h current st else st))"

definition tracker_clear :: "state_tracker \<Rightarrow> state_tracker" where
  "tracker_clear st = []"

section \<open>Runs of observations\<close>

fun track :: "(string \<times> HostStatus) list \<Rightarrow> state_tracker \<Rightarrow> (string \<times> StateChange) list" where
  "track [] st = []"
| "track ((h, s) # obs) st =
     (let (change, st') = tracker_update h s st in (h, change) # track obs st')"

definition changes_of :: "string \<Rightarrow> (string \<times> StateChange) list \<Rightarrow> StateChange list" where
  "changes_of h reports = filter changed (map snd (filter (\<lambda>r. fst r = h) reports))"

definition statuses_of :: "string \<Rightarrow> (string \<times> HostStatus) list \<Rightarrow> HostStatus list" where
  "statuses_of h obs = map snd (filter (\<lambda>ob. fst ob = h) obs)"

text \<open>The old statuses of a run of changes are the new statuses of the changes before.\<close>

fun linked :: "HostStatus \<Rightarrow> StateChange list \<Rightarrow> bool" where
  "linked s [] = True"
| "linked s (c # cs) = (oldStatus c = s \<and> linked (newStatus c) cs)"

lemma tracker_find:
  "um_find (snd (tracker_update h s st)) = (um_find st)(h \<mapsto> s)"
  by (auto simp: tracker_update_def um_simps split: option.split)

lemma track_from:
  "map newStatus (changes_of h (track obs st)) =
     (case um_find st h of
        None \<Rightarrow> remdups_adj (statuses_of h obs)
      | Some s \<Rightarrow> tl (remdups_adj (s # statuses_of h obs))) \<and>
   linked (case um_find st h of None \<Rightarrow> Offline | Some s \<Rightarrow> s) (changes_of h (track obs st))"
proof (induction obs arbitrary: st)
  case (Cons ob obs)
  obtain h' s where ob: "ob = (h', s)" by (cases ob)
  obtain change st' where upd: "tracker_update h' s st = (change, st')"
    by (cases "tracker_update h' s st")
  have find: "um_find st' = (um_find st)(h' \<mapsto> s)"
    using tracker_find [of h' s st] by (simp add: upd)
  show ?case
  proof (cases "h' = h")
    case False
    with Cons.IH [of st'] show ?thesis
      by (auto simp: ob upd find changes_of_def statuses_of_def split: option.splits)
  next
    case True
    define cs where "cs = changes_of h (track obs st')"
    have changes: "changes_of h (track (ob # obs) st) = (if changed change then change # cs else cs)"
      using True upd by (simp add: ob cs_def changes_of_def)
    have statuses: "statuses_of h (ob # obs) = s # statuses_of h obs"
      using True by (simp add: ob statuses_of_def)
    have IH: "map newStatus cs = tl (remdups_adj (s # statuses_of h obs))" "linked s cs"
      using Cons.IH [of st'] True find by (simp_all add: cs_def)
    show ?thesis
    proof (cases "um_find st h")
      case None
      then show ?thesis
        using upd True IH unfolding changes statuses
        by (auto simp: tracker_update_def remdups_adj_Cons_alt)
    next
      case (Some p)
      then show ?thesis
        using upd True IH unfolding changes statuses
        by (cases "p = s") (auto simp: tracker_update_def remdups_adj_Cons_alt)
    qed
  qed
qed (auto simp: changes_of_def statuses_of_def split: option.split)

text \<open>
  C36: from a new tracker, the changes reported for a host are its statuses with repetitions
  dropped, in order, so every change is reported once and nothing else is; the first is
  reported as a change from offline, and each later one from the status reported before.
\<close>

theorem tracker_reports_changes:
  "map newStatus (changes_of h (track obs [])) = remdups_adj (statuses_of h obs) \<and>
   linked Offline (changes_of h (track obs []))"
  using track_from [of h obs "[]"] by simp

end
