(* ===== verification/Alert_Evaluator.thy ===== *)
theory Alert_Evaluator
  imports System_Metrics
begin

text \<open>
  The threshold rules: \<open>include/alert/AlertEvaluator.h\<close> and
  \<open>src/alert/AlertEvaluator.cpp\<close>.  The level \<open>Warning\<close> of an alert is
  \<open>WarningLevel\<close> here, since \<open>Warning\<close> names a log level.
\<close>

datatype AlertLevel = WarningLevel | CriticalLevel

record Alert =
  al_hostname :: string
  al_metric :: string
  al_level :: AlertLevel
  al_currentValue :: double
  al_threshold :: double
  al_message :: string

text \<open>The threshold the constructor sets.\<close>

definition diskCriticalThreshold :: double where "diskCriticalThreshold = DFin False 90"

definition evaluate_cpu :: "SystemMetrics \<Rightarrow> double \<Rightarrow> Alert list" where
  "evaluate_cpu metrics cpuThreshold =
     (if d_le cpuThreshold (cpuUsagePercent metrics)
      then [\<lparr> al_hostname = hostname metrics, al_metric = ''cpu'', al_level = WarningLevel,
              al_currentValue = cpuUsagePercent metrics, al_threshold = cpuThreshold,
              al_message = ''CPU usage exceeded warning threshold'' \<rparr>]
      else [])"

definition evaluate_memory :: "SystemMetrics \<Rightarrow> double \<Rightarrow> Alert list" where
  "evaluate_memory metrics memoryThreshold =
     (if d_le memoryThreshold (memoryUsagePercent metrics)
      then [\<lparr> al_hostname = hostname metrics, al_metric = ''memory'', al_level = WarningLevel,
              al_currentValue = memoryUsagePercent metrics, al_threshold = memoryThreshold,
              al_message = ''Memory usage exceeded warning threshold'' \<rparr>]
      else [])"

definition evaluate_disk :: "SystemMetrics \<Rightarrow> Alert list" where
  "evaluate_disk metrics =
     (if d_le diskCriticalThreshold (diskUsagePercent metrics)
      then [\<lparr> al_hostname = hostname metrics, al_metric = ''disk'', al_level = CriticalLevel,
              al_currentValue = diskUsagePercent metrics, al_threshold = diskCriticalThreshold,
              al_message = ''Disk usage exceeded critical threshold'' \<rparr>]
      else [])"

definition evaluate :: "SystemMetrics \<Rightarrow> double \<Rightarrow> double \<Rightarrow> Alert list" where
  "evaluate metrics cpuThreshold memoryThreshold =
     evaluate_cpu metrics cpuThreshold @ evaluate_memory metrics memoryThreshold @ evaluate_disk metrics"

primrec levelToString :: "AlertLevel \<Rightarrow> string" where
  "levelToString WarningLevel = ''WARNING''"
| "levelToString CriticalLevel = ''CRITICAL''"

lemmas evaluate_defs = evaluate_def evaluate_cpu_def evaluate_memory_def evaluate_disk_def

lemma evaluate_hostname: "a \<in> set (evaluate m ct mt) \<Longrightarrow> al_hostname a = hostname m"
  by (auto simp: evaluate_defs split: if_splits)

lemma evaluate_metric: "a \<in> set (evaluate m ct mt) \<Longrightarrow> al_metric a \<in> {''cpu'', ''memory'', ''disk''}"
  by (auto simp: evaluate_defs split: if_splits)

lemma evaluate_exceeds: "a \<in> set (evaluate m ct mt) \<Longrightarrow> d_le (al_threshold a) (al_currentValue a)"
  by (auto simp: evaluate_defs split: if_splits)

lemma evaluate_threshold:
  "a \<in> set (evaluate m ct mt) \<Longrightarrow>
     al_threshold a = (if al_metric a = ''cpu'' then ct else if al_metric a = ''memory'' then mt
                       else diskCriticalThreshold)"
  by (auto simp: evaluate_defs split: if_splits)

lemma evaluate_distinct: "distinct (map al_metric (evaluate m ct mt))"
  by (simp add: evaluate_defs)

end
