(* ===== verification/Alert_Manager.thy ===== *)
theory Alert_Manager
  imports Alert_Evaluator Config_File
begin

text \<open>
  The alert life cycle: \<open>include/alert/AlertManager.h\<close> and \<open>src/alert/AlertManager.cpp\<close>.
  The value of \<open>steady_clock::now()\<close> is an argument, in nanoseconds.  One update is
  refined to a state machine per alert, \<open>next_alert\<close>; the invariant over runs of updates
  says when an alert may be firing.
\<close>

section \<open>State\<close>

datatype AlertState = Normal | Pending | Firing

record ManagedAlert =
  ma_hostname :: string
  ma_metric :: string
  ma_level :: AlertLevel
  ma_state :: AlertState
  ma_currentValue :: double
  ma_threshold :: double
  ma_message :: string
  ma_firstDetected :: int
  ma_lastUpdate :: int

type_synonym alert_map = "(string, ManagedAlert) umap"

record alert_manager =
  am_alerts :: alert_map
  am_fireDuration :: int
  am_cpuThreshold :: double
  am_memoryThreshold :: double

definition new_alert_manager :: "config \<Rightarrow> alert_manager result" where
  "new_alert_manager config =
     ebind (config_getInt config ''fire_duration'' 5) (\<lambda>fire.
     ebind (config_getDouble config ''cpu_threshold'' (DFin False 80)) (\<lambda>cpu.
     ebind (config_getDouble config ''memory_threshold'' (DFin False 90)) (\<lambda>memory.
     Inr \<lparr> am_alerts = [], am_fireDuration = fire, am_cpuThreshold = cpu,
           am_memoryThreshold = memory \<rparr>)))"

definition makeKey :: "string \<Rightarrow> string \<Rightarrow> string" where
  "makeKey h metric = h @ ''_'' @ metric"

section \<open>One update\<close>

definition new_managed :: "int \<Rightarrow> Alert \<Rightarrow> ManagedAlert" where
  "new_managed now alert = \<lparr> ma_hostname = al_hostname alert, ma_metric = al_metric alert,
     ma_level = al_level alert, ma_state = Pending, ma_currentValue = al_currentValue alert,
     ma_threshold = al_threshold alert, ma_message = al_message alert,
     ma_firstDetected = now, ma_lastUpdate = now \<rparr>"

text \<open>
  The body of the loop over the raised alerts, on the alerts, the result and the keys raised
  in this update.  The times come from the steady clock, so the differences are not negative
  and \<open>div\<close> is the cast of the duration to seconds.
\<close>

type_synonym raise_state = "alert_map \<times> ManagedAlert list \<times> (string, bool) umap"

definition raise_alert :: "int \<Rightarrow> int \<Rightarrow> Alert \<Rightarrow> raise_state \<Rightarrow> raise_state" where
  "raise_alert fireDuration now alert st = (case st of (alerts, res, currentKeys) \<Rightarrow>
     let key = makeKey (al_hostname alert) (al_metric alert);
         currentKeys' = um_assign key True currentKeys
     in case um_find alerts key of
          None \<Rightarrow> (um_assign key (new_managed now alert) alerts, res, currentKeys')
        | Some found \<Rightarrow>
            let managed = found\<lparr> ma_currentValue := al_currentValue alert, ma_lastUpdate := now \<rparr>;
                duration = (now - ma_firstDetected managed) div 1000000000
            in if duration \<ge> fireDuration \<and> ma_state managed \<noteq> Firing
               then let fired = managed\<lparr> ma_state := Firing \<rparr>
                    in (um_assign key fired alerts, res @ [fired], currentKeys')
               else (um_assign key managed alerts, res, currentKeys'))"

text \<open>The loop over all alerts, which ends the firing ones that were not raised.\<close>

definition resolve_alert :: "(string, bool) umap \<Rightarrow> string \<Rightarrow> ManagedAlert \<Rightarrow> ManagedAlert" where
  "resolve_alert currentKeys key alert =
     (if um_find currentKeys key = None
      then if ma_state alert = Firing then alert\<lparr> ma_state := Normal \<rparr> else alert
      else alert)"

definition resolve_logs :: "(string, bool) umap \<Rightarrow> alert_map \<Rightarrow> log_entry list" where
  "resolve_logs currentKeys alerts =
     map (\<lambda>(key, alert). (Info, ''Alert resolved: '' @ ma_hostname alert @ '' '' @ ma_metric alert))
       (filter (\<lambda>(key, alert). um_find currentKeys key = None \<and> ma_state alert = Firing) alerts)"

definition alert_update ::
  "int \<Rightarrow> SystemMetrics \<Rightarrow> alert_manager \<Rightarrow> alert_manager \<times> ManagedAlert list \<times> log_entry list" where
  "alert_update now metrics am =
     (let rawAlerts = evaluate metrics (am_cpuThreshold am) (am_memoryThreshold am);
          (alerts, res, currentKeys) = fold (raise_alert (am_fireDuration am) now) rawAlerts (am_alerts am, [], [])
      in (am\<lparr> am_alerts := um_update_all (resolve_alert currentKeys) alerts \<rparr>, res,
          resolve_logs currentKeys alerts))"

definition getActiveAlerts :: "alert_manager \<Rightarrow> ManagedAlert list" where
  "getActiveAlerts am = filter (\<lambda>alert. ma_state alert \<noteq> Normal) (um_values (am_alerts am))"

section \<open>The state machine of one alert\<close>

text \<open>
  What one update does to the alert of one key: \<open>Some a\<close> when its condition holds in the
  update, \<open>None\<close> otherwise.
\<close>

definition fires :: "int \<Rightarrow> int \<Rightarrow> ManagedAlert \<Rightarrow> bool" where
  "fires fireDuration now m \<longleftrightarrow>
     fireDuration \<le> (now - ma_firstDetected m) div 1000000000 \<and> ma_state m \<noteq> Firing"

definition refreshed :: "int \<Rightarrow> int \<Rightarrow> Alert \<Rightarrow> ManagedAlert \<Rightarrow> ManagedAlert" where
  "refreshed fireDuration now a m = m\<lparr> ma_currentValue := al_currentValue a, ma_lastUpdate := now,
     ma_state := (if fires fireDuration now m then Firing else ma_state m) \<rparr>"

fun next_alert :: "int \<Rightarrow> int \<Rightarrow> Alert option \<Rightarrow> ManagedAlert option \<Rightarrow> ManagedAlert option" where
  "next_alert fd now None None = None"
| "next_alert fd now None (Some m) =
     Some (if ma_state m = Firing then m\<lparr> ma_state := Normal \<rparr> else m)"
| "next_alert fd now (Some a) None = Some (new_managed now a)"
| "next_alert fd now (Some a) (Some m) = Some (refreshed fd now a m)"

definition alert_key :: "Alert \<Rightarrow> string" where
  "alert_key a = makeKey (al_hostname a) (al_metric a)"

definition raised :: "Alert list \<Rightarrow> string \<Rightarrow> Alert option" where
  "raised alerts key = map_of (map (\<lambda>a. (alert_key a, a)) alerts) key"

definition newly_fired :: "int \<Rightarrow> int \<Rightarrow> alert_map \<Rightarrow> Alert \<Rightarrow> ManagedAlert option" where
  "newly_fired fd now alerts a = (case um_find alerts (alert_key a) of
     None \<Rightarrow> None
   | Some m \<Rightarrow> if fires fd now m then Some (refreshed fd now a m) else None)"

section \<open>Keys\<close>

lemma makeKey_inj:
  assumes "makeKey h metric = makeKey h' metric'" and "CHR ''_'' \<notin> set metric" and "CHR ''_'' \<notin> set metric'"
  shows "h = h' \<and> metric = metric'"
proof -
  have rev_key: "takeWhile (\<lambda>c. c \<noteq> CHR ''_'') (rev (makeKey g m)) = rev m" if "CHR ''_'' \<notin> set m" for g m
    using that takeWhile_neq_append [of "CHR ''_''" "rev m" "rev g"] by (simp add: makeKey_def)
  from rev_key [OF assms(2), of h] rev_key [OF assms(3), of h'] assms(1) have "metric = metric'" by simp
  with assms(1) show ?thesis by (simp add: makeKey_def)
qed

lemma evaluate_keys: "distinct (map alert_key (evaluate m ct mt))"
proof -
  have "map alert_key (evaluate m ct mt) = map (makeKey (hostname m)) (map al_metric (evaluate m ct mt))"
    by (auto simp: alert_key_def dest: evaluate_hostname)
  moreover have "inj (makeKey (hostname m))" by (auto simp: inj_def makeKey_def)
  ultimately show ?thesis
    using evaluate_distinct [of m ct mt]
    by (metis distinct_map inj_on_subset subset_UNIV)
qed

section \<open>The loops\<close>

lemma raise_alert_eq:
  "raise_alert fd now a (alerts, res, cur) =
     (um_assign (alert_key a) (the (next_alert fd now (Some a) (um_find alerts (alert_key a)))) alerts,
      res @ (case newly_fired fd now alerts a of None \<Rightarrow> [] | Some m \<Rightarrow> [m]),
      um_assign (alert_key a) True cur)"
  by (auto simp: raise_alert_def Let_def alert_key_def newly_fired_def refreshed_def fires_def
      split: option.split)

lemma newly_fired_other:
  "alert_key b \<noteq> alert_key a \<Longrightarrow> newly_fired fd now (um_assign (alert_key a) m alerts) b = newly_fired fd now alerts b"
  by (simp add: newly_fired_def um_simps)

lemma raise_loop:
  assumes "distinct (map alert_key as)"
    and "fold (raise_alert fd now) as (alerts, res, cur) = (alerts', res', cur')"
  shows "um_find alerts' key = (case raised as key of
           None \<Rightarrow> um_find alerts key | Some a \<Rightarrow> next_alert fd now (Some a) (um_find alerts key))"
    and "res' = res @ List.map_filter (newly_fired fd now alerts) as"
    and "um_find cur' key = (if raised as key = None then um_find cur key else Some True)"
proof (atomize (full), use assms in \<open>induction as arbitrary: alerts res cur\<close>)
  case Nil
  then show ?case by (simp add: raised_def map_filter_simps)
next
  case (Cons a as)
  define m where "m = the (next_alert fd now (Some a) (um_find alerts (alert_key a)))"
  define alerts1 where "alerts1 = um_assign (alert_key a) m alerts"
  have m: "next_alert fd now (Some a) (um_find alerts (alert_key a)) = Some m"
    by (cases "um_find alerts (alert_key a)") (simp_all add: m_def)
  have fresh: "raised as (alert_key a) = None"
    using Cons.prems(1) by (auto simp: raised_def map_of_eq_None_iff image_iff)
  have "newly_fired fd now alerts1 b = newly_fired fd now alerts b" if "b \<in> set as" for b
  proof -
    have "alert_key a \<notin> alert_key ` set as" using Cons.prems(1) by simp
    then have "alert_key b \<noteq> alert_key a" using imageI [OF that, of alert_key] by metis
    then show ?thesis unfolding alerts1_def by (rule newly_fired_other)
  qed
  then have filter_eq: "List.map_filter (newly_fired fd now alerts1) as = List.map_filter (newly_fired fd now alerts) as"
    by (rule map_filter_cong)
  have IH: "um_find alerts' key = (case raised as key of
           None \<Rightarrow> um_find alerts1 key | Some a \<Rightarrow> next_alert fd now (Some a) (um_find alerts1 key)) \<and>
      res' = (res @ (case newly_fired fd now alerts a of None \<Rightarrow> [] | Some m \<Rightarrow> [m])) @
             List.map_filter (newly_fired fd now alerts1) as \<and>
      um_find cur' key = (if raised as key = None then um_find (um_assign (alert_key a) True cur) key else Some True)"
    using Cons.prems by (intro Cons.IH) (simp_all add: raise_alert_eq alerts1_def m_def)
  show ?case
    using IH fresh m
    by (auto simp: filter_eq [unfolded alerts1_def] map_filter_simps alerts1_def um_simps raised_def split: option.splits)
qed

section \<open>The update refines the state machines\<close>

lemma alert_update_find:
  assumes "alert_update now metrics am = (am', res, logs)"
  defines "raws \<equiv> evaluate metrics (am_cpuThreshold am) (am_memoryThreshold am)"
  shows "um_find (am_alerts am') key = next_alert (am_fireDuration am) now (raised raws key) (um_find (am_alerts am) key)"
    and "res = List.map_filter (newly_fired (am_fireDuration am) now (am_alerts am)) raws"
    and "am_fireDuration am' = am_fireDuration am" "am_cpuThreshold am' = am_cpuThreshold am"
      "am_memoryThreshold am' = am_memoryThreshold am"
proof -
  obtain alerts res' cur where
    loop: "fold (raise_alert (am_fireDuration am) now) raws (am_alerts am, [], []) = (alerts, res', cur)"
    using prod_cases3 by blast
  note r = raise_loop [OF evaluate_keys [of metrics "am_cpuThreshold am" "am_memoryThreshold am"]
      loop [unfolded raws_def], folded raws_def]
  have am': "am' = am\<lparr> am_alerts := um_update_all (resolve_alert cur) alerts \<rparr>" and res: "res = res'"
    using assms(1) loop by (auto simp: alert_update_def raws_def Let_def)
  show "um_find (am_alerts am') key = next_alert (am_fireDuration am) now (raised raws key) (um_find (am_alerts am) key)"
    using r(1,3) [of key]
    by (cases "um_find (am_alerts am) key")
       (auto simp: am' um_simps resolve_alert_def split: option.splits)
  show "res = List.map_filter (newly_fired (am_fireDuration am) now (am_alerts am)) raws"
    using r(2) by (simp add: res)
  show "am_fireDuration am' = am_fireDuration am" "am_cpuThreshold am' = am_cpuThreshold am"
      "am_memoryThreshold am' = am_memoryThreshold am"
    by (simp_all add: am')
qed

text \<open>
  C7: one update advances the alert of every key by the state machine \<open>next_alert\<close> of that
  key alone, and reports exactly the alerts that begin to fire, in the order of the rules.
\<close>

theorem alert_update_refines:
  "let raws = evaluate metrics (am_cpuThreshold am) (am_memoryThreshold am);
       (am', res, logs) = alert_update now metrics am
   in um_find (am_alerts am') key =
        next_alert (am_fireDuration am) now (raised raws key) (um_find (am_alerts am) key) \<and>
      res = List.map_filter (newly_fired (am_fireDuration am) now (am_alerts am)) raws"
proof -
  obtain am' res logs where upd: "alert_update now metrics am = (am', res, logs)"
    using prod_cases3 by blast
  from alert_update_find(1,2) [OF upd] show ?thesis by (simp add: upd)
qed

section \<open>The invariant\<close>

text \<open>
  At time \<open>now\<close>: every alert is filed under its own key, was first seen and last updated
  in that order and not after \<open>now\<close>, exceeded the threshold of its metric when last
  updated, and has been around for the fire duration unless it is pending.
\<close>

definition metric_threshold :: "alert_manager \<Rightarrow> string \<Rightarrow> double" where
  "metric_threshold am metric =
     (if metric = ''cpu'' then am_cpuThreshold am
      else if metric = ''memory'' then am_memoryThreshold am else diskCriticalThreshold)"

definition alert_ok :: "alert_manager \<Rightarrow> int \<Rightarrow> ManagedAlert \<Rightarrow> bool" where
  "alert_ok am now m \<longleftrightarrow>
     ma_firstDetected m \<le> ma_lastUpdate m \<and> ma_lastUpdate m \<le> now \<and>
     ma_threshold m = metric_threshold am (ma_metric m) \<and> d_le (ma_threshold m) (ma_currentValue m) \<and>
     (ma_state m \<noteq> Pending \<longrightarrow>
        am_fireDuration am * 1000000000 \<le> ma_lastUpdate m - ma_firstDetected m)"

definition alerts_ok :: "int \<Rightarrow> alert_manager \<Rightarrow> bool" where
  "alerts_ok now am \<longleftrightarrow>
     (\<forall>key m. um_find (am_alerts am) key = Some m \<longrightarrow>
        key = makeKey (ma_hostname m) (ma_metric m) \<and>
        ma_metric m \<in> {''cpu'', ''memory'', ''disk''} \<and> alert_ok am now m)"

lemma raised_SomeD:
  "raised as key = Some a \<Longrightarrow> a \<in> set as \<and> key = makeKey (al_hostname a) (al_metric a)"
  by (auto simp: raised_def alert_key_def dest!: map_of_SomeD)

lemma metric_no_sep: "metric \<in> {''cpu'', ''memory'', ''disk''} \<Longrightarrow> CHR ''_'' \<notin> set metric"
  by auto

lemma nanos_div: "d \<le> x div 1000000000 \<longleftrightarrow> d * 1000000000 \<le> (x :: int)"
proof -
  have "x = 1000000000 * (x div 1000000000) + x mod 1000000000" by simp
  moreover have "0 \<le> x mod 1000000000" "x mod 1000000000 < 1000000000" by simp_all
  ultimately show ?thesis by linarith
qed

lemma alerts_ok_update:
  assumes ok: "alerts_ok t am" and time: "t \<le> now" and upd: "alert_update now metrics am = (am', res, logs)"
  shows "alerts_ok now am'"
  unfolding alerts_ok_def
proof (intro allI impI)
  fix key m
  define raws where "raws = evaluate metrics (am_cpuThreshold am) (am_memoryThreshold am)"
  note find = alert_update_find(1) [OF upd, of key, folded raws_def]
  have th: "metric_threshold am' = metric_threshold am" "am_fireDuration am' = am_fireDuration am"
    using alert_update_find(3-5) [OF upd] by (simp_all add: metric_threshold_def fun_eq_iff)
  have "next_alert (am_fireDuration am) now (raised raws key) (um_find (am_alerts am) key) = Some m"
    if "um_find (am_alerts am') key = Some m" using that find by simp
  moreover assume "um_find (am_alerts am') key = Some m"
  ultimately have next_m: "next_alert (am_fireDuration am) now (raised raws key) (um_find (am_alerts am) key) = Some m"
    by simp
  have old: "um_find (am_alerts am) key = Some m0 \<Longrightarrow>
      key = makeKey (ma_hostname m0) (ma_metric m0) \<and> ma_metric m0 \<in> {''cpu'', ''memory'', ''disk''} \<and> alert_ok am t m0" for m0
    using ok by (auto simp: alerts_ok_def)
  have raw: "raised raws key = Some a \<Longrightarrow>
      key = makeKey (al_hostname a) (al_metric a) \<and> al_metric a \<in> {''cpu'', ''memory'', ''disk''} \<and>
      d_le (al_threshold a) (al_currentValue a) \<and> al_threshold a = metric_threshold am (al_metric a)" for a
    using raised_SomeD [of raws key a] evaluate_metric [of a metrics] evaluate_exceeds [of a metrics]
      evaluate_threshold [of a metrics]
    unfolding raws_def metric_threshold_def by blast
  show "key = makeKey (ma_hostname m) (ma_metric m) \<and> ma_metric m \<in> {''cpu'', ''memory'', ''disk''} \<and> alert_ok am' now m"
  proof (cases "um_find (am_alerts am) key")
    case None
    with next_m obtain a where a: "raised raws key = Some a" and m: "m = new_managed now a"
      by (cases "raised raws key") auto
    show ?thesis using raw [OF a] by (auto simp: m new_managed_def alert_ok_def th)
  next
    case (Some m0)
    note o = old [OF Some]
    show ?thesis
    proof (cases "raised raws key")
      case None
      with next_m Some have "m = (if ma_state m0 = Firing then m0\<lparr> ma_state := Normal \<rparr> else m0)" by simp
      with o time show ?thesis by (auto simp: alert_ok_def th)
    next
      case (Some a)
      have m: "m = refreshed (am_fireDuration am) now a m0"
        using next_m Some \<open>um_find (am_alerts am) key = Some m0\<close> by simp
      have "al_metric a = ma_metric m0"
        using o raw [OF Some] makeKey_inj metric_no_sep by metis
      with o raw [OF Some] time show ?thesis
        by (auto simp: m refreshed_def fires_def alert_ok_def th nanos_div)
    qed
  qed
qed

section \<open>Runs\<close>

definition run_alerts :: "(int \<times> SystemMetrics) list \<Rightarrow> alert_manager \<Rightarrow> alert_manager" where
  "run_alerts us am = fold (\<lambda>(t, m) am. fst (alert_update t m am)) us am"

lemma alerts_ok_later: "alerts_ok t am \<Longrightarrow> t \<le> now \<Longrightarrow> alerts_ok now am"
  by (fastforce simp: alerts_ok_def alert_ok_def)

lemma alerts_ok_run:
  assumes "sorted (map fst us)" and "\<forall>u \<in> set us. t \<le> fst u \<and> fst u \<le> now" and "t \<le> now" and "alerts_ok t am"
  shows "alerts_ok now (run_alerts us am)"
  using assms
proof (induction us arbitrary: t am)
  case Nil
  then show ?case by (simp add: run_alerts_def alerts_ok_later)
next
  case (Cons u us)
  obtain t1 m where u: "u = (t1, m)" by (cases u)
  have "alerts_ok t1 (fst (alert_update t1 m am))"
    using Cons.prems by (intro alerts_ok_update [of t am t1 m _ "fst (snd (alert_update t1 m am))"
          "snd (snd (alert_update t1 m am))"]) (simp_all add: u)
  with Cons.IH [of t1 "fst (alert_update t1 m am)"] Cons.prems show ?case
    by (auto simp: u run_alerts_def)
qed

lemma run_alerts_config [simp]:
  "am_fireDuration (run_alerts us am) = am_fireDuration am"
  "metric_threshold (run_alerts us am) = metric_threshold am"
  by (induction us arbitrary: am)
     (auto simp: run_alerts_def alert_update_def metric_threshold_def Let_def fun_eq_iff split: prod.splits)

lemma alerts_ok_new: "new_alert_manager config = Inr am \<Longrightarrow> alerts_ok t am"
  by (auto simp: new_alert_manager_def result_simps alerts_ok_def)

lemma newly_fired_SomeE:
  assumes "newly_fired fd now alerts a = Some m"
  obtains m0 where "um_find alerts (alert_key a) = Some m0" and "fires fd now m0" and "m = refreshed fd now a m0"
  using assms by (auto simp: newly_fired_def split: option.splits if_splits)

lemma alert_update_reports:
  assumes "m \<in> set (fst (snd (alert_update now metrics am)))"
  obtains a m0 where "a \<in> set (evaluate metrics (am_cpuThreshold am) (am_memoryThreshold am))"
    and "um_find (am_alerts am) (alert_key a) = Some m0" and "fires (am_fireDuration am) now m0"
    and "m = refreshed (am_fireDuration am) now a m0"
proof -
  have "m \<in> set (List.map_filter (newly_fired (am_fireDuration am) now (am_alerts am))
      (evaluate metrics (am_cpuThreshold am) (am_memoryThreshold am)))"
    using assms alert_update_find(2) [of now metrics am "fst (alert_update now metrics am)"
        "fst (snd (alert_update now metrics am))" "snd (snd (alert_update now metrics am))"] by simp
  then show thesis by (auto simp: set_map_filter elim: newly_fired_SomeE intro: that)
qed

lemma alert_report_ok:
  assumes ok: "alerts_ok t am" and rep: "m \<in> set (fst (snd (alert_update now metrics am)))"
  shows "ma_state m = Firing \<and> ma_hostname m = hostname metrics \<and> ma_lastUpdate m = now \<and>
         am_fireDuration am * 1000000000 \<le> now - ma_firstDetected m \<and>
         d_le (metric_threshold am (ma_metric m)) (ma_currentValue m)"
proof -
  from rep obtain a m0 where a: "a \<in> set (evaluate metrics (am_cpuThreshold am) (am_memoryThreshold am))"
    and m0: "um_find (am_alerts am) (alert_key a) = Some m0" and fires: "fires (am_fireDuration am) now m0"
    and m: "m = refreshed (am_fireDuration am) now a m0" by (rule alert_update_reports)
  note raw = evaluate_metric [OF a] evaluate_hostname [OF a] evaluate_exceeds [OF a] evaluate_threshold [OF a]
  from ok m0 have key: "alert_key a = makeKey (ma_hostname m0) (ma_metric m0)"
    and metric: "ma_metric m0 \<in> {''cpu'', ''memory'', ''disk''}"
    unfolding alerts_ok_def by blast+
  have "al_hostname a = ma_hostname m0 \<and> al_metric a = ma_metric m0"
    using key raw(1) metric makeKey_inj metric_no_sep unfolding alert_key_def by metis
  with raw fires show ?thesis
    by (auto simp: m refreshed_def fires_def nanos_div metric_threshold_def)
qed

text \<open>
  C16: from a new manager, after any run of updates on a clock that never goes back, an alert
  the next update reports is firing, is about the host of that update, was first seen at
  least the fire duration earlier, and its value is at or over its metric's threshold.
\<close>

theorem alert_reported_after_duration:
  assumes "new_alert_manager config = Inr am0"
    and "m \<in> set (fst (snd (alert_update now metrics (run_alerts us am0))))"
    and "sorted (map fst us)"
  shows "ma_state m = Firing \<and> ma_hostname m = hostname metrics \<and> ma_lastUpdate m = now \<and>
         am_fireDuration am0 * 1000000000 \<le> now - ma_firstDetected m \<and>
         d_le (metric_threshold am0 (ma_metric m)) (ma_currentValue m)"
proof -
  define lo where "lo = (if us = [] then 0 else fst (hd us))"
  define hi where "hi = (if us = [] then 0 else fst (last us))"
  have "\<forall>u \<in> set us. lo \<le> fst u \<and> fst u \<le> hi" and "lo \<le> hi"
    using sorted_hd_le [OF assms(3)] sorted_le_last [OF assms(3)]
    by (auto simp: lo_def hi_def)
  then have "alerts_ok hi (run_alerts us am0)"
    using alerts_ok_run assms(1,3) alerts_ok_new by blast
  from alert_report_ok [OF this assms(2)] show ?thesis by simp
qed

definition default_manager :: alert_manager where
  "default_manager = \<lparr> am_alerts = [], am_fireDuration = 5, am_cpuThreshold = DFin False 80,
     am_memoryThreshold = DFin False 90 \<rparr>"

lemma new_alert_manager_default: "new_alert_manager [] = Inr default_manager"
  by (simp add: new_alert_manager_def config_getInt_missing config_getDouble_missing default_manager_def)

definition hot_cpu :: "string \<Rightarrow> SystemMetrics" where
  "hot_cpu h = default_metrics\<lparr> hostname := h, cpuUsagePercent := DFin False 90 \<rparr>"

definition hot_alert :: "string \<Rightarrow> AlertState \<Rightarrow> int \<Rightarrow> int \<Rightarrow> ManagedAlert" where
  "hot_alert h state first last_update = \<lparr> ma_hostname = h, ma_metric = ''cpu'', ma_level = WarningLevel,
     ma_state = state, ma_currentValue = DFin False 90, ma_threshold = DFin False 80,
     ma_message = ''CPU usage exceeded warning threshold'', ma_firstDetected = first,
     ma_lastUpdate = last_update \<rparr>"

lemma evaluate_hot: "evaluate (hot_cpu h) (DFin False 80) (DFin False 90) =
    [\<lparr> al_hostname = h, al_metric = ''cpu'', al_level = WarningLevel, al_currentValue = DFin False 90,
       al_threshold = DFin False 80, al_message = ''CPU usage exceeded warning threshold'' \<rparr>]"
  by (simp add: evaluate_defs hot_cpu_def default_metrics_def diskCriticalThreshold_def d_zero_def d_val_def)

lemma hot_run:
  "run_alerts [(0, hot_cpu ''a''), (1000000000, hot_cpu ''a'')] default_manager =
     default_manager\<lparr> am_alerts := [(''a_cpu'', hot_alert ''a'' Pending 0 1000000000)] \<rparr>"
  "fst (snd (alert_update 5000000000 (hot_cpu ''a'')
     (default_manager\<lparr> am_alerts := [(''a_cpu'', hot_alert ''a'' Pending 0 1000000000)] \<rparr>))) =
     [hot_alert ''a'' Firing 0 5000000000]"
  by (simp_all add: run_alerts_def alert_update_def default_manager_def evaluate_hot raise_alert_def makeKey_def
      um_find_def new_managed_def hot_alert_def um_update_all_def resolve_alert_def Let_def)

theorem alert_reported_after_duration_witness:
  "hot_alert ''a'' Firing 0 5000000000 \<in> set (fst (snd (alert_update 5000000000 (hot_cpu ''a'')
      (run_alerts [(0, hot_cpu ''a''), (1000000000, hot_cpu ''a'')] default_manager)))) \<and>
   (5 :: int) * 1000000000 \<le> 5000000000 - ma_firstDetected (hot_alert ''a'' Firing 0 5000000000)"
  using alert_reported_after_duration [OF new_alert_manager_default, of "hot_alert ''a'' Firing 0 5000000000"
      5000000000 "hot_cpu ''a''" "[(0, hot_cpu ''a''), (1000000000, hot_cpu ''a'')]"]
  by (simp add: hot_run) (simp add: default_manager_def)

section \<open>Several hosts share one manager\<close>

lemma resolved_by_other:
  assumes "um_find (am_alerts am) key = Some m" and "ma_state m = Firing"
    and "raised (evaluate metrics (am_cpuThreshold am) (am_memoryThreshold am)) key = None"
  shows "um_find (am_alerts (fst (alert_update now metrics am))) key = Some (m\<lparr> ma_state := Normal \<rparr>)"
  using alert_update_find(1) [of now metrics am "fst (alert_update now metrics am)"
        "fst (snd (alert_update now metrics am))" "snd (snd (alert_update now metrics am))" key] assms
  by simp

lemma raised_other_host:
  assumes "hostname metrics \<noteq> h" and "metric \<in> {''cpu'', ''memory'', ''disk''}"
  shows "raised (evaluate metrics ct mt) (makeKey h metric) = None"
proof (rule ccontr)
  assume "raised (evaluate metrics ct mt) (makeKey h metric) \<noteq> None"
  then obtain a where a: "a \<in> set (evaluate metrics ct mt)"
    and key: "makeKey h metric = makeKey (al_hostname a) (al_metric a)"
    using raised_SomeD by fastforce
  from key evaluate_metric [OF a] assms(2) have "h = al_hostname a"
    using makeKey_inj metric_no_sep by metis
  with evaluate_hostname [OF a] assms(1) show False by simp
qed

text \<open>
  C29: the second loop of an update runs over the alerts of every host, so an update from one
  host takes the firing alerts of all other hosts back to normal, although nothing is known
  of them; the next update of such a host that still exceeds the threshold reports its alert
  as newly firing again.
\<close>

theorem alert_of_other_host_flaps:
  assumes "alerts_ok t am" and "t \<le> t2"
    and "um_find (am_alerts am) (makeKey h metric) = Some m" and "ma_state m = Firing"
    and "hostname other \<noteq> h"
    and "a \<in> set (evaluate mine (am_cpuThreshold am) (am_memoryThreshold am))"
    and "al_hostname a = h" and "al_metric a = metric"
  shows "um_find (am_alerts (fst (alert_update t1 other am))) (makeKey h metric) = Some (m\<lparr> ma_state := Normal \<rparr>) \<and>
         (\<exists>m' \<in> set (fst (snd (alert_update t2 mine (fst (alert_update t1 other am))))).
            ma_hostname m' = h \<and> ma_metric m' = metric)"
proof -
  define am1 where "am1 = fst (alert_update t1 other am)"
  have find: "um_find (am_alerts am1) (makeKey h metric) = Some (m\<lparr> ma_state := Normal \<rparr>)"
    unfolding am1_def using assms evaluate_metric [OF assms(6)]
    by (intro resolved_by_other raised_other_host) auto
  note cfg = alert_update_find(3-5) [of t1 other am am1 "fst (snd (alert_update t1 other am))"
        "snd (snd (alert_update t1 other am))"]
  have key: "alert_key a = makeKey h metric" using assms(7,8) by (simp add: alert_key_def)
  from assms(1,3,4) have ok: "alert_ok am t m" and names: "makeKey h metric = makeKey (ma_hostname m) (ma_metric m)"
    and metric: "ma_metric m \<in> {''cpu'', ''memory'', ''disk''}"
    unfolding alerts_ok_def by blast+
  have "ma_hostname m = h \<and> ma_metric m = metric"
    using names metric evaluate_metric [OF assms(6)] assms(8) makeKey_inj metric_no_sep by metis
  moreover have "fires (am_fireDuration am1) t2 (m\<lparr> ma_state := Normal \<rparr>)"
    using ok assms(2,4) cfg by (simp add: fires_def nanos_div alert_ok_def am1_def)
  ultimately have fired: "newly_fired (am_fireDuration am1) t2 (am_alerts am1) a =
      Some (refreshed (am_fireDuration am1) t2 a (m\<lparr> ma_state := Normal \<rparr>))"
    and "ma_hostname m = h" "ma_metric m = metric"
    by (simp_all add: newly_fired_def key find)
  moreover have "fst (snd (alert_update t2 mine am1)) = List.map_filter
      (newly_fired (am_fireDuration am1) t2 (am_alerts am1))
      (evaluate mine (am_cpuThreshold am) (am_memoryThreshold am))"
    using alert_update_find(2) [of t2 mine am1 "fst (alert_update t2 mine am1)"
        "fst (snd (alert_update t2 mine am1))" "snd (snd (alert_update t2 mine am1))"] cfg
    by (simp add: am1_def)
  ultimately have "\<exists>m' \<in> set (fst (snd (alert_update t2 mine am1))). ma_hostname m' = h \<and> ma_metric m' = metric"
    using assms(6) by (intro bexI [of _ "refreshed (am_fireDuration am1) t2 a (m\<lparr> ma_state := Normal \<rparr>)"])
       (auto simp: set_map_filter refreshed_def)
  with find show ?thesis by (simp add: am1_def)
qed

definition firing_manager :: alert_manager where
  "firing_manager = default_manager\<lparr> am_alerts := [(''a_cpu'', hot_alert ''a'' Firing 0 5000000000)] \<rparr>"

lemma firing_manager_ok: "alerts_ok 5000000000 firing_manager"
  by (simp add: alerts_ok_def firing_manager_def default_manager_def um_find_def hot_alert_def makeKey_def
      alert_ok_def metric_threshold_def d_val_def)

theorem alert_of_other_host_flaps_witness:
  "um_find (am_alerts (fst (alert_update 6000000000 default_metrics firing_manager))) ''a_cpu'' =
     Some (hot_alert ''a'' Normal 0 5000000000)"
  using alert_of_other_host_flaps [OF firing_manager_ok, of 7000000000 "''a''" "''cpu''"
      "hot_alert ''a'' Firing 0 5000000000" default_metrics "hd (evaluate (hot_cpu ''a'') (DFin False 80) (DFin False 90))"
      "hot_cpu ''a''" 6000000000]
  by (simp add: firing_manager_def default_manager_def evaluate_hot um_find_def makeKey_def
      default_metrics_def) (simp add: hot_alert_def)

end
