(* ===== verification/Transition_System.thy ===== *)
theory Transition_System
  imports Main
begin

text \<open>
  What the step relations of the development share: a property that holds at the start and is
  kept by every step holds in every reachable state, and a machine each of whose steps is
  matched by steps of another one reaches only states that match states the other reaches.
  Both are locales, interpreted on the reactor, the pool, the workers and the whole server.
\<close>

locale invariant_system =
  fixes start :: "'s \<Rightarrow> bool" and step :: "'s \<Rightarrow> 's \<Rightarrow> bool" and inv :: "'s \<Rightarrow> bool"
  assumes inv_start: "start s \<Longrightarrow> inv s"
    and inv_step: "step s t \<Longrightarrow> inv s \<Longrightarrow> inv t"
begin

lemma kept: "step\<^sup>*\<^sup>* s t \<Longrightarrow> inv s \<Longrightarrow> inv t"
  by (induction rule: rtranclp_induct) (auto intro: inv_step)

lemma reached: "start s \<Longrightarrow> step\<^sup>*\<^sup>* s t \<Longrightarrow> inv t"
  using kept inv_start by blast

end

locale simulation =
  fixes cstep :: "'c \<Rightarrow> 'c \<Rightarrow> bool" and astep :: "'a \<Rightarrow> 'a \<Rightarrow> bool" and rel :: "'c \<Rightarrow> 'a \<Rightarrow> bool"
  assumes matches: "cstep c c' \<Longrightarrow> rel c a \<Longrightarrow> \<exists>a'. astep\<^sup>*\<^sup>* a a' \<and> rel c' a'"
begin

lemma simulates: "cstep\<^sup>*\<^sup>* c c' \<Longrightarrow> rel c a \<Longrightarrow> \<exists>a'. astep\<^sup>*\<^sup>* a a' \<and> rel c' a'"
proof (induction rule: rtranclp_induct)
  case (step c' c'')
  then obtain a' where "astep\<^sup>*\<^sup>* a a'" "rel c' a'" by blast
  moreover obtain a'' where "astep\<^sup>*\<^sup>* a' a''" "rel c'' a''"
    using matches [OF step.hyps(2) \<open>rel c' a'\<close>] by blast
  ultimately show ?case by (meson rtranclp_trans)
qed blast

end

text \<open>A simulation of a machine with an invariant brings the invariant to the states that match.\<close>

locale simulated_invariant = simulation cstep astep rel + invariant_system start astep inv
  for cstep :: "'c \<Rightarrow> 'c \<Rightarrow> bool" and astep :: "'a \<Rightarrow> 'a \<Rightarrow> bool" and rel :: "'c \<Rightarrow> 'a \<Rightarrow> bool"
    and start :: "'a \<Rightarrow> bool" and inv :: "'a \<Rightarrow> bool"
begin

lemma transferred: "cstep\<^sup>*\<^sup>* c c' \<Longrightarrow> rel c a \<Longrightarrow> start a \<Longrightarrow> \<exists>a'. rel c' a' \<and> inv a'"
  using simulates reached by blast

end

end
