(* ===== verification/Thread_Pool.thy ===== *)
theory Thread_Pool
  imports Prelude Transition_System "HOL-Library.Multiset"
begin

text \<open>
  The worker pool: \<open>include/thread/ThreadPool.h\<close> and \<open>src/thread/ThreadPool.cpp\<close>.  The
  critical sections and the calls between them are the steps of a relation, so every
  interleaving of the threads is covered; the condition variable has sleepers, wake-ups that
  get no sleeper, and spurious wake-ups.  A task is a value of a type \<open>'t\<close>; what running
  it does is known to the pool only as an outcome.  The theory shows the bound on the queue,
  the order of the tasks, that no wake-up is lost, and that a stopped pool drains its queue
  and ends.
\<close>

section \<open>State\<close>

text \<open>
  Where a worker thread is in \<open>workerLoop\<close>: about to evaluate the wait predicate under the
  lock, blocked in the condition variable, running a task, or returned.
\<close>

datatype 't worker = Ready | Asleep | Running 't | Exited

record 't pool =
  maxQueueSize :: u64
  workers :: "'t worker list"
  tasks :: "'t list"
  stopping :: bool
  notify_one_due :: nat
  notify_all_due :: bool
  pool_log :: "log_entry list"

text \<open>How a task ends: it returns, throws a \<open>std::exception\<close>, or something else.\<close>

datatype outcome = Returned | Threw string | ThrewUnknown

section \<open>Operations\<close>

text \<open>\<open>max_size\<close> of the vector of threads, whose elements have eight bytes.\<close>

definition max_threads :: nat where
  "max_threads = 2 ^ 60 - 1"

text \<open>
  The constructor.  \<open>reserve\<close> throws for a count over the largest size of a vector of pointer-sized
  elements, which a negative \<open>worker.threads\<close> becomes as a \<open>size_t\<close>.  Creating thread \<open>i\<close> may throw, which the parameter \<open>spawn\<close> says; the
  threads created before are then told to stop and joined, and the exception goes on.
\<close>

definition new_pool :: "(nat \<Rightarrow> string option) \<Rightarrow> u64 \<Rightarrow> u64 \<Rightarrow> 't pool result" where
  "new_pool spawn threadCount maxQueue =
     ebind (throw_if (threadCount = 0)
       (InvalidArgument ''ThreadPool thread count must be greater than 0'')) (\<lambda>_.
     ebind (throw_if (maxQueue = 0)
       (InvalidArgument ''ThreadPool max queue size must be greater than 0'')) (\<lambda>_.
     ebind (throw_if (max_threads < unat threadCount) (LengthError ''vector::reserve'')) (\<lambda>_.
     case List.map_filter spawn [0..<unat threadCount] of
       msg # _ \<Rightarrow> Inl (RuntimeError msg)
     | [] \<Rightarrow> Inr \<lparr> maxQueueSize = maxQueue, workers = replicate (unat threadCount) Ready, tasks = [],
               stopping = False, notify_one_due = 0, notify_all_due = False, pool_log = [] \<rparr>)))"

text \<open>\<open>trySubmit\<close>: \<open>None\<close> is an empty \<open>std::function\<close>.  The notification is a later step.\<close>

definition trySubmit :: "'t option \<Rightarrow> 't pool \<Rightarrow> bool \<times> 't pool" where
  "trySubmit task p = (case task of
     None \<Rightarrow> (False, p)
   | Some t \<Rightarrow>
       if stopping p then (False, p)
       else if length (tasks p) \<ge> unat (maxQueueSize p) then (False, p)
       else (True, p\<lparr> tasks := tasks p @ [t], notify_one_due := Suc (notify_one_due p) \<rparr>))"

text \<open>The critical section of \<open>stop\<close>; a second call returns at once.\<close>

definition stop_begin :: "'t pool \<Rightarrow> 't pool" where
  "stop_begin p = (if stopping p then p else p\<lparr> stopping := True, notify_all_due := True \<rparr>)"

definition wake :: "'t worker \<Rightarrow> 't worker" where
  "wake w = (if w = Asleep then Ready else w)"

definition notify_all :: "'t pool \<Rightarrow> 't pool" where
  "notify_all p = p\<lparr> workers := map wake (workers p), notify_all_due := False \<rparr>"

text \<open>The joins of \<open>stop\<close> return once every worker has; then the threads are cleared.\<close>

definition stop_join :: "'t pool \<Rightarrow> 't pool option" where
  "stop_join p = (if stopping p \<and> \<not> notify_all_due p \<and> (\<forall>w \<in> set (workers p). w = Exited)
                  then Some (p\<lparr> workers := [] \<rparr>) else None)"

definition threadCount :: "'t pool \<Rightarrow> nat" where
  "threadCount p = length (workers p)"

definition queueSize :: "'t pool \<Rightarrow> nat" where
  "queueSize p = length (tasks p)"

text \<open>
  One turn of a worker at the top of the loop, holding the lock: it sleeps while the wait
  predicate is false, returns when stopping with an empty queue, and takes the front task
  otherwise.
\<close>

definition worker_turn :: "'t pool \<Rightarrow> 't worker \<times> 't list" where
  "worker_turn p =
     (if \<not> (stopping p \<or> tasks p \<noteq> []) then (Asleep, tasks p)
      else if stopping p \<and> tasks p = [] then (Exited, tasks p)
      else (Running (hd (tasks p)), tl (tasks p)))"

definition task_log :: "outcome \<Rightarrow> log_entry list" where
  "task_log out = (case out of
     Returned \<Rightarrow> []
   | Threw msg \<Rightarrow> [(Error, ''ThreadPool task exception: '' @ msg)]
   | ThrewUnknown \<Rightarrow> [(Error, ''ThreadPool task threw unknown exception'')])"

section \<open>Steps\<close>

datatype 't event =
    Submit "'t option" bool
  | NotifyOne
  | StopBegin
  | NotifyAll
  | StopJoin
  | Turn nat "'t worker"
  | Wake nat
  | Finish nat 't outcome

text \<open>
  \<open>NotifyOne\<close> wakes some sleeper, or is lost when there is none; \<open>Wake\<close> is a spurious
  wake-up.
\<close>

inductive pool_step :: "'t pool \<Rightarrow> 't event \<Rightarrow> 't pool \<Rightarrow> bool" where
  submit: "trySubmit task p = (ok, p') \<Longrightarrow> pool_step p (Submit task ok) p'"
| notify_sleeper: "notify_one_due p = Suc n \<Longrightarrow> i < length (workers p) \<Longrightarrow> workers p ! i = Asleep \<Longrightarrow>
    pool_step p NotifyOne (p\<lparr> workers := (workers p)[i := Ready], notify_one_due := n \<rparr>)"
| notify_nobody: "notify_one_due p = Suc n \<Longrightarrow> Asleep \<notin> set (workers p) \<Longrightarrow>
    pool_step p NotifyOne (p\<lparr> notify_one_due := n \<rparr>)"
| stop_begin: "pool_step p StopBegin (stop_begin p)"
| notify_all: "notify_all_due p \<Longrightarrow> pool_step p NotifyAll (notify_all p)"
| stop_join: "stop_join p = Some p' \<Longrightarrow> pool_step p StopJoin p'"
| turn: "i < length (workers p) \<Longrightarrow> workers p ! i = Ready \<Longrightarrow> worker_turn p = (w, ts) \<Longrightarrow>
    pool_step p (Turn i w) (p\<lparr> workers := (workers p)[i := w], tasks := ts \<rparr>)"
| spurious: "i < length (workers p) \<Longrightarrow> workers p ! i = Asleep \<Longrightarrow>
    pool_step p (Wake i) (p\<lparr> workers := (workers p)[i := Ready] \<rparr>)"
| finish: "i < length (workers p) \<Longrightarrow> workers p ! i = Running t \<Longrightarrow>
    pool_step p (Finish i t out)
      (p\<lparr> workers := (workers p)[i := Ready], pool_log := pool_log p @ task_log out \<rparr>)"

inductive_cases pool_stepE: "pool_step p e p'"

inductive pool_run :: "'t pool \<Rightarrow> 't event list \<Rightarrow> 't pool \<Rightarrow> bool" where
  nil: "pool_run p [] p"
| snoc: "pool_run p es p' \<Longrightarrow> pool_step p' e p'' \<Longrightarrow> pool_run p (es @ [e]) p''"

section \<open>The invariant\<close>

definition awake :: "'t worker \<Rightarrow> bool" where
  "awake w = (case w of Ready \<Rightarrow> True | Running t \<Rightarrow> True | _ \<Rightarrow> False)"

definition pool_ok :: "'t pool \<Rightarrow> bool" where
  "pool_ok p \<longleftrightarrow>
     length (tasks p) \<le> unat (maxQueueSize p) \<and>
     (Exited \<in> set (workers p) \<longrightarrow> stopping p \<and> tasks p = []) \<and>
     (workers p = [] \<longrightarrow> stopping p \<and> tasks p = []) \<and>
     (stopping p \<and> Asleep \<in> set (workers p) \<longrightarrow> notify_all_due p) \<and>
     (notify_all_due p \<longrightarrow> stopping p) \<and>
     (tasks p \<noteq> [] \<longrightarrow> notify_one_due p > 0 \<or> notify_all_due p \<or> (\<exists>w \<in> set (workers p). awake w))"

lemma set_upd_cases: "x \<in> set (xs[i := y]) \<Longrightarrow> x = y \<or> x \<in> set xs"
  by (metis insertE set_update_subset_insert subsetD)

lemma upd_mem: "i < length xs \<Longrightarrow> y \<in> set (xs[i := y])"
  by (rule set_update_memI)

lemma awake_simps [simp]:
  "awake Ready" "awake (Running t)" "\<not> awake Asleep" "\<not> awake Exited"
  by (simp_all add: awake_def)

lemma awake_wake: "w \<noteq> Exited \<Longrightarrow> awake (wake w)"
  by (cases w) (simp_all add: wake_def)

lemma pool_ok_new: "new_pool spawn n m = Inr p \<Longrightarrow> pool_ok p"
  by (auto simp: new_pool_def result_simps pool_ok_def unat_eq_zero split: list.splits)

lemma pool_ok_submit:
  assumes "pool_ok p" and "trySubmit task p = (ok, p')"
  shows "pool_ok p'"
  using assms by (auto simp: trySubmit_def pool_ok_def split: option.splits if_splits)

lemma pool_ok_turn:
  assumes ok: "pool_ok p" and i: "i < length (workers p)" "workers p ! i = Ready" and t: "worker_turn p = (w, ts)"
  shows "pool_ok (p\<lparr> workers := (workers p)[i := w], tasks := ts \<rparr>)"
proof -
  have ne: "workers p \<noteq> []" using i(1) by auto
  consider "w = Asleep" "ts = tasks p" "tasks p = []" "\<not> stopping p"
    | "w = Exited" "ts = tasks p" "tasks p = []" "stopping p"
    | t where "w = Running t" "tasks p = t # ts"
    using t by (cases "tasks p") (auto simp: worker_turn_def split: if_splits)
  then show ?thesis
  proof cases
    case 3
    then show ?thesis
      using ok i ne
      by (auto simp: pool_ok_def upd_mem dest!: set_upd_cases intro!: bexI [of _ w])
  qed (use ok ne in \<open>auto simp: pool_ok_def dest!: set_upd_cases\<close>)
qed

lemma pool_ok_ready:
  assumes ok: "pool_ok p" and i: "i < length (workers p)"
  shows "pool_ok (p\<lparr> workers := (workers p)[i := Ready], pool_log := l, notify_one_due := n \<rparr>)"
proof -
  have "\<exists>w \<in> set ((workers p)[i := Ready]). awake w" using upd_mem [OF i, of Ready] by force
  then show ?thesis using ok i by (auto simp: pool_ok_def dest!: set_upd_cases)
qed

lemma pool_ok_step: "pool_step p e p' \<Longrightarrow> pool_ok p \<Longrightarrow> pool_ok p'"
proof (induction rule: pool_step.induct)
  case (submit task p ok p')
  then show ?case by (blast intro: pool_ok_submit)
next
  case (notify_sleeper p n i)
  then show ?case using pool_ok_ready [of p i, where l = "pool_log p" and n = n] by simp
next
  case (notify_nobody p n)
  then have "tasks p \<noteq> [] \<Longrightarrow> \<exists>w \<in> set (workers p). awake w"
    by (cases "workers p") (auto simp: pool_ok_def awake_def split: worker.splits)
  with notify_nobody show ?case by (auto simp: pool_ok_def)
next
  case (stop_begin p)
  then show ?case by (auto simp: pool_ok_def stop_begin_def)
next
  case (notify_all p)
  have "\<exists>w \<in> set (map wake (workers p)). awake w" if "tasks p \<noteq> []"
    using notify_all that by (cases "workers p") (auto simp: pool_ok_def intro: awake_wake)
  moreover have "Asleep \<notin> wake ` set (workers p)" by (auto simp: wake_def split: if_splits)
  moreover have "Exited \<in> wake ` set (workers p) \<Longrightarrow> Exited \<in> set (workers p)"
    by (auto simp: wake_def split: if_splits)
  ultimately show ?case using notify_all by (auto simp: pool_ok_def notify_all_def)
next
  case (stop_join p p')
  then show ?case by (cases "workers p") (auto simp: pool_ok_def stop_join_def split: if_splits)
next
  case (turn i p w ts)
  then show ?case by (blast intro: pool_ok_turn)
next
  case (spurious i p)
  then show ?case using pool_ok_ready [of p i, where l = "pool_log p" and n = "notify_one_due p"] by simp
next
  case (finish i p t out)
  then show ?case using pool_ok_ready [of p i, where l = "pool_log p @ task_log out" and n = "notify_one_due p"] by simp
qed

interpretation pool: invariant_system
  "\<lambda>p. \<exists>spawn n limit. new_pool spawn n limit = Inr p" "\<lambda>p p'. \<exists>e. pool_step p e p'" pool_ok
  using pool_ok_new pool_ok_step by unfold_locales blast+

lemma pool_run_steps: "pool_run p es p' \<Longrightarrow> (\<lambda>p p'. \<exists>e. pool_step p e p')\<^sup>*\<^sup>* p p'"
proof (induction rule: pool_run.induct)
  case (snoc p es p' e p'')
  from snoc.IH snoc.hyps(2) show ?case by (blast intro: rtranclp.rtrancl_into_rtrancl)
qed simp

lemma pool_ok_run: "pool_run p es p' \<Longrightarrow> pool_ok p \<Longrightarrow> pool_ok p'"
  using pool_run_steps pool.kept by blast

section \<open>Order of the tasks\<close>

definition accepted :: "'t event list \<Rightarrow> 't list" where
  "accepted es = List.map_filter (\<lambda>e. case e of Submit (Some t) True \<Rightarrow> Some t | _ \<Rightarrow> None) es"

definition started :: "'t event list \<Rightarrow> 't list" where
  "started es = List.map_filter (\<lambda>e. case e of Turn i (Running t) \<Rightarrow> Some t | _ \<Rightarrow> None) es"

definition finished :: "'t event list \<Rightarrow> 't list" where
  "finished es = List.map_filter (\<lambda>e. case e of Finish i t out \<Rightarrow> Some t | _ \<Rightarrow> None) es"

definition running :: "'t pool \<Rightarrow> 't list" where
  "running p = List.map_filter (\<lambda>w. case w of Running t \<Rightarrow> Some t | _ \<Rightarrow> None) (workers p)"

lemma running_upd:
  assumes "i < length ws"
  defines "r w \<equiv> (case w of Running t \<Rightarrow> Some t | _ \<Rightarrow> None)"
  shows "mset (List.map_filter r (ws[i := w])) + mset (case r (ws ! i) of None \<Rightarrow> [] | Some t \<Rightarrow> [t]) =
         mset (List.map_filter r ws) + mset (case r w of None \<Rightarrow> [] | Some t \<Rightarrow> [t])"
proof -
  have ws: "ws = take i ws @ ws ! i # drop (Suc i) ws" using assms(1) by (rule id_take_nth_drop)
  have upd: "ws[i := w] = take i ws @ w # drop (Suc i) ws" using assms(1) by (rule upd_conv_take_nth_drop)
  have "mset (List.map_filter r ws) = mset (List.map_filter r (take i ws)) +
      mset (case r (ws ! i) of None \<Rightarrow> [] | Some t \<Rightarrow> [t]) + mset (List.map_filter r (drop (Suc i) ws))"
    by (subst ws) (simp add: map_filter_simps split: option.split)
  moreover have "mset (List.map_filter r (ws[i := w])) = mset (List.map_filter r (take i ws)) +
      mset (case r w of None \<Rightarrow> [] | Some t \<Rightarrow> [t]) + mset (List.map_filter r (drop (Suc i) ws))"
    by (subst upd) (simp add: map_filter_simps split: option.split)
  ultimately show ?thesis by (simp only: ac_simps)
qed

lemma trace_simps [simp]:
  "accepted [] = []" "started [] = []" "finished [] = []"
  "accepted (es @ [e]) = accepted es @ accepted [e]"
  "started (es @ [e]) = started es @ started [e]"
  "finished (es @ [e]) = finished es @ finished [e]"
  by (simp_all add: accepted_def started_def finished_def map_filter_simps)

lemma trace_one [simp]:
  "accepted [Submit task ok] = (case task of None \<Rightarrow> [] | Some t \<Rightarrow> if ok then [t] else [])"
  "accepted [NotifyOne] = []" "accepted [StopBegin] = []" "accepted [NotifyAll] = []" "accepted [StopJoin] = []"
  "accepted [Turn i w] = []" "accepted [Wake i] = []" "accepted [Finish i t out] = []"
  "started [Turn i w] = (case w of Running t \<Rightarrow> [t] | _ \<Rightarrow> [])"
  "started [Submit task ok] = []" "started [NotifyOne] = []" "started [StopBegin] = []" "started [NotifyAll] = []"
  "started [StopJoin] = []" "started [Wake i] = []" "started [Finish i t out] = []"
  "finished [Finish i t out] = [t]" "finished [Turn i w] = []"
  "finished [Submit task ok] = []" "finished [NotifyOne] = []" "finished [StopBegin] = []" "finished [NotifyAll] = []"
  "finished [StopJoin] = []" "finished [Wake i] = []"
  by (auto simp: accepted_def started_def finished_def map_filter_simps split: option.split worker.split)

text \<open>What a step does to the queue and to the running tasks.\<close>

lemma step_order:
  "pool_step p e p' \<Longrightarrow> tasks p @ accepted [e] = started [e] @ tasks p'"
  by (induction rule: pool_step.induct)
     (auto simp: trySubmit_def stop_begin_def notify_all_def stop_join_def worker_turn_def
        split: option.splits if_splits worker.splits)

lemma running_wake: "List.map_filter (\<lambda>w. case w of Running t \<Rightarrow> Some t | _ \<Rightarrow> None) (map wake ws) =
    List.map_filter (\<lambda>w. case w of Running t \<Rightarrow> Some t | _ \<Rightarrow> None) ws"
  by (induction ws) (auto simp: map_filter_simps wake_def split: worker.splits)

lemma running_exited: "\<forall>w \<in> set ws. w = Exited \<Longrightarrow>
    List.map_filter (\<lambda>w. case w of Running t \<Rightarrow> Some t | _ \<Rightarrow> None) ws = []"
  by (induction ws) (auto simp: map_filter_simps)

lemma step_running:
  "pool_step p e p' \<Longrightarrow>
     mset (running p) + mset (started [e]) = mset (finished [e]) + mset (running p')"
proof (induction rule: pool_step.induct)
  case (notify_sleeper p n i)
  then show ?case using running_upd [of i "workers p" Ready] by (simp add: running_def)
next
  case (turn i p w ts)
  then show ?case using running_upd [of i "workers p" w]
    by (auto simp: running_def split: worker.split)
next
  case (spurious i p)
  then show ?case using running_upd [of i "workers p" Ready] by (simp add: running_def)
next
  case (finish i p t out)
  then show ?case using running_upd [of i "workers p" Ready] by (simp add: running_def)
qed (auto simp: running_def trySubmit_def stop_begin_def notify_all_def stop_join_def running_wake running_exited
        map_filter_simps split: option.splits if_splits)

lemma run_order:
  "pool_run p es p' \<Longrightarrow> tasks p @ accepted es = started es @ tasks p' \<and>
     mset (running p) + mset (started es) = mset (finished es) + mset (running p')"
proof (induction rule: pool_run.induct)
  case (snoc p es p' e p'')
  note order = step_order [OF snoc(2)] and mult = step_running [OF snoc(2)]
  have "tasks p @ accepted (es @ [e]) = (tasks p @ accepted es) @ accepted [e]" by (simp del: trace_one)
  also have "\<dots> = started es @ tasks p' @ accepted [e]" using snoc.IH by (simp del: trace_one)
  also have "\<dots> = started (es @ [e]) @ tasks p''" using order by (simp del: trace_one)
  finally have 1: "tasks p @ accepted (es @ [e]) = started (es @ [e]) @ tasks p''" .
  have "mset (running p) + mset (started (es @ [e])) = (mset (running p) + mset (started es)) + mset (started [e])"
    by (simp add: ac_simps del: trace_one)
  also have "\<dots> = mset (finished es) + (mset (running p') + mset (started [e]))"
    using snoc.IH by (simp add: ac_simps del: trace_one)
  also have "\<dots> = mset (finished (es @ [e])) + mset (running p'')"
    using mult by (simp add: ac_simps del: trace_one)
  finally show ?case using 1 by blast
qed simp

lemma pool_new_empty: "new_pool spawn n m = Inr p \<Longrightarrow> tasks p = [] \<and> running p = [] \<and> workers p \<noteq> []"
proof -
  assume "new_pool spawn n m = Inr p"
  moreover have "List.map_filter (\<lambda>w. case w of Running t \<Rightarrow> Some t | _ \<Rightarrow> None) (replicate k Ready) = []" for k
    by (induction k) (simp_all add: map_filter_simps)
  ultimately show ?thesis
    by (auto simp: new_pool_def result_simps running_def unat_eq_zero split: list.splits)
qed

lemma step_max: "pool_step p e p' \<Longrightarrow> maxQueueSize p' = maxQueueSize p"
  by (induction rule: pool_step.induct)
     (auto simp: trySubmit_def stop_begin_def notify_all_def stop_join_def split: option.splits if_splits)

lemma run_max: "pool_run p es p' \<Longrightarrow> maxQueueSize p' = maxQueueSize p"
  by (induction rule: pool_run.induct) (auto dest: step_max)

text \<open>
  C12: in every run of a new pool the queue stays within its bound, and the tasks are started
  in the order in which they were accepted: those started, followed by those queued, are the
  accepted ones, and those started are the finished and the running ones.
\<close>

theorem pool_fifo_bounded:
  assumes "new_pool spawn n limit = Inr p0" and "pool_run p0 es p"
  shows "queueSize p \<le> unat limit \<and> accepted es = started es @ tasks p \<and>
         mset (started es) = mset (finished es) + mset (running p)"
proof -
  have "maxQueueSize p0 = limit" using assms(1) by (auto simp: new_pool_def result_simps split: list.splits)
  with pool_ok_run [OF assms(2) pool_ok_new [OF assms(1)]] run_max [OF assms(2)]
    run_order [OF assms(2)] pool_new_empty [OF assms(1)]
  show ?thesis by (simp add: pool_ok_def queueSize_def)
qed

definition tiny_pool :: "nat pool" where
  "tiny_pool = \<lparr> maxQueueSize = 2, workers = [Ready], tasks = [], stopping = False,
     notify_one_due = 0, notify_all_due = False, pool_log = [] \<rparr>"

lemma tiny_pool_new: "new_pool (\<lambda>_. None) 1 2 = Inr tiny_pool"
  by (simp add: new_pool_def max_threads_def tiny_pool_def map_filter_simps)

lemma tiny_run:
  "pool_run tiny_pool [Submit (Some 7) True, Turn 0 (Running 7)]
     (tiny_pool\<lparr> workers := [Running 7], notify_one_due := 1 \<rparr>)"
proof -
  let ?p1 = "tiny_pool\<lparr> tasks := [7], notify_one_due := 1 \<rparr>"
  have 1: "pool_step tiny_pool (Submit (Some 7) True) ?p1"
    by (rule pool_step.submit) (simp add: trySubmit_def tiny_pool_def)
  have "pool_step ?p1 (Turn 0 (Running 7)) (?p1\<lparr> workers := (workers ?p1)[0 := Running 7], tasks := [] \<rparr>)"
    by (rule pool_step.turn) (simp_all add: tiny_pool_def worker_turn_def)
  then have 2: "pool_step ?p1 (Turn 0 (Running 7)) (tiny_pool\<lparr> workers := [Running 7], notify_one_due := 1 \<rparr>)"
    by (simp add: tiny_pool_def)
  show ?thesis using pool_run.snoc [OF pool_run.snoc [OF pool_run.nil 1] 2] by simp
qed

theorem pool_fifo_bounded_witness:
  "accepted [Submit (Some (7 :: nat)) True, Turn 0 (Running 7)] =
   started [Submit (Some 7) True, Turn 0 (Running 7)]"
  using pool_fifo_bounded [OF tiny_pool_new tiny_run] by (simp add: tiny_pool_def)

section \<open>Stopping\<close>

lemma join_idle: "pool_ok p \<Longrightarrow> stop_join p = Some p' \<Longrightarrow> tasks p = [] \<and> running p = []"
  by (cases "workers p") (auto simp: pool_ok_def stop_join_def running_def running_exited split: if_splits)

text \<open>
  C14: when the joins of a stop return, every task that was ever accepted has been run to its
  end exactly once, also those that were queued when the stop began.
\<close>

theorem pool_stop_runs_all:
  assumes "new_pool spawn n limit = Inr p0" and "pool_run p0 es p" and "stop_join p = Some p'"
  shows "mset (finished es) = mset (accepted es)"
  using run_order [OF assms(2)] pool_new_empty [OF assms(1)]
    join_idle [OF pool_ok_run [OF assms(2) pool_ok_new [OF assms(1)]] assms(3)]
  by simp

lemma tiny_stop_run:
  "pool_run tiny_pool [Submit (Some 7) True, Turn 0 (Running 7), StopBegin, Finish 0 7 Returned, NotifyAll, Turn 0 Exited]
     (tiny_pool\<lparr> workers := [Exited], notify_one_due := 1, stopping := True \<rparr>)"
proof -
  let ?p2 = "tiny_pool\<lparr> workers := [Running 7], notify_one_due := 1 \<rparr>"
  let ?p3 = "?p2\<lparr> stopping := True, notify_all_due := True \<rparr>"
  have 3: "pool_step ?p2 StopBegin ?p3"
    using pool_step.stop_begin [of ?p2] by (simp add: stop_begin_def tiny_pool_def)
  have 4: "pool_step ?p3 (Finish 0 7 Returned) (?p3\<lparr> workers := [Ready] \<rparr>)"
    using pool_step.finish [of 0 ?p3 7 Returned] by (simp add: tiny_pool_def task_log_def)
  have 5: "pool_step (?p3\<lparr> workers := [Ready] \<rparr>) NotifyAll (?p3\<lparr> workers := [Ready], notify_all_due := False \<rparr>)"
    using pool_step.notify_all [of "?p3\<lparr> workers := [Ready] \<rparr>"] by (simp add: notify_all_def tiny_pool_def wake_def)
  have 6: "pool_step (?p3\<lparr> workers := [Ready], notify_all_due := False \<rparr>) (Turn 0 Exited)
      (tiny_pool\<lparr> workers := [Exited], notify_one_due := 1, stopping := True \<rparr>)"
    using pool_step.turn [of 0 "?p3\<lparr> workers := [Ready], notify_all_due := False \<rparr>" Exited "[]"]
    by (simp add: worker_turn_def tiny_pool_def)
  show ?thesis
    using pool_run.snoc [OF pool_run.snoc [OF pool_run.snoc [OF pool_run.snoc [OF tiny_run 3] 4] 5] 6] by simp
qed

theorem pool_stop_runs_all_witness:
  "mset (finished [Submit (Some (7 :: nat)) True, Turn 0 (Running 7), StopBegin, Finish 0 7 Returned, NotifyAll, Turn 0 Exited])
   = {#7#}"
  using pool_stop_runs_all [OF tiny_pool_new tiny_stop_run]
  by (simp add: stop_join_def tiny_pool_def accepted_def map_filter_simps)

section \<open>Progress\<close>

text \<open>The steps of the pool's own threads, spurious wake-ups apart.\<close>

definition pool_internal :: "'t event \<Rightarrow> bool" where
  "pool_internal e = (case e of NotifyOne \<Rightarrow> True | NotifyAll \<Rightarrow> True | Turn i w \<Rightarrow> True | Finish i t out \<Rightarrow> True | _ \<Rightarrow> False)"

definition worker_cost :: "'t worker \<Rightarrow> nat" where
  "worker_cost w = (case w of Ready \<Rightarrow> 1 | Asleep \<Rightarrow> 2 | Running t \<Rightarrow> 2 | Exited \<Rightarrow> 0)"

definition pool_cost :: "'t pool \<Rightarrow> nat" where
  "pool_cost p = 2 * length (tasks p) + sum_list (map worker_cost (workers p)) + notify_one_due p +
     (if notify_all_due p then 1 else 0)"

lemma notify_enabled:
  "notify_one_due p \<noteq> 0 \<Longrightarrow> \<exists>p'. pool_step p NotifyOne p'"
  by (metis in_set_conv_nth not0_implies_Suc notify_nobody notify_sleeper)

lemma awake_enabled:
  assumes "w \<in> set (workers p)" and "awake w"
  shows "\<exists>e p'. pool_internal e \<and> pool_step p e p'"
proof -
  obtain i where i: "i < length (workers p)" "workers p ! i = w" using assms(1) by (auto simp: in_set_conv_nth)
  show ?thesis
  proof (cases w)
    case Ready
    obtain w' ts where "worker_turn p = (w', ts)" by (cases "worker_turn p")
    with i Ready have "pool_step p (Turn i w') (p\<lparr> workers := (workers p)[i := w'], tasks := ts \<rparr>)"
      by (auto intro: pool_step.turn)
    moreover have "pool_internal (Turn i w')" by (simp add: pool_internal_def)
    ultimately show ?thesis by blast
  next
    case (Running t)
    with i have "pool_step p (Finish i t Returned)
        (p\<lparr> workers := (workers p)[i := Ready], pool_log := pool_log p @ task_log Returned \<rparr>)"
      by (auto intro: pool_step.finish)
    moreover have "pool_internal (Finish i t Returned)" by (simp add: pool_internal_def)
    ultimately show ?thesis by blast
  qed (use assms(2) in simp_all)
qed

lemma pool_enabled:
  assumes ok: "pool_ok p" and busy: "tasks p \<noteq> [] \<or> stopping p \<and> (\<exists>w \<in> set (workers p). w \<noteq> Exited)"
  shows "\<exists>e p'. pool_internal e \<and> pool_step p e p'"
proof -
  have awake_iff: "awake w \<longleftrightarrow> w \<noteq> Asleep \<and> w \<noteq> Exited" for w :: "'a worker"
    by (cases w) simp_all
  have "\<exists>w \<in> set (workers p). awake w" if "notify_one_due p = 0" "\<not> notify_all_due p"
    using ok busy that unfolding pool_ok_def awake_iff by (metis gr_implies_not0)
  then consider "notify_one_due p \<noteq> 0" | "notify_all_due p" | w where "w \<in> set (workers p)" "awake w"
    by blast
  then show ?thesis
  proof cases
    case 1
    then obtain p' where "pool_step p NotifyOne p'" using notify_enabled by blast
    then show ?thesis by (auto simp: pool_internal_def intro!: exI [of _ NotifyOne])
  next
    case 2
    then have "pool_step p NotifyAll (notify_all p)" by (rule pool_step.notify_all)
    then show ?thesis by (auto simp: pool_internal_def intro!: exI [of _ NotifyAll])
  next
    case 3
    then show ?thesis by (rule awake_enabled)
  qed
qed

lemma cost_upd:
  assumes "i < length ws"
  shows "sum_list (map worker_cost (ws[i := w])) + worker_cost (ws ! i) = sum_list (map worker_cost ws) + worker_cost w"
proof -
  have "worker_cost (ws ! i) \<le> sum_list (map worker_cost ws)"
    using assms by (intro member_le_sum_list) auto
  then show ?thesis using assms by (simp add: map_update sum_list_update)
qed

lemma cost_wake: "sum_list (map worker_cost (map wake ws)) \<le> sum_list (map worker_cost ws)"
proof -
  have "worker_cost (wake w) \<le> worker_cost w" for w :: "'a worker"
    by (simp add: wake_def worker_cost_def)
  then show ?thesis by (simp add: comp_def sum_list_mono)
qed

lemma internal_cost:
  "pool_step p e p' \<Longrightarrow> stopping p \<Longrightarrow> pool_internal e \<or> (\<exists>i. e = Wake i) \<Longrightarrow> pool_cost p' < pool_cost p \<and> stopping p'"
proof (induction rule: pool_step.induct)
  case (notify_sleeper p n i)
  then show ?case using cost_upd [of i "workers p" Ready] by (simp add: pool_cost_def worker_cost_def)
next
  case (notify_all p)
  then show ?case using cost_wake [of "workers p"] by (simp add: pool_cost_def notify_all_def)
next
  case (turn i p w ts)
  then show ?case using cost_upd [of i "workers p" w]
    by (cases "tasks p") (auto simp: pool_cost_def worker_turn_def worker_cost_def split: if_splits)
next
  case (spurious i p)
  then show ?case using cost_upd [of i "workers p" Ready] by (simp add: pool_cost_def worker_cost_def)
next
  case (finish i p t out)
  then show ?case using cost_upd [of i "workers p" Ready] by (simp add: pool_cost_def worker_cost_def)
qed (auto simp: pool_cost_def pool_internal_def)

text \<open>
  C13: no wake-up is lost.  Whenever a task is queued, or a stop is under way and a worker has
  not returned, some thread of the pool can make a step without a spurious wake-up.
\<close>

theorem pool_no_lost_wakeup:
  assumes "new_pool spawn n limit = Inr p0" and "pool_run p0 es p"
    and "tasks p \<noteq> [] \<or> stopping p \<and> (\<exists>w \<in> set (workers p). w \<noteq> Exited)"
  shows "\<exists>e p'. pool_internal e \<and> pool_step p e p'"
  using pool_ok_run [OF assms(2) pool_ok_new [OF assms(1)]] assms(3) by (rule pool_enabled)

theorem pool_no_lost_wakeup_witness:
  "\<exists>e p'. pool_internal e \<and> pool_step (tiny_pool\<lparr> tasks := [7], notify_one_due := 1 \<rparr>) e p'"
proof -
  have "pool_step tiny_pool (Submit (Some 7) True) (tiny_pool\<lparr> tasks := [7], notify_one_due := 1 \<rparr>)"
    by (rule pool_step.submit) (simp add: trySubmit_def tiny_pool_def)
  from pool_no_lost_wakeup [OF tiny_pool_new pool_run.snoc [OF pool_run.nil this]] show ?thesis by simp
qed

lemma pool_run_Cons: "pool_run p1 es p2 \<Longrightarrow> pool_step p e p1 \<Longrightarrow> pool_run p (e # es) p2"
proof (induction rule: pool_run.induct)
  case (nil p1)
  then show ?case using pool_run.snoc [OF pool_run.nil, of p e p1] by simp
next
  case (snoc p1 es p' e' p'')
  then show ?case using pool_run.snoc [of p "e # es" p' e' p''] by simp
qed

lemma internal_run_cost:
  "pool_run p es p' \<Longrightarrow> stopping p \<Longrightarrow> list_all (\<lambda>e. pool_internal e \<or> (\<exists>i. e = Wake i)) es \<Longrightarrow>
     length es + pool_cost p' \<le> pool_cost p \<and> stopping p'"
  by (induction rule: pool_run.induct) (auto dest!: internal_cost)

lemma stop_not_joined:
  assumes "pool_ok p" and "stopping p" and "stop_join p = None"
  shows "\<exists>e p'. pool_internal e \<and> pool_step p e p'"
proof (cases "notify_all_due p")
  case True
  then have "pool_step p NotifyAll (notify_all p)" by (rule pool_step.notify_all)
  then show ?thesis by (auto simp: pool_internal_def intro!: exI [of _ NotifyAll])
next
  case False
  then have "\<exists>w \<in> set (workers p). w \<noteq> Exited" using assms(2,3) by (auto simp: stop_join_def split: if_splits)
  then show ?thesis using pool_enabled assms(1,2) by blast
qed

lemma drain_run:
  "pool_ok p \<Longrightarrow> stopping p \<Longrightarrow> \<exists>es p'. pool_run p es p' \<and> list_all pool_internal es \<and> stop_join p' \<noteq> None"
proof (induction "pool_cost p" arbitrary: p rule: less_induct)
  case less
  show ?case
  proof (cases "stop_join p")
    case (Some q)
    then show ?thesis using pool_run.nil [of p] by (intro exI [of _ "[]"] exI [of _ p]) simp
  next
    case None
    then obtain e p1 where e: "pool_internal e" and p1: "pool_step p e p1"
      using stop_not_joined less.prems by blast
    from internal_cost [OF p1 less.prems(2)] e have "pool_cost p1 < pool_cost p" "stopping p1" by auto
    with less.hyps pool_ok_step [OF p1 less.prems(1)]
    obtain es p' where "pool_run p1 es p'" "list_all pool_internal es" "stop_join p' \<noteq> None" by blast
    with pool_run_Cons [OF _ p1] e show ?thesis by (intro exI [of _ "e # es"] exI [of _ p']) simp
  qed
qed

text \<open>
  C15: once a stop has begun, the pool's own threads, spurious wake-ups included, can make
  only boundedly many steps, and they reach the state in which every join returns; a running
  task is assumed to end.
\<close>

theorem pool_stop_terminates:
  assumes "new_pool spawn n limit = Inr p0" and "pool_run p0 es p" and "stopping p"
  shows "(\<forall>es' p'. pool_run p es' p' \<and> list_all (\<lambda>e. pool_internal e \<or> (\<exists>i. e = Wake i)) es' \<longrightarrow>
            length es' \<le> pool_cost p) \<and>
         (\<exists>es' p'. pool_run p es' p' \<and> list_all pool_internal es' \<and> stop_join p' \<noteq> None)"
  using internal_run_cost [of p _ _] assms(3)
    drain_run [OF pool_ok_run [OF assms(2) pool_ok_new [OF assms(1)]] assms(3)]
  by fastforce

theorem pool_stop_terminates_witness:
  "\<exists>es' p'. pool_run (stop_begin tiny_pool) es' p' \<and> list_all pool_internal es' \<and> stop_join p' \<noteq> None"
  using pool_stop_terminates [OF tiny_pool_new pool_run.snoc [OF pool_run.nil pool_step.stop_begin]]
  by (simp add: stop_begin_def)

end
