(* ===== verification/Channel.thy ===== *)
theory Channel
  imports Prelude
begin

text \<open>
  The event dispatcher of one file descriptor: \<open>include/reactor/Channel.h\<close> and
  \<open>src/reactor/Channel.cpp\<close>.  A callback is a function on a state \<open>'s\<close> that may end in
  a memory error.  The object that owns the channel may be destroyed by a callback, and a
  predicate on the state says whether the channel still exists: \<open>handleEvent\<close> reads a member
  of the channel before each callback, which is an error once it does not.
\<close>

unbundle bit_operations_syntax

datatype mem_error = UseAfterFree

type_synonym 's callback = "'s \<Rightarrow> mem_error + 's"

record 's channel =
  ch_fd :: int
  ch_events :: u32
  ch_readCallback :: "'s callback option"
  ch_closeCallback :: "'s callback option"
  ch_errorCallback :: "'s callback option"

section \<open>Event masks\<close>

definition EPOLLIN :: u32 where "EPOLLIN = 0x001"
definition EPOLLERR :: u32 where "EPOLLERR = 0x008"
definition EPOLLHUP :: u32 where "EPOLLHUP = 0x010"
definition EPOLLRDHUP :: u32 where "EPOLLRDHUP = 0x2000"

lemmas epoll_masks = EPOLLIN_def EPOLLERR_def EPOLLHUP_def EPOLLRDHUP_def

section \<open>Operations\<close>

definition new_channel :: "int \<Rightarrow> 's channel result" where
  "new_channel fd =
     (if fd < 0 then Inl (InvalidArgument ''Channel fd must be valid'')
      else Inr \<lparr> ch_fd = fd, ch_events = 0, ch_readCallback = None, ch_closeCallback = None,
                 ch_errorCallback = None \<rparr>)"

definition setEvents :: "u32 \<Rightarrow> 's channel \<Rightarrow> 's channel" where
  "setEvents events ch = ch\<lparr> ch_events := events \<rparr>"

definition setReadCallback :: "'s callback option \<Rightarrow> 's channel \<Rightarrow> 's channel" where
  "setReadCallback cb ch = ch\<lparr> ch_readCallback := cb \<rparr>"

definition setCloseCallback :: "'s callback option \<Rightarrow> 's channel \<Rightarrow> 's channel" where
  "setCloseCallback cb ch = ch\<lparr> ch_closeCallback := cb \<rparr>"

definition setErrorCallback :: "'s callback option \<Rightarrow> 's channel \<Rightarrow> 's channel" where
  "setErrorCallback cb ch = ch\<lparr> ch_errorCallback := cb \<rparr>"

text \<open>\<open>if (callback_) callback_();\<close> on a channel that may be gone.\<close>

definition call_member :: "('s \<Rightarrow> bool) \<Rightarrow> 's callback option \<Rightarrow> 's callback" where
  "call_member alive cb s =
     (if \<not> alive s then Inl UseAfterFree else case cb of None \<Rightarrow> Inr s | Some f \<Rightarrow> f s)"

definition handleEvent :: "('s \<Rightarrow> bool) \<Rightarrow> 's channel \<Rightarrow> u32 \<Rightarrow> 's callback" where
  "handleEvent alive ch revents s =
     ebind (if revents AND EPOLLERR \<noteq> 0 then call_member alive (ch_errorCallback ch) s else Inr s) (\<lambda>s.
     ebind (if revents AND EPOLLIN \<noteq> 0 then call_member alive (ch_readCallback ch) s else Inr s) (\<lambda>s.
     if revents AND (EPOLLHUP OR EPOLLRDHUP) \<noteq> 0 then call_member alive (ch_closeCallback ch) s else Inr s))"

lemma new_channel_Inr: "new_channel fd = Inr ch \<Longrightarrow> 0 \<le> fd \<and> ch_fd ch = fd"
  by (auto simp: new_channel_def split: if_splits)

text \<open>
  A property that every callback keeps, on states that imply the channel exists, is kept by
  the dispatch, which then has no memory error.
\<close>

lemma handleEvent_inv:
  assumes "\<And>s. I s \<Longrightarrow> alive s" and "I s"
    and "\<And>cb s. cb \<in> {ch_readCallback ch, ch_closeCallback ch, ch_errorCallback ch} \<Longrightarrow> I s \<Longrightarrow>
           cb = None \<or> (\<exists>f s'. cb = Some f \<and> f s = Inr s' \<and> I s')"
  shows "\<exists>s'. handleEvent alive ch revents s = Inr s' \<and> I s'"
proof -
  have call: "\<exists>s'. call_member alive cb s = Inr s' \<and> I s'"
    if "cb \<in> {ch_readCallback ch, ch_closeCallback ch, ch_errorCallback ch}" "I s" for cb s
    using assms(1) [OF that(2)] assms(3) [OF that] that(2) by (auto simp: call_member_def)
  define first where "first = (if revents AND EPOLLERR \<noteq> 0 then call_member alive (ch_errorCallback ch) s else Inr s)"
  have "\<exists>s1. first = Inr s1 \<and> I s1" using call [of "ch_errorCallback ch" s] assms(2) by (simp add: first_def)
  then obtain s1 where s1: "first = Inr s1" "I s1" by blast
  define second where "second = (if revents AND EPOLLIN \<noteq> 0 then call_member alive (ch_readCallback ch) s1 else Inr s1)"
  have "\<exists>s2. second = Inr s2 \<and> I s2" using call [of "ch_readCallback ch" s1] s1 by (simp add: second_def)
  then obtain s2 where s2: "second = Inr s2" "I s2" by blast
  have "\<exists>s'. (if revents AND (EPOLLHUP OR EPOLLRDHUP) \<noteq> 0 then call_member alive (ch_closeCallback ch) s2 else Inr s2)
      = Inr s' \<and> I s'"
    using call [of "ch_closeCallback ch" s2] s2 by auto
  then show ?thesis
    unfolding handleEvent_def first_def [symmetric] by (simp add: s1 s2 second_def [symmetric])
qed

end
