(* ===== verification/Frame_Codec.thy ===== *)
theory Frame_Codec
  imports Prelude
begin

text \<open>
  The length-prefixed framing of the agent's TCP stream: \<open>include/protocol/FrameCodec.h\<close> and
  \<open>src/protocol/FrameCodec.cpp\<close>.  A frame is a 4-byte length in network order followed by
  the payload.  The theory models the memory image of a \<open>uint32_t\<close> on the little-endian
  hosts the program runs on, \<open>htonl\<close>/\<open>ntohl\<close> as byte swaps, \<open>encode\<close> and
  \<open>tryDecode\<close>; it shows that the header is the big-endian length, that decoding inverts
  encoding in front of any further bytes, and the laws of the \<open>framing\<close> interface a
  reader of the stream relies on.
\<close>

unbundle bit_operations_syntax

section \<open>Words in memory and in network order\<close>

definition mem_of_u32 :: "u32 \<Rightarrow> string" where
  "mem_of_u32 w = map (\<lambda>i. char_of (unat (drop_bit (8 * i) w))) [0, 1, 2, 3]"

definition byte_u32 :: "char \<Rightarrow> u32" where
  "byte_u32 c = word_of_nat (of_char c)"

fun u32_of_mem :: "string \<Rightarrow> u32" where
  "u32_of_mem (a # b # c # d # _) =
     byte_u32 a OR push_bit 8 (byte_u32 b) OR push_bit 16 (byte_u32 c) OR push_bit 24 (byte_u32 d)"
| "u32_of_mem _ = 0"

definition htonl :: "u32 \<Rightarrow> u32" where
  "htonl x = push_bit 24 (take_bit 8 x) OR push_bit 16 (take_bit 8 (drop_bit 8 x))
           OR push_bit 8 (take_bit 8 (drop_bit 16 x)) OR take_bit 8 (drop_bit 24 x)"

definition ntohl :: "u32 \<Rightarrow> u32" where
  "ntohl x = htonl x"

section \<open>FrameCodec\<close>

definition HEADER_SIZE :: nat where "HEADER_SIZE = 4"

definition MAX_FRAME_SIZE :: u32 where "MAX_FRAME_SIZE = 1024 * 1024"

definition encode :: "string \<Rightarrow> string result" where
  "encode payload =
     (if length payload > unat MAX_FRAME_SIZE
      then Inl (LengthError ''Frame payload exceeds maximum size'')
      else let payloadLength = word_of_nat (length payload) :: u32;
               networkLength = htonl payloadLength
           in Inr (mem_of_u32 networkLength @ payload))"

text \<open>
  \<open>tryDecode\<close> returns the new contents of \<open>buffer\<close> and \<open>Some payload\<close> for \<open>true\<close>,
  \<open>None\<close> for \<open>false\<close>; an exception leaves the buffer as it was.
\<close>

definition tryDecode :: "string \<Rightarrow> (string \<times> string option) result" where
  "tryDecode buffer =
     (if length buffer < HEADER_SIZE then Inr (buffer, None)
      else let networkLength = u32_of_mem (take HEADER_SIZE buffer);
               payloadLength = ntohl networkLength
           in if payloadLength > MAX_FRAME_SIZE
              then Inl (RuntimeError ''Received frame exceeds maximum size'')
              else let completeFrameSize = HEADER_SIZE + unat payloadLength
                   in if length buffer < completeFrameSize then Inr (buffer, None)
                      else Inr (drop completeFrameSize buffer,
                                Some (take (unat payloadLength) (drop HEADER_SIZE buffer))))"

lemma length_mem_of_u32 [simp]: "length (mem_of_u32 w) = HEADER_SIZE"
  by (simp add: mem_of_u32_def HEADER_SIZE_def)

lemma unat_MAX_FRAME_SIZE [simp]: "unat MAX_FRAME_SIZE = 1048576"
  by (simp add: MAX_FRAME_SIZE_def)

lemma byte_u32_char_of: "byte_u32 (char_of (unat w)) = take_bit 8 (w :: u32)"
proof -
  have "(of_char (char_of (unat w) :: char) :: nat) = take_bit 8 (unat w)"
    by (simp add: take_bit_eq_mod)
  then show ?thesis
    by (simp add: byte_u32_def word_of_nat_eq_iff flip: unsigned_take_bit_eq)
qed

lemma u32_of_mem_mem [simp]: "u32_of_mem (mem_of_u32 w @ rest) = w"
proof -
  have "u32_of_mem (mem_of_u32 w @ rest) =
      take_bit 8 w OR push_bit 8 (take_bit 8 (drop_bit 8 w))
      OR push_bit 16 (take_bit 8 (drop_bit 16 w)) OR push_bit 24 (take_bit 8 (drop_bit 24 w))"
    by (simp add: mem_of_u32_def byte_u32_char_of)
  also have "\<dots> = w"
  proof (rule bit_word_eqI)
    fix n assume "n < LENGTH(32)"
    then consider "n < 8" | "8 \<le> n" "n < 16" | "16 \<le> n" "n < 24" | "24 \<le> n" "n < 32"
      by fastforce
    then show "bit (take_bit 8 w OR push_bit 8 (take_bit 8 (drop_bit 8 w))
        OR push_bit 16 (take_bit 8 (drop_bit 16 w)) OR push_bit 24 (take_bit 8 (drop_bit 24 w))) n
      = bit w n"
      by cases (auto simp: bit_simps)
  qed
  finally show ?thesis .
qed

text \<open>The byte swap, bit by bit: byte \<open>i\<close> of the result is byte \<open>3 - i\<close> of the argument.\<close>

lemma bit_htonl:
  "n < 8 \<Longrightarrow> bit (htonl w) n = bit w (n + 24)"
  "8 \<le> n \<Longrightarrow> n < 16 \<Longrightarrow> bit (htonl w) n = bit w (n + 8)"
  "16 \<le> n \<Longrightarrow> n < 24 \<Longrightarrow> bit (htonl w) n = bit w (n - 8)"
  "24 \<le> n \<Longrightarrow> n < 32 \<Longrightarrow> bit (htonl w) n = bit w (n - 24)"
  unfolding htonl_def by (auto simp: bit_simps add.commute)

lemma htonl_htonl [simp]: "htonl (htonl w) = w"
proof (rule bit_word_eqI)
  fix n assume "n < LENGTH(32)"
  then consider "n < 8" | "8 \<le> n" "n < 16" | "16 \<le> n" "n < 24" | "24 \<le> n" "n < 32"
    by fastforce
  then show "bit (htonl (htonl w)) n = bit w n"
    by cases (simp_all add: bit_htonl)
qed

section \<open>Encoding and decoding\<close>

lemma ntohl_header [simp]:
  "ntohl (u32_of_mem (mem_of_u32 (htonl w))) = w"
  using u32_of_mem_mem [of "htonl w" "[]"] by (simp add: ntohl_def)

text \<open>The bytes of the header, most significant first.\<close>

lemma mem_htonl:
  "mem_of_u32 (htonl w) = map (\<lambda>i. char_of (unat (drop_bit (8 * i) w))) [3, 2, 1, 0]"
proof -
  have byte: "(char_of (unat (a :: u32)) :: char) = char_of (unat b)" if "take_bit 8 a = take_bit 8 b" for a b
  proof -
    have "unat a mod 256 = unat b mod 256"
      using arg_cong [OF that, of unat] by (simp add: take_bit_eq_mod unat_mod_distrib)
    then show ?thesis by (metis char_of_mod_256)
  qed
  have "take_bit 8 (drop_bit (8 * i) (htonl w)) = take_bit 8 (drop_bit (8 * (3 - i)) w)" if "i \<le> 3" for i
  proof (rule bit_word_eqI)
    fix n assume "n < LENGTH(32)"
    from that consider "i = 0" | "i = 1" | "i = 2" | "i = 3" by linarith
    then show "bit (take_bit 8 (drop_bit (8 * i) (htonl w))) n = bit (take_bit 8 (drop_bit (8 * (3 - i)) w)) n"
      by cases (auto simp: bit_simps bit_htonl add.commute)
  qed
  note t = this [THEN byte]
  from t [of 0] t [of 1] t [of 2] t [of 3] show ?thesis by (simp add: mem_of_u32_def)
qed

lemma four_bytes:
  assumes "n < 4294967296"
  shows "n div 16777216 mod 256 * 16777216 + n div 65536 mod 256 * 65536 + n div 256 mod 256 * 256 + n mod 256 = (n :: nat)"
proof -
  have "n = 256 * (n div 256) + n mod 256"
    and "n div 256 = 256 * (n div 65536) + n div 256 mod 256"
    and "n div 65536 = 256 * (n div 16777216) + n div 65536 mod 256"
    using mult_div_mod_eq [of 256 n] mult_div_mod_eq [of 256 "n div 256"] mult_div_mod_eq [of 256 "n div 65536"]
    by (simp_all flip: div_mult2_eq)
  moreover have "n div 16777216 mod 256 = n div 16777216" using assms by simp
  ultimately show ?thesis by linarith
qed

definition big_endian :: "string \<Rightarrow> nat" where
  "big_endian bytes = foldl (\<lambda>n c. 256 * n + of_char c) 0 bytes"

lemma big_endian_mem: "big_endian (mem_of_u32 (htonl v)) = unat v"
proof -
  have "unat v < 4294967296" using unsigned_less [of v] by simp
  moreover have "mem_of_u32 (htonl v) = map (\<lambda>i. char_of (unat v div i)) [16777216, 65536, 256, 1]"
    by (simp add: mem_htonl drop_bit_eq_div unat_div_distrib)
  ultimately show ?thesis using four_bytes [of "unat v"] by (simp add: big_endian_def)
qed

lemma of_char_less: "(of_char c :: nat) < 256"
  by (metis mod_less_divisor of_char_mod_256 zero_less_numeral)

lemma unat_byte_u32: "unat (byte_u32 c) = of_char c"
proof -
  have "(of_char c :: nat) < 4294967296" using of_char_less [of c] by linarith
  then show ?thesis by (simp add: byte_u32_def unat_of_nat)
qed

lemma take_bit_byte [simp]: "take_bit 8 (byte_u32 c) = byte_u32 c"
  using of_char_less [of c]
  by (simp add: word_unat_eq_iff take_bit_eq_mod unat_mod_distrib unat_byte_u32)

lemma bit_byte_u32: "8 \<le> n \<Longrightarrow> \<not> bit (byte_u32 c) n"
  by (metis bit_take_bit_iff not_le take_bit_byte)

lemma mem_of_u32_of_mem: "mem_of_u32 (u32_of_mem [a, b, c, d]) = [a, b, c, d]"
proof -
  have char: "take_bit 8 w = byte_u32 x \<Longrightarrow> char_of (unat w) = x" for w :: u32 and x
    by (metis byte_u32_char_of char_of_char unat_byte_u32)
  define w where "w = u32_of_mem [a, b, c, d]"
  have "take_bit 8 (drop_bit 0 w) = byte_u32 a" "take_bit 8 (drop_bit 8 w) = byte_u32 b"
    "take_bit 8 (drop_bit 16 w) = byte_u32 c" "take_bit 8 (drop_bit 24 w) = byte_u32 d"
    unfolding w_def
    by (rule bit_word_eqI; auto simp: bit_simps bit_byte_u32 dest: bit_byte_u32 [THEN notE, rotated])+
  from this [THEN char] show ?thesis by (simp only: mem_of_u32_def w_def [symmetric] list.map mult_0_right) simp
qed

lemma unat_ntohl: "length bytes = HEADER_SIZE \<Longrightarrow> unat (ntohl (u32_of_mem bytes)) = big_endian bytes"
proof -
  assume "length bytes = HEADER_SIZE"
  then obtain a b c d where bytes: "bytes = [a, b, c, d]"
    by (auto simp: HEADER_SIZE_def numeral_eq_Suc length_Suc_conv)
  have "big_endian (mem_of_u32 (htonl (ntohl (u32_of_mem bytes)))) = unat (ntohl (u32_of_mem bytes))"
    by (rule big_endian_mem)
  then show ?thesis by (simp add: ntohl_def bytes mem_of_u32_of_mem del: u32_of_mem.simps)
qed

lemma encode_Inr_iff:
  "encode p = Inr f \<longleftrightarrow>
     length p \<le> unat MAX_FRAME_SIZE \<and> f = mem_of_u32 (htonl (word_of_nat (length p))) @ p"
  by (auto simp: encode_def Let_def)

lemma unat_payload_length:
  "n \<le> unat MAX_FRAME_SIZE \<Longrightarrow> unat (word_of_nat n :: u32) = n"
  by (simp add: unat_of_nat)

lemma payload_length_le:
  "n \<le> unat MAX_FRAME_SIZE \<Longrightarrow> \<not> MAX_FRAME_SIZE < (word_of_nat n :: u32)"
  using unat_payload_length [of n] by (simp add: word_less_nat_alt)

lemma length_encode: "encode p = Inr f \<Longrightarrow> length f = HEADER_SIZE + length p"
  by (simp add: encode_Inr_iff)

lemma tryDecode_encode:
  assumes "encode p = Inr f"
  shows "tryDecode (f @ rest) = Inr (rest, Some p)"
proof -
  from assms have len: "length p \<le> unat MAX_FRAME_SIZE"
    and f: "f = mem_of_u32 (htonl (word_of_nat (length p))) @ p"
    by (simp_all add: encode_Inr_iff)
  show ?thesis
    using len unat_payload_length [OF len] payload_length_le [OF len]
    by (simp add: tryDecode_def f Let_def HEADER_SIZE_def [symmetric])
qed

text \<open>Less than a whole frame is neither consumed nor an error.\<close>

lemma tryDecode_partial:
  assumes enc: "encode p = Inr (part @ more)" and more: "more \<noteq> []"
  shows "tryDecode part = Inr (part, None)"
proof (cases "length part < HEADER_SIZE")
  case True
  then show ?thesis by (simp add: tryDecode_def)
next
  case False
  define hdr where "hdr = mem_of_u32 (htonl (word_of_nat (length p)))"
  from enc have len: "length p \<le> unat MAX_FRAME_SIZE" and eq: "part @ more = hdr @ p"
    by (simp_all add: encode_Inr_iff hdr_def)
  from False eq have "take HEADER_SIZE part = take HEADER_SIZE (hdr @ p)"
    by (metis not_less take_append diff_is_0_eq take0 append_Nil2)
  then have "take HEADER_SIZE part = hdr"
    by (simp add: hdr_def)
  then have hd: "ntohl (u32_of_mem (take HEADER_SIZE part)) = word_of_nat (length p)"
    by (simp only: hdr_def ntohl_header)
  have "length part + length more = HEADER_SIZE + length p"
    using arg_cong [OF eq, of length] by (simp add: hdr_def)
  with more have "length part < HEADER_SIZE + length p"
    by (cases more) auto
  with False len show ?thesis
    using hd unat_payload_length [OF len] payload_length_le [OF len]
    by (simp add: tryDecode_def Let_def)
qed

text \<open>
  What a successful call removes from the buffer is exactly a header and the payload it
  returned; a call that returns \<open>false\<close> leaves the buffer alone.
\<close>

lemma tryDecode_Some:
  assumes "tryDecode buf = Inr (rest, Some p)"
  shows "\<exists>hdr. length hdr = HEADER_SIZE \<and> buf = hdr @ p @ rest
           \<and> ntohl (u32_of_mem hdr) = word_of_nat (length p) \<and> length p \<le> unat MAX_FRAME_SIZE"
proof -
  define n where "n = ntohl (u32_of_mem (take HEADER_SIZE buf))"
  from assms have len: "HEADER_SIZE + unat n \<le> length buf" and n: "\<not> n > MAX_FRAME_SIZE"
    and p: "p = take (unat n) (drop HEADER_SIZE buf)"
    and rest: "rest = drop (HEADER_SIZE + unat n) buf"
    by (auto simp: tryDecode_def n_def Let_def split: if_splits)
  have lp: "length p = unat n" using len by (simp add: p)
  have "buf = take HEADER_SIZE buf @ p @ rest"
    unfolding p rest by (metis append_take_drop_id drop_drop add.commute)
  moreover have "unat n \<le> unat MAX_FRAME_SIZE" using n by (simp only: word_less_nat_alt not_less)
  ultimately show ?thesis
    using len lp by (intro exI [of _ "take HEADER_SIZE buf"]) (simp add: n_def)
qed

lemma tryDecode_None: "tryDecode buf = Inr (rest, None) \<Longrightarrow> rest = buf"
  by (auto simp: tryDecode_def Let_def split: if_splits)

lemma tryDecode_Some_shorter: "tryDecode buf = Inr (rest, Some p) \<Longrightarrow> length rest < length buf"
  by (drule tryDecode_Some) (auto simp: HEADER_SIZE_def)

text \<open>
  A payload of at most 1 MiB is framed as its length in four bytes, most significant
  first, and the payload; a longer one is refused.
\<close>

theorem encode_big_endian:
  "if length p \<le> 1048576
   then \<exists>hdr. encode p = Inr (hdr @ p) \<and> length hdr = HEADER_SIZE \<and> big_endian hdr = length p
   else encode p = Inl (LengthError ''Frame payload exceeds maximum size'')"
  using unat_payload_length [of "length p"] by (simp add: encode_def big_endian_mem)

lemma tryDecode_eq:
  "tryDecode buffer =
     (let n = big_endian (take HEADER_SIZE buffer)
      in if length buffer < HEADER_SIZE then Inr (buffer, None)
         else if n > 1048576 then Inl (RuntimeError ''Received frame exceeds maximum size'')
         else if length buffer < HEADER_SIZE + n then Inr (buffer, None)
         else Inr (drop (HEADER_SIZE + n) buffer, Some (take n (drop HEADER_SIZE buffer))))"
  using unat_ntohl [of "take HEADER_SIZE buffer"]
  by (auto simp: tryDecode_def Let_def word_less_nat_alt)

text \<open>
  What a call of \<open>tryDecode\<close> does, on any buffer: it waits for the header, rejects a
  declared length over 1 MiB, waits for the payload, and otherwise takes one frame off.
\<close>

theorem tryDecode_cases:
  "tryDecode buffer =
     (let n = big_endian (take HEADER_SIZE buffer)
      in if length buffer < HEADER_SIZE then Inr (buffer, None)
         else if n > 1048576 then Inl (RuntimeError ''Received frame exceeds maximum size'')
         else if length buffer < HEADER_SIZE + n then Inr (buffer, None)
         else Inr (drop (HEADER_SIZE + n) buffer, Some (take n (drop HEADER_SIZE buffer))))"
  by (rule tryDecode_eq)

text \<open>Further bytes change neither a decoded frame nor an error.\<close>

lemma tryDecode_more:
  "tryDecode buf = Inr (rest, Some p) \<Longrightarrow> tryDecode (buf @ c) = Inr (rest @ c, Some p)"
  by (auto simp: tryDecode_def Let_def split: if_splits)

lemma tryDecode_error_more: "tryDecode buf = Inl e \<Longrightarrow> tryDecode (buf @ c) = Inl e"
  by (auto simp: tryDecode_def Let_def split: if_splits)

lemma tryDecode_Nil: "tryDecode [] = Inr ([], None)"
  by (simp add: tryDecode_def HEADER_SIZE_def)

section \<open>The framing interface\<close>

text \<open>
  What a reader of a byte stream needs of a framing: a frame in front of any bytes decodes
  to its payload and those bytes, a proper prefix of a frame decodes to nothing yet, more
  bytes do not change what has been decoded, and every decoded frame shortens the buffer.
  \<open>drains dec buf ps rest\<close> says that a loop which calls the decoder until it returns nothing
  takes the payloads \<open>ps\<close> off \<open>buf\<close> and leaves \<open>rest\<close>.
\<close>

inductive drains :: "(string \<Rightarrow> 'e + (string \<times> string option)) \<Rightarrow> string \<Rightarrow> string list \<Rightarrow> string \<Rightarrow> bool"
  for dec where
  drains_done: "dec buf = Inr (rest, None) \<Longrightarrow> drains dec buf [] rest"
| drains_next: "dec buf = Inr (mid, Some p) \<Longrightarrow> drains dec mid ps rest \<Longrightarrow> drains dec buf (p # ps) rest"

inductive_cases drainsE: "drains dec buf ps rest"

lemma drains_unique: "drains dec buf ps rest \<Longrightarrow> drains dec buf ps' rest' \<Longrightarrow> ps' = ps \<and> rest' = rest"
proof (induction arbitrary: ps' rest' rule: drains.induct)
  case (drains_done buf rest)
  then show ?case by (auto elim: drainsE)
next
  case (drains_next buf mid p ps rest)
  from drains_next.prems show ?case
  proof (cases rule: drains.cases)
    case drains_done
    with drains_next.hyps(1) show ?thesis by simp
  next
    case (drains_next mid' p' ps'')
    with \<open>dec buf = Inr (mid, Some p)\<close> drains_next.IH [of ps'' rest'] show ?thesis by simp
  qed
qed

locale framing =
  fixes enc :: "string \<Rightarrow> 'e + string"
    and dec :: "string \<Rightarrow> 'e + (string \<times> string option)"
  assumes dec_enc: "enc p = Inr f \<Longrightarrow> dec (f @ rest) = Inr (rest, Some p)"
    and dec_part: "enc p = Inr (part @ more) \<Longrightarrow> more \<noteq> [] \<Longrightarrow> dec part = Inr (part, None)"
    and dec_more: "dec buf = Inr (rest, Some p) \<Longrightarrow> dec (buf @ c) = Inr (rest @ c, Some p)"
    and dec_error_more: "dec buf = Inl e \<Longrightarrow> dec (buf @ c) = Inl e"
    and dec_shorter: "dec buf = Inr (rest, Some p) \<Longrightarrow> length rest < length buf"
    and dec_keeps: "dec buf = Inr (rest, None) \<Longrightarrow> rest = buf"
    and dec_nil: "dec [] = Inr ([], None)"
begin

lemma enc_nonempty: "enc p \<noteq> Inr []"
  using dec_enc [of p "[]" "[]"] dec_nil by auto

lemma enc_prefix_free:
  assumes "enc p = Inr f" and "enc q = Inr g" and "f @ a = g @ b"
  shows "p = q \<and> f = g \<and> a = b"
proof -
  from dec_enc [OF assms(1), of a] dec_enc [OF assms(2), of b] assms(3)
  have "p = q" "a = b" by simp_all
  with assms show ?thesis by auto
qed

text \<open>A stream of whole frames, and what is left when it ends inside a frame.\<close>

lemma drains_frames:
  assumes "list_all2 (\<lambda>p f. enc p = Inr f) ps fs" and "drains dec part [] part"
  shows "drains dec (concat fs @ part) ps part"
  using assms by (induction rule: list_all2_induct) (auto intro: drains.drains_next dec_enc)

lemma drains_part: "enc p = Inr (part @ more) \<Longrightarrow> more \<noteq> [] \<Longrightarrow> drains dec part [] part"
  by (intro drains.drains_done dec_part)

lemma drains_nil: "drains dec [] [] []"
  by (intro drains.drains_done dec_nil)

text \<open>Where the stream is cut does not matter.\<close>

lemma drains_cut:
  "drains dec (a @ c) ps rest \<Longrightarrow>
     \<exists>ps1 mid ps2. drains dec a ps1 mid \<and> drains dec (mid @ c) ps2 rest \<and> ps = ps1 @ ps2"
proof (induction "length a" arbitrary: a ps rule: less_induct)
  case less
  show ?case
  proof (cases "dec a")
    case (Inl e)
    then have "dec (a @ c) = Inl e" by (rule dec_error_more)
    with less.prems show ?thesis by (auto elim: drainsE)
  next
    case (Inr r)
    obtain mid p where r: "r = (mid, p)" by (cases r)
    show ?thesis
    proof (cases p)
      case None
      then have "mid = a" using Inr r dec_keeps by simp
      then have "drains dec a [] a" using Inr r None by (auto intro: drains.drains_done)
      with less.prems show ?thesis by fastforce
    next
      case (Some q)
      have a: "dec a = Inr (mid, Some q)" using Inr r Some by simp
      from dec_more [OF a, of c] less.prems obtain ps' where ps: "ps = q # ps'"
        and tail: "drains dec (mid @ c) ps' rest" by (auto elim: drainsE)
      from less.hyps [OF dec_shorter [OF a] tail] obtain ps1 mid' ps2
        where "drains dec mid ps1 mid'" "drains dec (mid' @ c) ps2 rest" "ps' = ps1 @ ps2" by blast
      with a ps show ?thesis by (metis append_Cons drains.drains_next)
    qed
  qed
qed

end

interpretation fc: framing encode tryDecode
proof unfold_locales
  show "tryDecode [] = Inr ([], None)" by (rule tryDecode_Nil)
qed (auto intro: tryDecode_encode tryDecode_partial tryDecode_Some_shorter tryDecode_more tryDecode_error_more
      dest: tryDecode_None)

end
