(* ===== verification/Tcp_Connection.thy ===== *)
theory Tcp_Connection
  imports Channel Frame_Codec Num_Text
begin

text \<open>
  One agent's connection on the server: \<open>include/network/TcpConnection.h\<close> and
  \<open>src/network/TcpConnection.cpp\<close>.  The results of \<open>recv\<close> during one event are a
  parameter, as is what the owner's close callback does with the connection; the frames come
  from the \<open>framing\<close> interface.  The theory shows that the messages delivered are the frames
  of the stream however it is cut into reads, that an owner which defers the destruction
  never sees a memory error, and that one which destroys the connection in the callback, as
  the server does, does.
\<close>

section \<open>State\<close>

text \<open>
  What the registered close callback does: the server's erases the connection, and so runs
  its destructor; one that only notes the request keeps it.
\<close>

datatype close_callback = Erases | Defers

record tcp_connection =
  tc_fd :: int
  tc_clientName :: string
  tc_pendingData :: string
  tc_messageCallback :: bool
  tc_closeCallback :: "close_callback option"
  tc_closing :: bool
  tc_alive :: bool
  tc_delivered :: "(string \<times> string) list"
  tc_closeRequests :: "int list"
  tc_closedFds :: "int list"
  tc_log :: "log_entry list"

definition BUFFER_SIZE :: nat where "BUFFER_SIZE = 4096"

text \<open>
  The constructor; the constructor of the channel throws for a negative descriptor, and
  \<open>add\<close> is what \<open>EventLoop::addChannel\<close> throws, if anything.
\<close>

definition new_connection :: "cxx_exn option \<Rightarrow> int \<Rightarrow> string \<Rightarrow> tcp_connection result" where
  "new_connection add fd clientName =
     ebind (new_channel fd :: unit channel result) (\<lambda>_.
     case add of
       Some e \<Rightarrow> Inl e
     | None \<Rightarrow> Inr \<lparr> tc_fd = fd, tc_clientName = clientName, tc_pendingData = [], tc_messageCallback = False,
                     tc_closeCallback = None, tc_closing = False, tc_alive = True, tc_delivered = [],
                     tc_closeRequests = [], tc_closedFds = [], tc_log = [] \<rparr>)"

definition connection_setMessageCallback :: "tcp_connection \<Rightarrow> tcp_connection" where
  "connection_setMessageCallback c = c\<lparr> tc_messageCallback := True \<rparr>"

definition connection_setCloseCallback :: "close_callback \<Rightarrow> tcp_connection \<Rightarrow> tcp_connection" where
  "connection_setCloseCallback cb c = c\<lparr> tc_closeCallback := Some cb \<rparr>"

text \<open>The destructor: the channel leaves the loop and the descriptor is closed.\<close>

definition destroy_connection :: "tcp_connection \<Rightarrow> tcp_connection" where
  "destroy_connection c = c\<lparr> tc_alive := False, tc_fd := -1,
     tc_closedFds := (if tc_fd c \<ge> 0 then tc_closedFds c @ [tc_fd c] else tc_closedFds c) \<rparr>"

definition add_log :: "log_level \<Rightarrow> string \<Rightarrow> tcp_connection \<Rightarrow> tcp_connection" where
  "add_log level msg c = c\<lparr> tc_log := tc_log c @ [(level, msg)] \<rparr>"

section \<open>Operations\<close>

definition requestClose :: "tcp_connection \<Rightarrow> tcp_connection" where
  "requestClose c =
     (if tc_closing c then c
      else let c = c\<lparr> tc_closing := True \<rparr>
           in case tc_closeCallback c of
                Some cb \<Rightarrow>
                  let c = c\<lparr> tc_closeRequests := tc_closeRequests c @ [tc_fd c] \<rparr>
                  in (case cb of Erases \<Rightarrow> destroy_connection c | Defers \<Rightarrow> c)
              | None \<Rightarrow> add_log Warning
                  (''TcpConnection close requested without close callback: '' @ tc_clientName c) c)"

definition deliver :: "string \<Rightarrow> tcp_connection \<Rightarrow> tcp_connection" where
  "deliver message c =
     (if tc_messageCallback c then c\<lparr> tc_delivered := tc_delivered c @ [(tc_clientName c, message)] \<rparr> else c)"

function processPendingData :: "tcp_connection \<Rightarrow> tcp_connection" where
  "processPendingData c =
     (case tryDecode (tc_pendingData c) of
        Inr (rest, None) \<Rightarrow> c\<lparr> tc_pendingData := rest \<rparr>
      | Inl e \<Rightarrow> requestClose (add_log Error (''Invalid frame from '' @ tc_clientName c @ '': '' @ what e) c)
      | Inr (rest, Some message) \<Rightarrow> processPendingData (deliver message (c\<lparr> tc_pendingData := rest \<rparr>)))"
  by pat_completeness auto
termination
  by (relation "measure (\<lambda>c. length (tc_pendingData c))") (auto simp: deliver_def dest: tryDecode_Some_shorter)

declare processPendingData.simps [simp del]

text \<open>
  What \<open>recv\<close> returned: data of at most \<open>BUFFER_SIZE\<close> bytes, the end of the stream, or
  an error by its \<open>errno\<close>.  The list of one event ends where the call would block.
\<close>

datatype recv_result = Received string | RecvEof | RecvEintr | RecvEagain | RecvError

fun recv_loop :: "recv_result list \<Rightarrow> tcp_connection callback" where
  "recv_loop [] c = (if \<not> tc_alive c then Inl UseAfterFree else Inr c)"
| "recv_loop (r # rs) c =
     (if \<not> tc_alive c then Inl UseAfterFree
      else case r of
        Received buffer \<Rightarrow> recv_loop rs (processPendingData (c\<lparr> tc_pendingData := tc_pendingData c @ buffer \<rparr>))
      | RecvEof \<Rightarrow> Inr (requestClose c)
      | RecvEintr \<Rightarrow> recv_loop rs c
      | RecvEagain \<Rightarrow> Inr c
      | RecvError \<Rightarrow> Inr (requestClose (add_log Error
          (''recv failed from '' @ tc_clientName c @ '', fd='' @ dec_int (tc_fd c)) c)))"

definition handleRead :: "recv_result list \<Rightarrow> tcp_connection callback" where
  "handleRead rs c = (if tc_closing c then Inr c else recv_loop rs c)"

definition handleClose :: "tcp_connection callback" where
  "handleClose c = Inr (requestClose c)"

definition handleError :: "tcp_connection callback" where
  "handleError c =
     (if tc_closing c then Inr c
      else Inr (requestClose (add_log Error
        (''Socket error from '' @ tc_clientName c @ '', fd='' @ dec_int (tc_fd c)) c)))"

text \<open>
  The channel the constructor sets up, with the results \<open>recv\<close> will return in this event,
  and the dispatch of one event to it.
\<close>

definition connection_channel :: "recv_result list \<Rightarrow> int \<Rightarrow> tcp_connection channel result" where
  "connection_channel rs fd =
     map_sum id (\<lambda>ch. setErrorCallback (Some handleError) (setCloseCallback (Some handleClose)
       (setReadCallback (Some (handleRead rs)) (setEvents (EPOLLIN OR EPOLLRDHUP) ch)))) (new_channel fd)"

definition connection_event :: "u32 \<Rightarrow> recv_result list \<Rightarrow> tcp_connection callback" where
  "connection_event revents rs c =
     (case connection_channel rs (tc_fd c) of
        Inl _ \<Rightarrow> Inl UseAfterFree
      | Inr ch \<Rightarrow> handleEvent tc_alive ch revents c)"

section \<open>Frames\<close>

lemma processPendingData_drains:
  assumes "drains tryDecode buf ps rest" and "tc_messageCallback c"
  shows "processPendingData (c\<lparr> tc_pendingData := buf \<rparr>) =
         c\<lparr> tc_pendingData := rest, tc_delivered := tc_delivered c @ map (Pair (tc_clientName c)) ps \<rparr>"
  using assms
proof (induction arbitrary: c rule: drains.induct)
  case (drains_done buf rest)
  then show ?case by (subst processPendingData.simps) simp
next
  case (drains_next buf mid p ps rest)
  define c1 where "c1 = deliver p c"
  have c1: "tc_messageCallback c1" "tc_clientName c1 = tc_clientName c"
      "tc_delivered c1 = tc_delivered c @ [(tc_clientName c, p)]"
    using drains_next.prems by (simp_all add: c1_def deliver_def)
  have "processPendingData (c\<lparr> tc_pendingData := buf \<rparr>) = processPendingData (c1\<lparr> tc_pendingData := mid \<rparr>)"
    using drains_next.hyps(1) by (subst processPendingData.simps, cases c) (simp add: c1_def deliver_def)
  also have "\<dots> = c1\<lparr> tc_pendingData := rest, tc_delivered := tc_delivered c1 @ map (Pair (tc_clientName c1)) ps \<rparr>"
    using c1(1) by (rule drains_next.IH)
  also have "\<dots> = c\<lparr> tc_pendingData := rest, tc_delivered := tc_delivered c @ map (Pair (tc_clientName c)) (p # ps) \<rparr>"
    unfolding c1 using drains_next.prems by (simp add: c1_def deliver_def)
  finally show ?case .
qed

text \<open>An open connection between two events: live, with a message callback.\<close>

definition open_connection :: "tcp_connection \<Rightarrow> bool" where
  "open_connection c \<longleftrightarrow> tc_alive c \<and> \<not> tc_closing c \<and> tc_messageCallback c"

lemma recv_loop_drains:
  assumes "drains tryDecode (tc_pendingData c @ concat chunks) ps rest" and "open_connection c"
    and "drains tryDecode (tc_pendingData c) [] (tc_pendingData c)"
  shows "recv_loop (map Received chunks @ rs) c =
         recv_loop rs (c\<lparr> tc_pendingData := rest, tc_delivered := tc_delivered c @ map (Pair (tc_clientName c)) ps \<rparr>)"
  using assms
proof (induction chunks arbitrary: c ps)
  case Nil
  then have "ps = [] \<and> rest = tc_pendingData c" using drains_unique by fastforce
  then show ?case by simp
next
  case (Cons chunk chunks)
  from Cons.prems(1) fc.drains_cut [of "tc_pendingData c @ chunk" "concat chunks" ps rest]
  obtain ps1 mid ps2 where mid: "drains tryDecode (tc_pendingData c @ chunk) ps1 mid"
    and tail: "drains tryDecode (mid @ concat chunks) ps2 rest" and ps: "ps = ps1 @ ps2" by auto
  define c1 where "c1 = c\<lparr> tc_pendingData := mid, tc_delivered := tc_delivered c @ map (Pair (tc_clientName c)) ps1 \<rparr>"
  have step: "recv_loop (map Received (chunk # chunks) @ rs) c = recv_loop (map Received chunks @ rs) c1"
    using processPendingData_drains [OF mid, of c] Cons.prems(2)
    by (simp add: open_connection_def c1_def)
  have settled: "drains tryDecode b ps' r \<Longrightarrow> drains tryDecode r [] r" for b ps' r
    by (induction rule: drains.induct) (auto intro: drains.drains_done dest: tryDecode_None)
  have "recv_loop (map Received chunks @ rs) c1 =
      recv_loop rs (c1\<lparr> tc_pendingData := rest, tc_delivered := tc_delivered c1 @ map (Pair (tc_clientName c1)) ps2 \<rparr>)"
    using tail Cons.prems(2) settled [OF mid] by (intro Cons.IH) (simp_all add: c1_def open_connection_def)
  then show ?case unfolding step by (simp add: c1_def ps)
qed

text \<open>
  C9: a stream of frames is delivered message by message, in order, however its bytes are
  cut into reads; what stays in the buffer is the beginning of the next frame.
\<close>

theorem connection_delivers_stream:
  assumes "list_all2 (\<lambda>p f. encode p = Inr f) payloads frames"
    and "encode next_payload = Inr (part @ missing)" and "missing \<noteq> []"
    and "tc_pendingData c @ concat chunks = concat frames @ part"
    and "open_connection c" and "tryDecode (tc_pendingData c) = Inr (tc_pendingData c, None)"
  shows "handleRead (map Received chunks @ [RecvEagain]) c =
         Inr (c\<lparr> tc_pendingData := part,
                 tc_delivered := tc_delivered c @ map (Pair (tc_clientName c)) payloads \<rparr>)"
proof -
  have "drains tryDecode (tc_pendingData c @ concat chunks) payloads part"
    using fc.drains_frames [OF assms(1) fc.drains_part [OF assms(2,3)]] by (simp add: assms(4))
  from recv_loop_drains [OF this assms(5) drains.drains_done [where dec = tryDecode, OF assms(6)], of "[RecvEagain]"] assms(5)
  show ?thesis by (simp add: handleRead_def open_connection_def)
qed

definition demo_connection :: tcp_connection where
  "demo_connection = \<lparr> tc_fd = 7, tc_clientName = ''10.0.0.2:40000'', tc_pendingData = [],
     tc_messageCallback = True, tc_closeCallback = Some Erases, tc_closing = False, tc_alive = True,
     tc_delivered = [], tc_closeRequests = [], tc_closedFds = [], tc_log = [] \<rparr>"

text \<open>The frames of \<open>hi\<close> and \<open>x\<close> and half a header, in three reads.\<close>

theorem connection_delivers_stream_witness:
  "handleRead (map Received [[CHR 0x00, CHR 0x00, CHR 0x00], [CHR 0x02, CHR ''h'', CHR ''i'', CHR 0x00],
       [CHR 0x00, CHR 0x00, CHR 0x01, CHR ''x'', CHR 0x00, CHR 0x00]] @ [RecvEagain]) demo_connection =
   Inr (demo_connection\<lparr> tc_pendingData := [CHR 0x00, CHR 0x00],
     tc_delivered := [(''10.0.0.2:40000'', ''hi''), (''10.0.0.2:40000'', ''x'')] \<rparr>)"
proof -
  have frames: "encode ''hi'' = Inr ([CHR 0x00, CHR 0x00, CHR 0x00, CHR 0x02] @ ''hi'')"
    "encode ''x'' = Inr ([CHR 0x00, CHR 0x00, CHR 0x00, CHR 0x01] @ ''x'')"
    "encode [] = Inr ([CHR 0x00, CHR 0x00] @ [CHR 0x00, CHR 0x00])"
    by (simp_all add: encode_Inr_iff mem_htonl char_of_def bit_0)
  show ?thesis
    using connection_delivers_stream [of "[''hi'', ''x'']" "[[CHR 0x00, CHR 0x00, CHR 0x00, CHR 0x02] @ ''hi'',
        [CHR 0x00, CHR 0x00, CHR 0x00, CHR 0x01] @ ''x'']" "[]" "[CHR 0x00, CHR 0x00]" "[CHR 0x00, CHR 0x00]"
        demo_connection "[[CHR 0x00, CHR 0x00, CHR 0x00], [CHR 0x02, CHR ''h'', CHR ''i'', CHR 0x00],
       [CHR 0x00, CHR 0x00, CHR 0x01, CHR ''x'', CHR 0x00, CHR 0x00]]"] frames
    by (simp add: demo_connection_def open_connection_def tryDecode_Nil)
qed

section \<open>Destruction\<close>

text \<open>
  A connection whose owner defers the destruction: it lives as long as its descriptor is
  open, and asks for its close at most once, when it begins to close.
\<close>

definition deferred_ok :: "tcp_connection \<Rightarrow> bool" where
  "deferred_ok c \<longleftrightarrow> tc_alive c \<and> 0 \<le> tc_fd c \<and> tc_closeCallback c = Some Defers \<and> tc_closedFds c = [] \<and>
     tc_closeRequests c = (if tc_closing c then [tc_fd c] else [])"

lemma deferred_requestClose: "deferred_ok c \<Longrightarrow> deferred_ok (requestClose c)"
  by (auto simp: deferred_ok_def requestClose_def Let_def)

lemma deferred_log: "deferred_ok (add_log l m c) = deferred_ok c"
  by (simp add: deferred_ok_def add_log_def)

lemma deferred_process: "deferred_ok c \<Longrightarrow> deferred_ok (processPendingData c)"
proof (induction c rule: processPendingData.induct)
  case (1 c)
  show ?case
  proof (cases "tryDecode (tc_pendingData c)")
    case (Inl e)
    then show ?thesis
      using 1(2) by (subst processPendingData.simps) (simp add: deferred_requestClose deferred_log)
  next
    case (Inr r)
    obtain rest m where r: "r = (rest, m)" by (cases r)
    have keep: "deferred_ok (c\<lparr> tc_pendingData := rest \<rparr>)" "\<And>p. deferred_ok (deliver p (c\<lparr> tc_pendingData := rest \<rparr>))"
      using 1(2) by (simp_all add: deferred_ok_def deliver_def)
    show ?thesis
      using Inr r keep 1(1) by (subst processPendingData.simps) (simp split: option.split)
  qed
qed

lemma deferred_recv: "deferred_ok c \<Longrightarrow> \<exists>c'. recv_loop rs c = Inr c' \<and> deferred_ok c'"
proof (induction rs arbitrary: c)
  case Nil
  then show ?case by (simp add: deferred_ok_def)
next
  case (Cons r rs)
  have alive: "tc_alive c" using Cons.prems by (simp add: deferred_ok_def)
  show ?case
  proof (cases r)
    case (Received buf)
    have "deferred_ok (c\<lparr> tc_pendingData := tc_pendingData c @ buf \<rparr>)"
      using Cons.prems by (simp add: deferred_ok_def)
    with Received alive Cons.IH [OF deferred_process] show ?thesis by simp
  qed (use alive Cons in \<open>simp_all add: deferred_requestClose deferred_log\<close>)
qed

lemma deferred_event: "deferred_ok c \<Longrightarrow> \<exists>c'. connection_event revents rs c = Inr c' \<and> deferred_ok c'"
proof -
  assume c: "deferred_ok c"
  then obtain ch where ch: "connection_channel rs (tc_fd c) = Inr ch"
    "ch_readCallback ch = Some (handleRead rs)" "ch_closeCallback ch = Some handleClose"
    "ch_errorCallback ch = Some handleError"
    by (auto simp: connection_channel_def new_channel_def deferred_ok_def setErrorCallback_def setCloseCallback_def
        setReadCallback_def setEvents_def)
  have "\<exists>c'. handleEvent tc_alive ch revents c = Inr c' \<and> deferred_ok c'"
  proof (rule handleEvent_inv [of deferred_ok])
    show "deferred_ok s \<Longrightarrow> tc_alive s" for s by (simp add: deferred_ok_def)
    show "cb = None \<or> (\<exists>f s'. cb = Some f \<and> f s = Inr s' \<and> deferred_ok s')"
      if "cb \<in> {ch_readCallback ch, ch_closeCallback ch, ch_errorCallback ch}" "deferred_ok s" for cb s
      using that ch deferred_recv [of s rs]
      by (auto simp: handleRead_def handleClose_def handleError_def deferred_requestClose deferred_log)
  qed (rule c)
  with ch show ?thesis by (simp add: connection_event_def)
qed

fun connection_events :: "(u32 \<times> recv_result list) list \<Rightarrow> tcp_connection callback" where
  "connection_events [] c = Inr c"
| "connection_events ((revents, rs) # evs) c = ebind (connection_event revents rs c) (connection_events evs)"

text \<open>
  When the close callback only notes the request, no sequence of events, reads and errors
  leads to a memory error, and the callback is called at most once.
\<close>

theorem connection_deferred_safe:
  assumes "deferred_ok c"
  shows "\<exists>c'. connection_events evs c = Inr c' \<and> length (tc_closeRequests c') \<le> 1 \<and>
           (tc_closeRequests c' = [] \<longleftrightarrow> \<not> tc_closing c')"
proof -
  have "\<exists>c'. connection_events evs c = Inr c' \<and> deferred_ok c'"
    using assms
  proof (induction evs arbitrary: c)
    case (Cons ev evs)
    obtain revents rs where ev: "ev = (revents, rs)" by (cases ev)
    from deferred_event [OF Cons.prems, of revents rs] Cons.IH show ?case by (auto simp: ev)
  qed simp
  then show ?thesis by (auto simp: deferred_ok_def)
qed

theorem connection_deferred_safe_witness:
  "\<exists>c'. connection_events [(EPOLLIN OR EPOLLRDHUP, [RecvEof])] (demo_connection\<lparr> tc_closeCallback := Some Defers \<rparr>) = Inr c' \<and>
     length (tc_closeRequests c') \<le> 1"
  using connection_deferred_safe [of "demo_connection\<lparr> tc_closeCallback := Some Defers \<rparr>" "[(EPOLLIN OR EPOLLRDHUP, [RecvEof])]"]
  by (auto simp: deferred_ok_def demo_connection_def)

text \<open>
  C26: with the close callback of the server, which erases the connection, both usual ends of a
  connection are memory errors: a peer that closes is reported by \<open>epoll\<close> as readable and
  hung up at once, and the dispatch goes on to the close callback of the channel the read
  callback destroyed; after an invalid frame the read loop goes on with the destroyed object.
\<close>

theorem connection_erased_use_after_free:
  assumes "open_connection c" and "0 \<le> tc_fd c" and "tc_closeCallback c = Some Erases"
  shows "connection_event (EPOLLIN OR EPOLLRDHUP) [RecvEof] c = Inl UseAfterFree \<and>
         (tryDecode (tc_pendingData c @ buffer) = Inl e \<longrightarrow>
            connection_event EPOLLIN (Received buffer # rs) c = Inl UseAfterFree)"
proof -
  have chan: "connection_channel rs' (tc_fd c) = Inr \<lparr> ch_fd = tc_fd c, ch_events = EPOLLIN OR EPOLLRDHUP,
      ch_readCallback = Some (handleRead rs'), ch_closeCallback = Some handleClose,
      ch_errorCallback = Some handleError \<rparr>" for rs'
    using assms(2) by (simp add: connection_channel_def new_channel_def setErrorCallback_def setCloseCallback_def
        setReadCallback_def setEvents_def)
  have masks: "(EPOLLIN OR EPOLLRDHUP) AND EPOLLERR = 0" "(EPOLLIN OR EPOLLRDHUP) AND EPOLLIN \<noteq> 0"
    "(EPOLLIN OR EPOLLRDHUP) AND (EPOLLHUP OR EPOLLRDHUP) \<noteq> 0"
    "EPOLLIN AND EPOLLERR = 0" "EPOLLIN \<noteq> 0"
    by (simp_all add: epoll_masks)
  have dead: "\<not> tc_alive (requestClose (add_log l m c'))"
    "\<not> tc_alive (requestClose c')" if "\<not> tc_closing c'" "tc_closeCallback c' = Some Erases" for l m c'
    using that by (simp_all add: requestClose_def add_log_def destroy_connection_def Let_def)
  have "connection_event (EPOLLIN OR EPOLLRDHUP) [RecvEof] c = Inl UseAfterFree"
    using assms dead(2) [of c]
    by (simp add: connection_event_def chan handleEvent_def masks call_member_def handleRead_def open_connection_def)
  moreover have "connection_event EPOLLIN (Received buffer # rs) c = Inl UseAfterFree"
    if "tryDecode (tc_pendingData c @ buffer) = Inl e"
  proof -
    define c1 where "c1 = processPendingData (c\<lparr> tc_pendingData := tc_pendingData c @ buffer \<rparr>)"
    have "\<not> tc_alive c1"
      unfolding c1_def using that assms dead
      by (subst processPendingData.simps) (simp add: open_connection_def)
    then have "recv_loop rs c1 = Inl UseAfterFree" by (cases rs) simp_all
    then show ?thesis
      using assms by (simp add: connection_event_def chan handleEvent_def masks call_member_def handleRead_def
          open_connection_def c1_def)
  qed
  ultimately show ?thesis by blast
qed

theorem connection_erased_use_after_free_witness:
  "connection_event (EPOLLIN OR EPOLLRDHUP) [RecvEof] demo_connection = Inl UseAfterFree \<and>
   connection_event EPOLLIN [Received ''GET / HTTP/1.1'', RecvEagain] demo_connection = Inl UseAfterFree"
  using connection_erased_use_after_free [of demo_connection "''GET / HTTP/1.1''"
      "RuntimeError ''Received frame exceeds maximum size''" "[RecvEagain]"]
  by (simp add: open_connection_def demo_connection_def tryDecode_eq big_endian_def HEADER_SIZE_def Let_def)

end
