(* ===== verification/Tcp_Client.thy ===== *)
theory Tcp_Client
  imports Num_Text "HOL-Library.Multiset" "HOL-Library.Sublist"
begin

text \<open>
  The agent's end of the stream: \<open>include/network/TcpClient.h\<close> and
  \<open>src/network/TcpClient.cpp\<close>.  What \<open>socket\<close>, \<open>inet_pton\<close>, \<open>connect\<close> and the calls of
  \<open>send\<close> return are parameters; the bytes the kernel accepted and the descriptors opened and
  closed are recorded in the state.  A successful \<open>sendAll\<close> has put exactly the data on the
  stream, a failed one a proper prefix, after which the client is disconnected; no descriptor
  leaks or is closed twice.
\<close>

section \<open>State\<close>

record tcp_client =
  cl_serverIp :: string
  cl_serverPort :: u16
  cl_socketFd :: int
  cl_stream :: string
  cl_opened :: "int list"
  cl_closed :: "int list"
  cl_log :: "log_entry list"

definition new_client :: "string \<Rightarrow> u16 \<Rightarrow> tcp_client" where
  "new_client ip port = \<lparr> cl_serverIp = ip, cl_serverPort = port, cl_socketFd = -1, cl_stream = [],
     cl_opened = [], cl_closed = [], cl_log = [] \<rparr>"

definition client_log :: "log_level \<Rightarrow> string \<Rightarrow> tcp_client \<Rightarrow> tcp_client" where
  "client_log level msg c = c\<lparr> cl_log := cl_log c @ [(level, msg)] \<rparr>"

definition client_close :: "int \<Rightarrow> tcp_client \<Rightarrow> tcp_client" where
  "client_close fd c = c\<lparr> cl_closed := cl_closed c @ [fd] \<rparr>"

definition server_text :: "tcp_client \<Rightarrow> string" where
  "server_text c = cl_serverIp c @ '':'' @ dec (unat (cl_serverPort c))"

section \<open>Connecting\<close>

definition isConnected :: "tcp_client \<Rightarrow> bool" where
  "isConnected c \<longleftrightarrow> 0 \<le> cl_socketFd c"

text \<open>\<open>createSocket\<close>, given what \<open>socket\<close> returned.\<close>

definition createSocket :: "int \<Rightarrow> int result" where
  "createSocket socketFd =
     (if socketFd < 0 then Inl (RuntimeError ''Failed to create TCP socket'') else Inr socketFd)"

text \<open>
  \<open>socketFd\<close>, \<open>conversion\<close> and \<open>failure\<close> are the results of \<open>socket\<close>, \<open>inet_pton\<close> and
  \<open>connect\<close>, the last as the text of its \<open>errno\<close> when it failed.
\<close>

definition connectToServer :: "int \<Rightarrow> int \<Rightarrow> string option \<Rightarrow> tcp_client \<Rightarrow> bool \<times> tcp_client" where
  "connectToServer socketFd conversion failure c =
     (if isConnected c then (True, c)
      else case createSocket socketFd of
        Inl e \<Rightarrow> (False, client_log Error (''TCP socket creation failed: '' @ what e) c)
      | Inr newSocketFd \<Rightarrow>
          let c = c\<lparr> cl_opened := cl_opened c @ [newSocketFd] \<rparr>
          in if conversion \<noteq> 1
             then (False, client_close newSocketFd
                    (client_log Error (''Invalid monitoring server IP address: '' @ cl_serverIp c) c))
             else case failure of
               Some msg \<Rightarrow> (False, client_close newSocketFd (client_log Warning
                 (''Failed to connect to monitoring server '' @ server_text c @ '': '' @ msg) c))
             | None \<Rightarrow> (True, client_log Info (''Connected to monitoring server '' @ server_text c)
                 (c\<lparr> cl_socketFd := newSocketFd, cl_stream := [] \<rparr>)))"

definition disconnect :: "tcp_client \<Rightarrow> tcp_client" where
  "disconnect c =
     (if cl_socketFd c < 0 then c else (client_close (cl_socketFd c) c)\<lparr> cl_socketFd := -1 \<rparr>)"

section \<open>Sending\<close>

text \<open>What one \<open>send\<close> returned: a number of bytes, or an error by its \<open>errno\<close>.\<close>

datatype send_result = Sent nat | SendEintr | SendFailed string

text \<open>
  The loop of \<open>sendAll\<close> over the results of its calls of \<open>send\<close>; \<open>None\<close> when a further
  call has not returned yet.
\<close>

fun send_loop :: "send_result list \<Rightarrow> string \<Rightarrow> nat \<Rightarrow> tcp_client \<Rightarrow> (bool \<times> tcp_client) option" where
  "send_loop results data totalSent c =
     (if \<not> totalSent < length data then Some (True, c)
      else case results of
        [] \<Rightarrow> None
      | Sent n # rest \<Rightarrow>
          if n > 0
          then send_loop rest data (totalSent + n)
                 (c\<lparr> cl_stream := cl_stream c @ take n (drop totalSent data) \<rparr>)
          else Some (False, disconnect (client_log Warning ''TCP connection closed while sending metrics'' c))
      | SendEintr # rest \<Rightarrow> send_loop rest data totalSent c
      | SendFailed msg # rest \<Rightarrow>
          Some (False, disconnect (client_log Warning
            (''Failed to send metrics to monitoring server '' @ server_text c @ '': '' @ msg) c)))"

declare send_loop.simps [simp del]

definition sendAll :: "send_result list \<Rightarrow> string \<Rightarrow> tcp_client \<Rightarrow> (bool \<times> tcp_client) option" where
  "sendAll results data c = (if \<not> isConnected c then Some (False, c) else send_loop results data 0 c)"

text \<open>\<open>send\<close> never accepts more bytes than it was given.\<close>

fun send_within :: "nat \<Rightarrow> send_result list \<Rightarrow> bool" where
  "send_within left [] = True"
| "send_within left (Sent n # rest) = (n \<le> left \<and> send_within (left - n) rest)"
| "send_within left (_ # rest) = send_within left rest"

lemma stream_log_disconnect [simp]:
  "cl_stream (disconnect c) = cl_stream c" "cl_stream (client_log l m c) = cl_stream c"
  "isConnected (disconnect c) = False" "isConnected (client_log l m c) = isConnected c"
  by (simp_all add: disconnect_def client_close_def client_log_def isConnected_def)

lemma send_loop_stream:
  assumes "send_loop results data sent c = Some (ok, c')" and "sent \<le> length data"
    and "send_within (length data - sent) results" and "isConnected c"
  shows "\<exists>n. sent \<le> n \<and> n \<le> length data \<and> cl_stream c' = cl_stream c @ take (n - sent) (drop sent data) \<and>
           ok = (n = length data) \<and> isConnected c' = ok"
  using assms
proof (induction results data sent c rule: send_loop.induct)
  case (1 results data sent c)
  show ?case
  proof (cases "sent < length data")
    case False
    with 1 show ?thesis by (intro exI [of _ sent]) (simp add: send_loop.simps [of results])
  next
    case True
    show ?thesis
    proof (cases results)
      case Nil
      with True 1 show ?thesis by (simp add: send_loop.simps [of "[]"])
    next
      case (Cons r rest)
      show ?thesis
      proof (cases r)
        case (Sent k)
        show ?thesis
        proof (cases "k > 0")
          case False
          with True 1 Cons Sent show ?thesis
            by (intro exI [of _ sent]) (auto simp: send_loop.simps [of "Sent k # rest"])
        next
          case k: True
          define c1 where "c1 = c\<lparr> cl_stream := cl_stream c @ take k (drop sent data) \<rparr>"
          have "\<exists>n. sent + k \<le> n \<and> n \<le> length data \<and>
              cl_stream c' = cl_stream c1 @ take (n - (sent + k)) (drop (sent + k) data) \<and>
              ok = (n = length data) \<and> isConnected c' = ok"
            using 1 True k Cons Sent
            by (auto simp: c1_def send_loop.simps [of "Sent k # rest"] isConnected_def)
          then obtain n where n: "sent + k \<le> n" "n \<le> length data"
            "cl_stream c' = cl_stream c1 @ take (n - (sent + k)) (drop (sent + k) data)"
            "ok = (n = length data)" "isConnected c' = ok" by blast
          have "n - sent = k + (n - (sent + k))" using n by simp
          then have "take (n - sent) (drop sent data) =
              take k (drop sent data) @ take (n - (sent + k)) (drop (sent + k) data)"
            by (metis add.commute drop_drop take_add)
          with n show ?thesis by (intro exI [of _ n]) (simp add: c1_def)
        qed
      next
        case SendEintr
        with True 1 Cons show ?thesis by (simp add: send_loop.simps [of "SendEintr # rest"])
      next
        case (SendFailed msg)
        with True 1 Cons show ?thesis
          by (intro exI [of _ sent]) (auto simp: send_loop.simps [of "SendFailed msg # rest"])
      qed
    qed
  qed
qed

lemma sendAll_stream:
  assumes "sendAll results data c = Some (ok, c')" and "isConnected c" and "send_within (length data) results"
  shows "if ok then isConnected c' \<and> cl_stream c' = cl_stream c @ data
         else \<not> isConnected c' \<and> (\<exists>n < length data. cl_stream c' = cl_stream c @ take n data)"
proof -
  from assms(1,2) have "send_loop results data 0 c = Some (ok, c')" by (simp add: sendAll_def)
  from send_loop_stream [OF this] assms(2,3) obtain n where "n \<le> length data"
    "cl_stream c' = cl_stream c @ take n data" "ok = (n = length data)" "isConnected c' = ok" by auto
  then show ?thesis by (cases "n = length data") (auto intro!: exI [of _ n])
qed

text \<open>
  C19: a call of \<open>sendAll\<close> on a connected client that returns true has put exactly the data on
  the stream; one that returns false has put a proper prefix there and disconnected, so a
  frame that was cut off is never followed by another one on the same connection.
\<close>

theorem sendAll_all_or_disconnect:
  assumes "sendAll results data c = Some (ok, c')" and "isConnected c" and "send_within (length data) results"
  shows "if ok then isConnected c' \<and> cl_stream c' = cl_stream c @ data
         else \<not> isConnected c' \<and> (\<exists>n < length data. cl_stream c' = cl_stream c @ take n data)"
  using assms by (rule sendAll_stream)

theorem sendAll_all_or_disconnect_witness:
  "\<exists>n < 3. cl_stream (snd (the (sendAll [Sent 2, SendEintr, SendFailed ''Broken pipe''] ''abc''
     ((new_client ''127.0.0.1'' 9000)\<lparr> cl_socketFd := 5 \<rparr>)))) = take n ''abc''"
proof -
  have run: "sendAll [Sent 2, SendEintr, SendFailed ''Broken pipe''] ''abc'' ((new_client ''127.0.0.1'' 9000)\<lparr> cl_socketFd := 5 \<rparr>)
      = Some (False, snd (the (sendAll [Sent 2, SendEintr, SendFailed ''Broken pipe''] ''abc''
         ((new_client ''127.0.0.1'' 9000)\<lparr> cl_socketFd := 5 \<rparr>))))"
    by (simp add: sendAll_def isConnected_def send_loop.simps)
  from sendAll_all_or_disconnect [OF run] show ?thesis
    by (simp only: if_False) (simp add: isConnected_def new_client_def numeral_3_eq_3)
qed

section \<open>Descriptors\<close>

definition client_ok :: "tcp_client \<Rightarrow> bool" where
  "client_ok c \<longleftrightarrow> mset (cl_opened c) =
     mset (cl_closed c) + (if isConnected c then {# cl_socketFd c #} else {#})"

datatype client_op =
    Connect int int "string option"
  | Send "send_result list" string
  | Disconnect

fun client_step :: "client_op \<Rightarrow> tcp_client \<Rightarrow> tcp_client" where
  "client_step (Connect fd conv failure) c = snd (connectToServer fd conv failure c)"
| "client_step (Send results data) c = (case sendAll results data c of None \<Rightarrow> c | Some (ok, c') \<Rightarrow> c')"
| "client_step Disconnect c = disconnect c"

lemma client_ok_log [simp]: "client_ok (client_log l m c) = client_ok c"
  by (simp add: client_ok_def client_log_def isConnected_def)

lemma client_ok_stream [simp]: "client_ok (c\<lparr> cl_stream := s \<rparr>) = client_ok c"
  by (simp add: client_ok_def isConnected_def)

lemma client_ok_disconnect [simp]: "client_ok c \<Longrightarrow> client_ok (disconnect c)"
  by (simp add: client_ok_def disconnect_def client_close_def isConnected_def)

lemma client_ok_connect: "client_ok c \<Longrightarrow> client_ok (snd (connectToServer fd conv failure c))"
  by (auto simp: connectToServer_def createSocket_def Let_def client_ok_def client_close_def client_log_def
      isConnected_def split: option.split)

lemma client_ok_send_loop: "send_loop results data sent c = Some (ok, c') \<Longrightarrow> client_ok c \<Longrightarrow> client_ok c'"
proof (induction results data sent c rule: send_loop.induct)
  case (1 results data sent c)
  show ?case
  proof (cases results)
    case Nil
    with 1 show ?thesis by (simp add: send_loop.simps [of "[]"] split: if_splits)
  next
    case (Cons r rest)
    with 1 show ?thesis
      by (cases r) (auto simp: send_loop.simps [of "r # rest" for r] split: if_splits)
  qed
qed

text \<open>
  C25: over any sequence of connects, sends and disconnects, whatever the system calls return,
  each descriptor that was opened is either the connected one or has been closed once.
\<close>

theorem client_no_leak:
  "client_ok (fold client_step ops (new_client ip port))"
proof -
  have step: "client_ok c \<Longrightarrow> client_ok (client_step op c)" for c op
    by (cases op) (auto simp: client_ok_connect sendAll_def intro: client_ok_send_loop split: option.split)
  have "client_ok c \<Longrightarrow> client_ok (fold client_step ops c)" for c
    by (induction ops arbitrary: c) (simp_all add: step)
  then show ?thesis by (simp add: client_ok_def new_client_def isConnected_def)
qed

end
