(* ===== verification/Event_Loop.thy ===== *)
theory Event_Loop
  imports Channel Hash_Map Num_Text Transition_System
begin

text \<open>
  The reactor: \<open>include/reactor/EventLoop.h\<close> and \<open>src/reactor/EventLoop.cpp\<close>.  The first part has
  the operations of one thread over the state of the loop, with the counter of the eventfd
  and the interest list of epoll as the kernel keeps them.  The second part interleaves the
  loop with other threads that queue functors and ask it to quit: pushing and waking are
  separate steps, as are the points at which the loop can be overtaken.  The theory shows
  that functors run once and in the order they were queued and that no wake-up is lost.
\<close>

section \<open>State\<close>

text \<open>
  Functors are names of type \<open>'f\<close>; \<open>el_queued\<close> and \<open>el_ran\<close> record the functors queued and
  called over the lifetime of the loop, and \<open>el_channels\<close> is the kernel's interest list.
\<close>

record 'f event_loop =
  el_epollFd :: int
  el_maxEvents :: nat
  el_looping :: bool
  el_quit :: bool
  el_pending :: "'f list"
  el_wakeupFd :: int
  el_counter :: u64
  el_channels :: "(int, u32) umap"
  el_queued :: "'f list"
  el_ran :: "'f list"
  el_log :: "log_entry list"
  el_closed :: "int list"

definition loop_log :: "log_level \<Rightarrow> string \<Rightarrow> 'f event_loop \<Rightarrow> 'f event_loop" where
  "loop_log level msg s = s\<lparr> el_log := el_log s @ [(level, msg)] \<rparr>"

text \<open>
  A channel argument is its descriptor and event mask, \<open>None\<close> the null pointer.  \<open>epoll_ctl\<close>
  fails as documented for a descriptor that is or is not registered, and with \<open>failed\<close> for
  other reasons.
\<close>

definition addChannel :: "bool \<Rightarrow> (int \<times> u32) option \<Rightarrow> 'f event_loop \<Rightarrow> 'f event_loop result" where
  "addChannel failed channel s =
     (case channel of
        None \<Rightarrow> Inl (InvalidArgument ''Channel must not be null'')
      | Some (fd, events) \<Rightarrow>
          if failed \<or> um_find (el_channels s) fd \<noteq> None then Inl (RuntimeError ''Failed to add Channel to epoll'')
          else Inr (s\<lparr> el_channels := um_assign fd events (el_channels s) \<rparr>))"

definition updateChannel :: "bool \<Rightarrow> (int \<times> u32) option \<Rightarrow> 'f event_loop \<Rightarrow> 'f event_loop result" where
  "updateChannel failed channel s =
     (case channel of
        None \<Rightarrow> Inl (InvalidArgument ''Channel must not be null'')
      | Some (fd, events) \<Rightarrow>
          if failed \<or> um_find (el_channels s) fd = None then Inl (RuntimeError ''Failed to update Channel in epoll'')
          else Inr (s\<lparr> el_channels := um_assign fd events (el_channels s) \<rparr>))"

definition removeChannel :: "bool \<Rightarrow> (int \<times> u32) option \<Rightarrow> 'f event_loop \<Rightarrow> 'f event_loop result" where
  "removeChannel failed channel s =
     (case channel of
        None \<Rightarrow> Inr s
      | Some (fd, _) \<Rightarrow>
          if failed then Inl (RuntimeError ''Failed to remove Channel from epoll'')
          else if um_find (el_channels s) fd = None then Inr s
          else Inr (s\<lparr> el_channels := um_erase fd (el_channels s) \<rparr>))"

text \<open>The descriptors of the interest list.\<close>

definition watched :: "'f event_loop \<Rightarrow> int set" where
  "watched s = dom (um_find (el_channels s))"

lemma watched_add:
  "addChannel failed (Some (fd, events)) s = Inr s' \<Longrightarrow> fd \<notin> watched s \<and> watched s' = insert fd (watched s)"
  by (auto simp: addChannel_def um_simps watched_def split: if_splits)

lemma watched_remove:
  "removeChannel failed (Some (fd, events)) s = Inr s' \<Longrightarrow> watched s' = watched s - {fd}"
  by (auto simp: removeChannel_def um_simps watched_def split: if_splits)

text \<open>
  The constructor, given the results of \<open>epoll_create1\<close>, \<open>eventfd\<close> and of registering the
  wake-up channel; the first component lists the descriptors that were closed again.
\<close>

definition new_event_loop :: "int \<Rightarrow> int \<Rightarrow> int \<Rightarrow> bool \<Rightarrow> int list \<times> 'f event_loop result" where
  "new_event_loop maxEvents epollFd wakeupFd ctlFailed =
     (if maxEvents \<le> 0 then ([], Inl (InvalidArgument ''maxEvents must be greater than 0''))
      else if epollFd < 0 then ([], Inl (RuntimeError ''Failed to create epoll instance''))
      else if wakeupFd < 0 then ([epollFd], Inl (RuntimeError ''Failed to create EventLoop eventfd''))
      else case addChannel ctlFailed (Some (wakeupFd, EPOLLIN))
             \<lparr> el_epollFd = epollFd, el_maxEvents = nat maxEvents, el_looping = False, el_quit = False, el_pending = [],
               el_wakeupFd = wakeupFd, el_counter = 0, el_channels = [], el_queued = [], el_ran = [], el_log = [],
               el_closed = [] \<rparr> of
             Inl e \<Rightarrow> ([wakeupFd, epollFd], Inl e)
           | Inr s \<Rightarrow> ([], Inr s))"

lemma watched_new:
  "snd (new_event_loop maxEvents epollFd wakeupFd failed) = Inr s \<Longrightarrow> watched s = {wakeupFd}"
  by (auto simp: new_event_loop_def addChannel_def um_find_def watched_def split: if_splits)

definition destroy_event_loop :: "bool \<Rightarrow> 'f event_loop \<Rightarrow> 'f event_loop" where
  "destroy_event_loop failed s =
     (let s = (case removeChannel failed (Some (el_wakeupFd s, EPOLLIN)) s of Inl _ \<Rightarrow> s | Inr s' \<Rightarrow> s')
      in s\<lparr> el_closed := el_closed s @ (if el_wakeupFd s \<ge> 0 then [el_wakeupFd s] else []) @
              (if el_epollFd s \<ge> 0 then [el_epollFd s] else []),
            el_wakeupFd := -1, el_epollFd := -1 \<rparr>)"

section \<open>Waking\<close>

text \<open>
  What a call on the eventfd does: it is interrupted, performed by the kernel, or fails.
  A write adds one unless the counter is at its maximum, a read resets the counter unless it
  is zero; \<open>EAGAIN\<close>, the outcome in these cases, ends the loop like success.
\<close>

datatype io = Interrupted | Performed | IoFailed

definition EVENTFD_MAX :: u64 where "EVENTFD_MAX = 0xFFFFFFFFFFFFFFFE"

fun wakeup :: "io list \<Rightarrow> 'f event_loop \<Rightarrow> 'f event_loop" where
  "wakeup [] s = s"
| "wakeup (Interrupted # rs) s = wakeup rs s"
| "wakeup (Performed # rs) s = (if el_counter s < EVENTFD_MAX then s\<lparr> el_counter := el_counter s + 1 \<rparr> else s)"
| "wakeup (IoFailed # rs) s = loop_log Error ''Failed to wake EventLoop through eventfd'' s"

fun handleWakeup :: "io list \<Rightarrow> 'f event_loop \<Rightarrow> 'f event_loop" where
  "handleWakeup [] s = s"
| "handleWakeup (Interrupted # rs) s = handleWakeup rs s"
| "handleWakeup (Performed # rs) s = s\<lparr> el_counter := 0 \<rparr>"
| "handleWakeup (IoFailed # rs) s = loop_log Error ''Failed to read EventLoop eventfd'' s"

text \<open>The two halves of \<open>queueInLoop\<close> and of \<open>quit\<close>.\<close>

definition push_functor :: "'f \<Rightarrow> 'f event_loop \<Rightarrow> 'f event_loop" where
  "push_functor f s = s\<lparr> el_pending := el_pending s @ [f], el_queued := el_queued s @ [f] \<rparr>"

definition queueInLoop :: "io list \<Rightarrow> 'f option \<Rightarrow> 'f event_loop \<Rightarrow> 'f event_loop" where
  "queueInLoop ios functor s = (case functor of None \<Rightarrow> s | Some f \<Rightarrow> wakeup ios (push_functor f s))"

definition set_quit :: "'f event_loop \<Rightarrow> 'f event_loop" where
  "set_quit s = s\<lparr> el_quit := True \<rparr>"

definition loop_quit :: "io list \<Rightarrow> 'f event_loop \<Rightarrow> 'f event_loop" where
  "loop_quit ios s = wakeup ios (set_quit s)"

section \<open>One iteration\<close>

text \<open>
  What a functor or the handler of a channel does to the loop, in order, and what it throws:
  an exception of the standard library or another one.
\<close>

datatype 'f loop_call = CallQueue "'f option" | CallQuit

datatype thrown = StdException cxx_exn | OtherException

type_synonym 'f behaviour = "'f loop_call list \<times> thrown option"

fun run_call :: "'f loop_call \<Rightarrow> 'f event_loop \<Rightarrow> 'f event_loop" where
  "run_call (CallQueue f) s = queueInLoop [Performed] f s"
| "run_call CallQuit s = loop_quit [Performed] s"

definition run_calls :: "'f loop_call list \<Rightarrow> 'f event_loop \<Rightarrow> 'f event_loop" where
  "run_calls calls s = foldl (\<lambda>s c. run_call c s) s calls"

definition run_functor :: "('f \<Rightarrow> 'f behaviour) \<Rightarrow> 'f \<Rightarrow> 'f event_loop \<Rightarrow> 'f event_loop" where
  "run_functor body f s =
     (case body f of (calls, ex) \<Rightarrow>
        let s = run_calls calls (s\<lparr> el_ran := el_ran s @ [f] \<rparr>)
        in case ex of
             None \<Rightarrow> s
           | Some (StdException e) \<Rightarrow> loop_log Error (''EventLoop pending functor exception: '' @ what e) s
           | Some OtherException \<Rightarrow> loop_log Error ''EventLoop pending functor threw unknown exception'' s)"

definition take_pending :: "'f event_loop \<Rightarrow> 'f list \<times> 'f event_loop" where
  "take_pending s = (el_pending s, s\<lparr> el_pending := [] \<rparr>)"

definition run_functors :: "('f \<Rightarrow> 'f behaviour) \<Rightarrow> 'f list \<Rightarrow> 'f event_loop \<Rightarrow> 'f event_loop" where
  "run_functors body fs s = foldl (\<lambda>s f. run_functor body f s) s fs"

definition doPendingFunctors :: "('f \<Rightarrow> 'f behaviour) \<Rightarrow> 'f event_loop \<Rightarrow> 'f event_loop" where
  "doPendingFunctors body s = (case take_pending s of (functors, s) \<Rightarrow> run_functors body functors s)"

text \<open>
  An event of \<open>epoll_wait\<close>: the descriptor of its channel, \<open>None\<close> for a null pointer, and the
  ready mask.  The wake-up channel has a read callback only; \<open>handler\<close> is what the other
  channels do, and an exception of one leaves the loop.
\<close>

type_synonym loop_event = "int option \<times> u32"

definition dispatch ::
    "(int \<Rightarrow> u32 \<Rightarrow> 'f behaviour) \<Rightarrow> loop_event \<Rightarrow> 'f event_loop \<Rightarrow> thrown option \<times> 'f event_loop" where
  "dispatch handler ev s =
     (case ev of
        (None, _) \<Rightarrow> (None, loop_log Warning ''EventLoop received an event with null Channel'' s)
      | (Some fd, revents) \<Rightarrow>
          if fd = el_wakeupFd s
          then (None, if revents AND EPOLLIN \<noteq> 0 then handleWakeup [Performed] s else s)
          else case handler fd revents of (calls, ex) \<Rightarrow> (ex, run_calls calls s))"

fun dispatch_all ::
    "(int \<Rightarrow> u32 \<Rightarrow> 'f behaviour) \<Rightarrow> loop_event list \<Rightarrow> 'f event_loop \<Rightarrow> thrown option \<times> 'f event_loop" where
  "dispatch_all handler [] s = (None, s)"
| "dispatch_all handler (ev # evs) s =
     (case dispatch handler ev s of
        (Some ex, s) \<Rightarrow> (Some ex, s)
      | (None, s) \<Rightarrow> dispatch_all handler evs s)"

text \<open>The results of \<open>epoll_wait\<close> in one iteration; when they run out the loop is still waiting.\<close>

datatype wait_result = EventsReady "loop_event list" | WaitInterrupted | WaitFailed

datatype loop_end = LoopWaiting | LoopReturned | LoopThrew thrown

fun loopOnce ::
    "(int \<Rightarrow> u32 \<Rightarrow> 'f behaviour) \<Rightarrow> ('f \<Rightarrow> 'f behaviour) \<Rightarrow> wait_result list \<Rightarrow> 'f event_loop \<Rightarrow> loop_end \<times> 'f event_loop" where
  "loopOnce handler body [] s = (LoopWaiting, s)"
| "loopOnce handler body (WaitInterrupted # ws) s = loopOnce handler body ws s"
| "loopOnce handler body (WaitFailed # ws) s = (LoopThrew (StdException (RuntimeError ''epoll_wait failed'')), s)"
| "loopOnce handler body (EventsReady evs # ws) s =
     (case dispatch_all handler evs s of
        (Some ex, s) \<Rightarrow> (LoopThrew ex, s)
      | (None, s) \<Rightarrow> (LoopReturned, doPendingFunctors body s))"

fun loop_rounds ::
    "(int \<Rightarrow> u32 \<Rightarrow> 'f behaviour) \<Rightarrow> ('f \<Rightarrow> 'f behaviour) \<Rightarrow> wait_result list list \<Rightarrow> 'f event_loop \<Rightarrow> loop_end \<times> 'f event_loop" where
  "loop_rounds handler body rounds s =
     (if el_quit s then (LoopReturned, s)
      else case rounds of
        [] \<Rightarrow> (LoopWaiting, s)
      | ws # rounds \<Rightarrow> (case loopOnce handler body ws s of
            (LoopReturned, s) \<Rightarrow> loop_rounds handler body rounds s
          | (e, s) \<Rightarrow> (e, s)))"

definition loop_begin :: "'f event_loop \<Rightarrow> 'f event_loop" where
  "loop_begin s = s\<lparr> el_looping := True, el_quit := False \<rparr>"

definition event_loop_run ::
    "(int \<Rightarrow> u32 \<Rightarrow> 'f behaviour) \<Rightarrow> ('f \<Rightarrow> 'f behaviour) \<Rightarrow> wait_result list list \<Rightarrow> 'f event_loop \<Rightarrow> loop_end \<times> 'f event_loop" where
  "event_loop_run handler body rounds s =
     (if el_looping s then (LoopThrew (StdException (RuntimeError ''EventLoop is already running'')), s)
      else case loop_rounds handler body rounds (loop_begin s) of
        (LoopWaiting, s) \<Rightarrow> (LoopWaiting, s)
      | (e, s) \<Rightarrow> (e, s\<lparr> el_looping := False \<rparr>))"

section \<open>The loop and other threads\<close>

text \<open>
  Where the thread of the loop is: before \<open>loop\<close>, at the condition of its while, inside
  \<open>epoll_wait\<close>, before the events still to dispatch, before the functors still to call, or
  out of the loop, which it also leaves when \<open>epoll_wait\<close> or a handler fails with an exception.
  The write to the eventfd is taken to succeed after any interruptions; the code logs and
  drops a wake-up whose write fails.  \<open>re_writers\<close> counts the other threads that have pushed a functor or set
  the quit flag and have not yet written to the eventfd.
\<close>

datatype 'f loop_pc = NotStarted | AtCheck | AtWait | Dispatching "loop_event list" | Calling "'f list" | LoopLeft

record 'f reactor =
  re_pc :: "'f loop_pc"
  re_loop :: "'f event_loop"
  re_writers :: nat

inductive reactor_step ::
    "(int \<Rightarrow> u32 \<Rightarrow> 'f behaviour) \<Rightarrow> ('f \<Rightarrow> 'f behaviour) \<Rightarrow> 'f reactor \<Rightarrow> 'f reactor \<Rightarrow> bool"
  for handler :: "int \<Rightarrow> u32 \<Rightarrow> 'f behaviour" and body :: "'f \<Rightarrow> 'f behaviour" where
  other_push: "reactor_step handler body \<lparr> re_pc = pc, re_loop = s, re_writers = n \<rparr>
     \<lparr> re_pc = pc, re_loop = push_functor f s, re_writers = Suc n \<rparr>"
| other_quit: "reactor_step handler body \<lparr> re_pc = pc, re_loop = s, re_writers = n \<rparr>
     \<lparr> re_pc = pc, re_loop = set_quit s, re_writers = Suc n \<rparr>"
| other_wakes: "reactor_step handler body \<lparr> re_pc = pc, re_loop = s, re_writers = Suc n \<rparr>
     \<lparr> re_pc = pc, re_loop = wakeup (replicate k Interrupted @ [Performed]) s, re_writers = n \<rparr>"
| begins: "\<not> el_looping s \<Longrightarrow> reactor_step handler body \<lparr> re_pc = NotStarted, re_loop = s, re_writers = n \<rparr>
     \<lparr> re_pc = AtCheck, re_loop = loop_begin s, re_writers = n \<rparr>"
| goes_on: "\<not> el_quit s \<Longrightarrow> reactor_step handler body \<lparr> re_pc = AtCheck, re_loop = s, re_writers = n \<rparr>
     \<lparr> re_pc = AtWait, re_loop = s, re_writers = n \<rparr>"
| stops: "el_quit s \<Longrightarrow> reactor_step handler body \<lparr> re_pc = AtCheck, re_loop = s, re_writers = n \<rparr>
     \<lparr> re_pc = LoopLeft, re_loop = s\<lparr> el_looping := False \<rparr>, re_writers = n \<rparr>"
| ready: "evs \<noteq> [] \<Longrightarrow> length evs \<le> el_maxEvents s \<Longrightarrow>
     (\<exists>revents. (Some (el_wakeupFd s), revents) \<in> set evs) \<longrightarrow> el_counter s \<noteq> 0 \<Longrightarrow>
     reactor_step handler body \<lparr> re_pc = AtWait, re_loop = s, re_writers = n \<rparr>
       \<lparr> re_pc = Dispatching evs, re_loop = s, re_writers = n \<rparr>"
| wait_throws: "reactor_step handler body \<lparr> re_pc = AtWait, re_loop = s, re_writers = n \<rparr>
     \<lparr> re_pc = LoopLeft, re_loop = s\<lparr> el_looping := False \<rparr>, re_writers = n \<rparr>"
| handles: "dispatch handler ev s = (None, s') \<Longrightarrow>
     reactor_step handler body \<lparr> re_pc = Dispatching (ev # evs), re_loop = s, re_writers = n \<rparr>
       \<lparr> re_pc = Dispatching evs, re_loop = s', re_writers = n \<rparr>"
| throws: "dispatch handler ev s = (Some ex, s') \<Longrightarrow>
     reactor_step handler body \<lparr> re_pc = Dispatching (ev # evs), re_loop = s, re_writers = n \<rparr>
       \<lparr> re_pc = LoopLeft, re_loop = s'\<lparr> el_looping := False \<rparr>, re_writers = n \<rparr>"
| swaps: "take_pending s = (fs, s') \<Longrightarrow>
     reactor_step handler body \<lparr> re_pc = Dispatching [], re_loop = s, re_writers = n \<rparr>
       \<lparr> re_pc = Calling fs, re_loop = s', re_writers = n \<rparr>"
| calls: "reactor_step handler body \<lparr> re_pc = Calling (f # fs), re_loop = s, re_writers = n \<rparr>
     \<lparr> re_pc = Calling fs, re_loop = run_functor body f s, re_writers = n \<rparr>"
| returns: "reactor_step handler body \<lparr> re_pc = Calling [], re_loop = s, re_writers = n \<rparr>
     \<lparr> re_pc = AtCheck, re_loop = s, re_writers = n \<rparr>"

definition reactor_start :: "'f event_loop \<Rightarrow> 'f reactor" where
  "reactor_start s = \<lparr> re_pc = NotStarted, re_loop = s, re_writers = 0 \<rparr>"

fun to_run :: "'f loop_pc \<Rightarrow> 'f list" where
  "to_run (Calling fs) = fs"
| "to_run _ = []"

text \<open>
  Outside of a dispatch, which normally ends in taking all functors, a pending functor has a wake-up on
  its way; so has a quit that came after the loop looked at the flag.
\<close>

definition woken :: "'f reactor \<Rightarrow> bool" where
  "woken g \<longleftrightarrow> el_counter (re_loop g) \<noteq> 0 \<or> re_writers g \<noteq> 0"

definition reactor_inv :: "'f reactor \<Rightarrow> bool" where
  "reactor_inv g \<longleftrightarrow>
     el_queued (re_loop g) = el_ran (re_loop g) @ to_run (re_pc g) @ el_pending (re_loop g) \<and>
     ((\<forall>evs. re_pc g \<noteq> Dispatching evs) \<and> re_pc g \<noteq> LoopLeft \<and> el_pending (re_loop g) \<noteq> [] \<longrightarrow> woken g) \<and>
     (re_pc g = AtWait \<and> el_quit (re_loop g) \<longrightarrow> woken g)"

text \<open>What the operations do to the parts of the invariant.\<close>

lemma wakeup_performed:
  "\<exists>c. wakeup (replicate k Interrupted @ [Performed]) s = s\<lparr> el_counter := c \<rparr> \<and> c \<noteq> 0"
proof (induction k)
  case 0
  have "el_counter s + 1 \<noteq> 0" if "el_counter s < EVENTFD_MAX"
    using that by (auto simp: EVENTFD_MAX_def eq_neg_iff_add_eq_0 [symmetric])
  moreover have "el_counter s \<noteq> 0" if "\<not> el_counter s < EVENTFD_MAX"
    using that by (auto simp: EVENTFD_MAX_def)
  moreover have "s = s\<lparr> el_counter := el_counter s \<rparr>" by simp
  ultimately show ?case by (cases "el_counter s < EVENTFD_MAX") (fastforce, metis append_Nil replicate_0 wakeup.simps(3))
qed simp

definition queues :: "'f event_loop \<Rightarrow> 'f event_loop \<Rightarrow> bool" where
  "queues s s' \<longleftrightarrow> (\<exists>fs. el_queued s' = el_queued s @ fs \<and> el_pending s' = el_pending s @ fs \<and>
     (fs \<noteq> [] \<or> el_counter s \<noteq> 0 \<longrightarrow> el_counter s' \<noteq> 0)) \<and> el_ran s' = el_ran s"

lemma queues_refl: "queues s s"
  by (simp add: queues_def)

lemma queues_trans: "queues s t \<Longrightarrow> queues t u \<Longrightarrow> queues s u"
  unfolding queues_def by (metis append.assoc append_is_Nil_conv)

lemma queues_call: "queues s (run_call c s)"
proof (cases c)
  case (CallQueue f)
  show ?thesis
  proof (cases f)
    case (Some x)
    obtain c where "wakeup [Performed] (push_functor x s) = (push_functor x s)\<lparr> el_counter := c \<rparr>" "c \<noteq> 0"
      using wakeup_performed [of 0 "push_functor x s"] by auto
    then show ?thesis using CallQueue Some by (simp add: queueInLoop_def push_functor_def queues_def)
  qed (simp add: CallQueue queueInLoop_def queues_refl)
next
  case CallQuit
  obtain c where "wakeup [Performed] (set_quit s) = (set_quit s)\<lparr> el_counter := c \<rparr>" "c \<noteq> 0"
    using wakeup_performed [of 0 "set_quit s"] by auto
  then show ?thesis using CallQuit by (simp add: loop_quit_def set_quit_def queues_def)
qed

lemma queues_calls: "queues s (run_calls cs s)"
proof (induction cs arbitrary: s)
  case (Cons c cs)
  then show ?case using queues_trans [OF queues_call [of s c] Cons.IH] by (simp add: run_calls_def)
qed (simp add: run_calls_def queues_refl)

lemma queues_log: "queues s (loop_log level msg s)"
  by (simp add: queues_def loop_log_def)

lemma queues_run_functor: "queues (s\<lparr> el_ran := el_ran s @ [f] \<rparr>) (run_functor body f s)"
proof -
  obtain cs ex where b: "body f = (cs, ex)" by fastforce
  show ?thesis
    using queues_calls [of "s\<lparr> el_ran := el_ran s @ [f] \<rparr>" cs] queues_trans [OF _ queues_log]
    by (auto simp: run_functor_def b Let_def split: option.split thrown.split)
qed

text \<open>Dispatching may use up the counter, but only then.\<close>

lemma dispatch_queues:
  assumes "dispatch handler ev s = (ex, s')"
  shows "\<exists>fs. el_queued s' = el_queued s @ fs \<and> el_pending s' = el_pending s @ fs \<and> el_ran s' = el_ran s \<and>
     (ex \<noteq> None \<longrightarrow> (fs \<noteq> [] \<or> el_counter s \<noteq> 0 \<longrightarrow> el_counter s' \<noteq> 0))"
proof -
  obtain fd revents where ev: "ev = (fd, revents)" by fastforce
  show ?thesis
  proof (cases "fd = None \<or> fd = Some (el_wakeupFd s)")
    case True
    then show ?thesis using assms
      by (auto simp: dispatch_def ev loop_log_def split: if_splits)
  next
    case False
    then obtain x cs where "handler x revents = (cs, ex)" "s' = run_calls cs s"
      using assms by (auto simp: dispatch_def ev split: option.splits prod.splits if_splits)
    then show ?thesis using queues_calls [of s cs] by (auto simp: queues_def)
  qed
qed

lemma reactor_inv_start:
  "new_event_loop maxEvents epollFd wakeupFd failed = (shut, Inr s) \<Longrightarrow> reactor_inv (reactor_start s)"
  by (auto simp: new_event_loop_def addChannel_def reactor_inv_def reactor_start_def split: if_splits sum.splits)

lemma reactor_inv_step:
  assumes "reactor_step handler body g g'" and "reactor_inv g"
  shows "reactor_inv g'"
  using assms
proof (induction rule: reactor_step.induct)
  case (other_wakes pc s n k)
  obtain c where "wakeup (replicate k Interrupted @ [Performed]) s = s\<lparr> el_counter := c \<rparr>" "c \<noteq> 0"
    using wakeup_performed by blast
  then show ?case using other_wakes by (simp add: reactor_inv_def woken_def)
next
  case (handles ev s s' evs n)
  then show ?case using dispatch_queues [OF handles.hyps] by (auto simp: reactor_inv_def)
next
  case (throws ev s ex s' evs n)
  then show ?case using dispatch_queues [OF throws.hyps] throws.prems by (auto simp: reactor_inv_def woken_def)
next
  case (calls f fs s n)
  then show ?case using queues_run_functor [of s f body] by (auto simp: reactor_inv_def woken_def queues_def)
qed (auto simp: reactor_inv_def woken_def push_functor_def set_quit_def loop_begin_def take_pending_def)

interpretation reactor: invariant_system
  "\<lambda>g. \<exists>s maxEvents epollFd wakeupFd failed shut.
     new_event_loop maxEvents epollFd wakeupFd failed = (shut, Inr s) \<and> g = reactor_start s"
  "reactor_step handler body" reactor_inv
  using reactor_inv_start reactor_inv_step by unfold_locales blast+

text \<open>The loop alone runs what is pending.\<close>

lemma max_events [simp]:
  "el_maxEvents (wakeup ios s) = el_maxEvents s" "el_maxEvents (handleWakeup ios s) = el_maxEvents s"
  "el_maxEvents (loop_log level msg s) = el_maxEvents s" "el_maxEvents (push_functor f s) = el_maxEvents s"
  "el_maxEvents (set_quit s) = el_maxEvents s"
  by (induction ios s rule: wakeup.induct, simp_all add: loop_log_def)
     (induction ios s rule: handleWakeup.induct, simp_all add: loop_log_def push_functor_def set_quit_def)

lemma max_events_calls [simp]: "el_maxEvents (run_calls cs s) = el_maxEvents s"
proof (induction cs arbitrary: s)
  case (Cons c cs)
  have "el_maxEvents (run_call c s) = el_maxEvents s"
    by (cases c) (simp_all add: queueInLoop_def loop_quit_def del: wakeup.simps split: option.split)
  with Cons show ?case by (simp add: run_calls_def)
qed (simp add: run_calls_def)

lemma max_events_functor [simp]: "el_maxEvents (run_functor body f s) = el_maxEvents s"
  by (simp add: run_functor_def Let_def split: prod.split option.split thrown.split)

lemma max_events_dispatch: "dispatch handler ev s = (ex, s') \<Longrightarrow> el_maxEvents s' = el_maxEvents s"
  by (auto simp: dispatch_def simp del: handleWakeup.simps split: prod.splits option.splits if_splits)

lemma max_events_reached:
  "(reactor_step handler body)\<^sup>*\<^sup>* g g' \<Longrightarrow> el_maxEvents (re_loop g') = el_maxEvents (re_loop g)"
proof (induction rule: rtranclp_induct)
  case (step g' g'')
  from step(2) have "el_maxEvents (re_loop g'') = el_maxEvents (re_loop g')"
    by cases (auto simp: loop_begin_def take_pending_def dest: max_events_dispatch)
  with step show ?case by simp
qed simp

lemma ran_calls [simp]: "el_ran (run_calls cs s) = el_ran s"
  using queues_calls [of s cs] by (simp add: queues_def)

lemma ran_run_functor: "el_ran (run_functor body f s) = el_ran s @ [f]"
  using queues_run_functor [of s f body] by (simp add: queues_def)

lemma runs_functors:
  "\<exists>s'. (reactor_step handler body)\<^sup>*\<^sup>* \<lparr> re_pc = Calling fs, re_loop = s, re_writers = n \<rparr>
     \<lparr> re_pc = AtCheck, re_loop = s', re_writers = n \<rparr> \<and> el_ran s' = el_ran s @ fs"
proof (induction fs arbitrary: s)
  case Nil
  show ?case by (intro exI [of _ s] conjI r_into_rtranclp returns) simp
next
  case (Cons f fs)
  obtain s' where "(reactor_step handler body)\<^sup>*\<^sup>* \<lparr> re_pc = Calling fs, re_loop = run_functor body f s, re_writers = n \<rparr>
      \<lparr> re_pc = AtCheck, re_loop = s', re_writers = n \<rparr>" "el_ran s' = (el_ran s @ [f]) @ fs"
    using Cons.IH [of "run_functor body f s"] by (auto simp: ran_run_functor)
  then show ?case
    using converse_rtranclp_into_rtranclp [where r = "reactor_step handler body", OF calls] by (intro exI [of _ s']) auto
qed

lemma wait_runs_pending:
  assumes "0 < el_maxEvents s" and "el_counter s \<noteq> 0"
  shows "\<exists>s'. (reactor_step handler body)\<^sup>*\<^sup>* \<lparr> re_pc = AtWait, re_loop = s, re_writers = n \<rparr>
     \<lparr> re_pc = AtCheck, re_loop = s', re_writers = n \<rparr> \<and> el_ran s' = el_ran s @ el_pending s"
proof -
  define ev where "ev = (Some (el_wakeupFd s), EPOLLIN)"
  define s1 where "s1 = s\<lparr> el_counter := 0 \<rparr>"
  define s2 where "s2 = s1\<lparr> el_pending := [] \<rparr>"
  have "reactor_step handler body \<lparr> re_pc = AtWait, re_loop = s, re_writers = n \<rparr>
      \<lparr> re_pc = Dispatching [ev], re_loop = s, re_writers = n \<rparr>"
    using assms by (intro ready) auto
  moreover have "dispatch handler ev s = (None, s1)" by (simp add: dispatch_def ev_def s1_def EPOLLIN_def)
  then have "reactor_step handler body \<lparr> re_pc = Dispatching [ev], re_loop = s, re_writers = n \<rparr>
      \<lparr> re_pc = Dispatching [], re_loop = s1, re_writers = n \<rparr>" by (rule handles)
  moreover have "take_pending s1 = (el_pending s, s2)" by (simp add: take_pending_def s1_def s2_def)
  then have "reactor_step handler body \<lparr> re_pc = Dispatching [], re_loop = s1, re_writers = n \<rparr>
      \<lparr> re_pc = Calling (el_pending s), re_loop = s2, re_writers = n \<rparr>" by (rule swaps)
  moreover obtain s' where "(reactor_step handler body)\<^sup>*\<^sup>* \<lparr> re_pc = Calling (el_pending s), re_loop = s2, re_writers = n \<rparr>
      \<lparr> re_pc = AtCheck, re_loop = s', re_writers = n \<rparr>" "el_ran s' = el_ran s @ el_pending s"
    using runs_functors [of handler body "el_pending s" s2 n] by (auto simp: s2_def s1_def)
  ultimately show ?thesis by (meson converse_rtranclp_into_rtranclp)
qed

text \<open>
  C11: at every moment the functors queued are those called, those about to be called and those
  pending, in this order, whatever functors and handlers throw or queue themselves; when the
  loop waits with a functor pending or a quit requested, the eventfd is readable or the
  thread that came last is about to make it so; and with the eventfd readable the loop goes on
  by itself to where all functors queued so far have been called.
\<close>

theorem reactor_no_lost_wakeup:
  assumes "(reactor_step handler body)\<^sup>*\<^sup>* (reactor_start s0) g"
    and "new_event_loop maxEvents epollFd wakeupFd failed = (shut, Inr s0)"
  shows "el_queued (re_loop g) = el_ran (re_loop g) @ to_run (re_pc g) @ el_pending (re_loop g) \<and>
     (re_pc g = AtWait \<and> (el_pending (re_loop g) \<noteq> [] \<or> el_quit (re_loop g)) \<longrightarrow>
        el_counter (re_loop g) \<noteq> 0 \<or> re_writers g \<noteq> 0) \<and>
     (re_pc g = AtWait \<and> el_counter (re_loop g) \<noteq> 0 \<longrightarrow>
        (\<exists>g'. (reactor_step handler body)\<^sup>*\<^sup>* g g' \<and> re_pc g' = AtCheck \<and> el_ran (re_loop g') = el_queued (re_loop g)))"
proof -
  have inv: "reactor_inv g" using reactor.reached assms by blast
  have "0 < el_maxEvents s0"
    using assms(2) by (auto simp: new_event_loop_def addChannel_def split: if_splits)
  then have events: "0 < el_maxEvents (re_loop g)"
    using max_events_reached [OF assms(1)] by (simp add: reactor_start_def)
  have "\<exists>g'. (reactor_step handler body)\<^sup>*\<^sup>* g g' \<and> re_pc g' = AtCheck \<and> el_ran (re_loop g') = el_queued (re_loop g)"
    if wait: "re_pc g = AtWait" and counter: "el_counter (re_loop g) \<noteq> 0"
  proof -
    have g: "\<lparr> re_pc = AtWait, re_loop = re_loop g, re_writers = re_writers g \<rparr> = g" using wait by simp
    have queued: "el_queued (re_loop g) = el_ran (re_loop g) @ el_pending (re_loop g)"
      using inv wait by (simp add: reactor_inv_def)
    obtain s' where "(reactor_step handler body)\<^sup>*\<^sup>* g \<lparr> re_pc = AtCheck, re_loop = s', re_writers = re_writers g \<rparr>"
      "el_ran s' = el_queued (re_loop g)"
      using wait_runs_pending [OF events counter, of handler body "re_writers g"] unfolding g queued by blast
    then show ?thesis by (metis reactor.select_convs(1,2))
  qed
  moreover have "re_pc g = AtWait \<and> (el_pending (re_loop g) \<noteq> [] \<or> el_quit (re_loop g)) \<longrightarrow>
      el_counter (re_loop g) \<noteq> 0 \<or> re_writers g \<noteq> 0"
    using inv unfolding reactor_inv_def woken_def by auto
  moreover have "el_queued (re_loop g) = el_ran (re_loop g) @ to_run (re_pc g) @ el_pending (re_loop g)"
    using inv by (simp add: reactor_inv_def)
  ultimately show ?thesis by blast
qed

text \<open>A functor that throws, queued by another thread before the loop starts.\<close>

theorem reactor_no_lost_wakeup_witness:
  "\<exists>s0 g g'. new_event_loop 64 3 4 False = ([], Inr s0) \<and>
     (reactor_step (\<lambda>_ _. ([], None)) (\<lambda>_. ([], Some OtherException)))\<^sup>*\<^sup>* (reactor_start s0) g \<and> re_pc g = AtWait \<and>
     (reactor_step (\<lambda>_ _. ([], None)) (\<lambda>_. ([], Some OtherException)))\<^sup>*\<^sup>* g g' \<and> el_ran (re_loop g') = [''log'']"
proof -
  define step :: "string reactor \<Rightarrow> string reactor \<Rightarrow> bool"
    where "step = reactor_step (\<lambda>_ _. ([], None)) (\<lambda>_. ([], Some OtherException))"
  obtain s0 :: "string event_loop" where s0: "new_event_loop 64 3 4 False = ([], Inr s0)"
      "el_counter s0 = 0" "\<not> el_looping s0" "el_queued s0 = []"
    by (simp add: new_event_loop_def addChannel_def)
  define s1 where "s1 = push_functor ''log'' s0"
  define s2 where "s2 = s1\<lparr> el_counter := 1 \<rparr>"
  define g where "g = \<lparr> re_pc = AtWait, re_loop = loop_begin s2, re_writers = 0 \<rparr>"
  have w: "wakeup [Performed] s1 = s2"
    using s0(2) by (simp add: s1_def s2_def push_functor_def EVENTFD_MAX_def)
  have "step (reactor_start s0) \<lparr> re_pc = NotStarted, re_loop = s1, re_writers = Suc 0 \<rparr>"
    unfolding step_def s1_def reactor_start_def by (rule other_push)
  moreover have "step \<lparr> re_pc = NotStarted, re_loop = s1, re_writers = Suc 0 \<rparr>
      \<lparr> re_pc = NotStarted, re_loop = s2, re_writers = 0 \<rparr>"
    unfolding step_def using other_wakes [of _ _ NotStarted s1 0 0] w by simp
  moreover have "step \<lparr> re_pc = NotStarted, re_loop = s2, re_writers = 0 \<rparr>
      \<lparr> re_pc = AtCheck, re_loop = loop_begin s2, re_writers = 0 \<rparr>"
    unfolding step_def using s0(3) by (intro begins) (simp add: s2_def s1_def push_functor_def)
  moreover have "step \<lparr> re_pc = AtCheck, re_loop = loop_begin s2, re_writers = 0 \<rparr> g"
    unfolding step_def g_def by (intro goes_on) (simp add: loop_begin_def)
  ultimately have reach: "step\<^sup>*\<^sup>* (reactor_start s0) g"
    by (meson converse_rtranclp_into_rtranclp r_into_rtranclp)
  have "re_pc g = AtWait \<and> el_counter (re_loop g) \<noteq> 0" "el_queued (re_loop g) = [''log'']"
    using s0(4) by (simp_all add: g_def s2_def s1_def loop_begin_def push_functor_def)
  then show ?thesis
    using reactor_no_lost_wakeup [OF reach [unfolded step_def] s0(1)] s0(1) reach unfolding step_def by metis
qed

end
