(* ===== verification/Acceptor.thy ===== *)
theory Acceptor
  imports Event_Loop "HOL-Library.Multiset"
begin

text \<open>
  The listening socket of the reactor: \<open>include/reactor/Acceptor.h\<close> and
  \<open>src/reactor/Acceptor.cpp\<close>.  The results of the socket calls are parameters; the callback
  for a new client is a function on the state \<open>'s\<close> of the upper layer.  The lemmas account
  for every descriptor the acceptor obtains: it is closed, or handed to the callback.
\<close>

unbundle bit_operations_syntax

record 's acceptor =
  ac_listenFd :: int
  ac_newConnectionCallback :: "(int \<Rightarrow> string \<Rightarrow> 's \<Rightarrow> 's) option"
  ac_closed :: "int list"
  ac_log :: "log_entry list"

definition ntohs :: "u16 \<Rightarrow> u16" where
  "ntohs x = push_bit 8 x OR drop_bit 8 x"

text \<open>What was closed on the way, and the listening descriptor or the exception.\<close>

definition createListeningSocket :: "int \<Rightarrow> int \<Rightarrow> int \<Rightarrow> int \<Rightarrow> int list \<times> int result" where
  "createListeningSocket socketFd reuse bound listening =
     (if socketFd < 0 then ([], Inl (RuntimeError ''Failed to create listening socket''))
      else if reuse < 0 then ([socketFd], Inl (RuntimeError ''Failed to set SO_REUSEADDR''))
      else if bound < 0 then ([socketFd], Inl (RuntimeError ''Failed to bind listening socket''))
      else if listening < 0 then ([socketFd], Inl (RuntimeError ''Failed to listen on socket''))
      else ([], Inr socketFd))"

text \<open>The constructor registers a channel with read and error callbacks; \<open>ctlFailed\<close> is an error of \<open>epoll_ctl\<close>.\<close>

definition new_acceptor ::
    "int \<Rightarrow> int \<Rightarrow> int \<Rightarrow> int \<Rightarrow> bool \<Rightarrow> 'f event_loop \<Rightarrow> int list \<times> ('s acceptor \<times> 'f event_loop) result" where
  "new_acceptor socketFd reuse bound listening ctlFailed eventLoop =
     (case createListeningSocket socketFd reuse bound listening of
        (shut, Inl e) \<Rightarrow> (shut, Inl e)
      | (shut, Inr listenFd) \<Rightarrow>
          (case addChannel ctlFailed (Some (listenFd, EPOLLIN)) eventLoop of
             Inl e \<Rightarrow> (shut @ [listenFd], Inl e)
           | Inr eventLoop \<Rightarrow> (shut, Inr (\<lparr> ac_listenFd = listenFd, ac_newConnectionCallback = None, ac_closed = [],
               ac_log = [] \<rparr>, eventLoop))))"

lemma watched_acceptor:
  "snd (new_acceptor socketFd reuse bound listening failed eventLoop) = Inr (a, eventLoop') \<Longrightarrow>
     ac_listenFd a = socketFd \<and> socketFd \<notin> watched eventLoop \<and> watched eventLoop' = insert socketFd (watched eventLoop)"
  by (auto simp: new_acceptor_def createListeningSocket_def addChannel_def um_simps watched_def split: if_splits)

definition destroy_acceptor :: "bool \<Rightarrow> 's acceptor \<Rightarrow> 'f event_loop \<Rightarrow> 's acceptor \<times> 'f event_loop" where
  "destroy_acceptor ctlFailed a eventLoop =
     (let eventLoop = (case removeChannel ctlFailed (Some (ac_listenFd a, EPOLLIN)) eventLoop of
                         Inl _ \<Rightarrow> eventLoop | Inr l \<Rightarrow> l)
      in (if ac_listenFd a \<ge> 0 then a\<lparr> ac_closed := ac_closed a @ [ac_listenFd a], ac_listenFd := -1 \<rparr> else a, eventLoop))"

definition setNewConnectionCallback :: "(int \<Rightarrow> string \<Rightarrow> 's \<Rightarrow> 's) option \<Rightarrow> 's acceptor \<Rightarrow> 's acceptor" where
  "setNewConnectionCallback callback a = a\<lparr> ac_newConnectionCallback := callback \<rparr>"

definition acceptor_log :: "log_level \<Rightarrow> string \<Rightarrow> 's acceptor \<Rightarrow> 's acceptor" where
  "acceptor_log level msg a = a\<lparr> ac_log := ac_log a @ [(level, msg)] \<rparr>"

definition close_client :: "int \<Rightarrow> 's acceptor \<Rightarrow> 's acceptor" where
  "close_client fd a = a\<lparr> ac_closed := ac_closed a @ [fd] \<rparr>"

definition acceptor_error :: "'s acceptor \<Rightarrow> 's acceptor" where
  "acceptor_error a = acceptor_log Error (''Listening socket error: fd='' @ dec_int (ac_listenFd a)) a"

text \<open>
  The results of \<open>accept4\<close> in one event: a client with its address as \<open>inet_ntop\<close> writes it,
  \<open>None\<close> when that fails, and its port in network order; or an error by its \<open>errno\<close>.
\<close>

datatype client_result = Client int "string option" u16 | ClientInterrupted | NoMoreClients | ClientFailed

fun handleAccept :: "client_result list \<Rightarrow> 's acceptor \<times> 's \<Rightarrow> 's acceptor \<times> 's" where
  "handleAccept [] (a, s) = (a, s)"
| "handleAccept (ClientInterrupted # rs) (a, s) = handleAccept rs (a, s)"
| "handleAccept (NoMoreClients # rs) (a, s) = (a, s)"
| "handleAccept (ClientFailed # rs) (a, s) = (acceptor_log Error ''accept4 failed'' a, s)"
| "handleAccept (Client clientFd ip port # rs) (a, s) =
     handleAccept rs
       (case ip of
          None \<Rightarrow> (close_client clientFd (acceptor_log Error ''Failed to parse client IP'' a), s)
        | Some clientIp \<Rightarrow>
            let clientName = clientIp @ '':'' @ dec (unat (ntohs port))
            in case ac_newConnectionCallback a of
                 Some callback \<Rightarrow> (a, callback clientFd clientName s)
               | None \<Rightarrow> (close_client clientFd
                   (acceptor_log Warning ''Accepted client but no new-connection callback is registered'' a), s))"

text \<open>The descriptors accepted in one event.\<close>

fun accepted_fds :: "client_result list \<Rightarrow> int list" where
  "accepted_fds [] = []"
| "accepted_fds (ClientInterrupted # rs) = accepted_fds rs"
| "accepted_fds (NoMoreClients # rs) = []"
| "accepted_fds (ClientFailed # rs) = []"
| "accepted_fds (Client clientFd ip port # rs) = clientFd # accepted_fds rs"

lemma listening_socket_accounted:
  "createListeningSocket socketFd reuse bound listening = (shut, r) \<Longrightarrow> 0 \<le> socketFd \<Longrightarrow>
     (shut = [] \<and> r = Inr socketFd) \<or> (shut = [socketFd] \<and> (\<exists>e. r = Inl e))"
  by (auto simp: createListeningSocket_def split: if_splits)

section \<open>The contract with the upper layer\<close>

text \<open>
  The callback for new clients answers for the descriptor it is given: \<open>owned\<close> counts the
  descriptors the upper layer holds or has closed.  Then an event adds exactly the
  descriptors accepted in it, whether the acceptor closes them or hands them on.
\<close>

locale connection_owner =
  fixes new_connection :: "int \<Rightarrow> string \<Rightarrow> 's \<Rightarrow> 's"
    and ok :: "'s \<Rightarrow> bool"
    and owned :: "'s \<Rightarrow> int multiset"
  assumes takes: "ok s \<Longrightarrow> owned (new_connection fd name s) = add_mset fd (owned s)"
    and keeps: "ok s \<Longrightarrow> ok (new_connection fd name s)"
begin

lemma accounts:
  assumes "ac_newConnectionCallback a = Some new_connection" and "ok s" and "handleAccept rs (a, s) = (a', s')"
  shows "ac_newConnectionCallback a' = Some new_connection \<and> ok s' \<and>
     mset (ac_closed a') + owned s' = mset (accepted_fds rs) + mset (ac_closed a) + owned s"
  using assms
proof (induction rs "(a, s)" arbitrary: a s rule: handleAccept.induct)
  case (5 clientFd ip port rs a s)
  show ?case
  proof (cases ip)
    case None
    with 5 show ?thesis by (simp add: close_client_def acceptor_log_def)
  next
    case (Some clientIp)
    with 5 takes keeps show ?thesis by (simp add: Let_def)
  qed
qed (auto simp: acceptor_log_def)

end

end
