(* ===== verification/Timer_Fd.thy ===== *)
theory Timer_Fd
  imports Num_Text
begin

text \<open>
  The periodic timer: \<open>include/timer/TimerFd.h\<close> and \<open>src/timer/TimerFd.cpp\<close>.  The state is that
  of the kernel's timer as the calls leave it: whether it is armed and how often it expired
  since it was last read or set.  Errors of the system calls are parameters with the text of
  \<open>strerror\<close>.
\<close>

record timer =
  tf_fd :: int
  tf_interval :: "u32 option"
  tf_expirations :: u64
  tf_closed :: "int list"

definition new_timer :: "int \<Rightarrow> string \<Rightarrow> timer result" where
  "new_timer fd err =
     (if fd < 0 then Inl (RuntimeError (''Failed to create timerfd: '' @ err))
      else Inr \<lparr> tf_fd = fd, tf_interval = None, tf_expirations = 0, tf_closed = [] \<rparr>)"

definition destroy_timer :: "timer \<Rightarrow> timer" where
  "destroy_timer t = (if tf_fd t \<ge> 0 then t\<lparr> tf_closed := tf_closed t @ [tf_fd t] \<rparr> else t)"

text \<open>\<open>failed\<close> is the error of \<open>timerfd_settime\<close>, if any.\<close>

definition timer_start :: "string option \<Rightarrow> u32 \<Rightarrow> timer \<Rightarrow> timer result" where
  "timer_start failed intervalSeconds t =
     ebind (throw_if (intervalSeconds = 0) (InvalidArgument ''Timer interval cannot be zero'')) (\<lambda>_.
     case failed of
       Some err \<Rightarrow> Inl (RuntimeError (''Failed to start timerfd: '' @ err))
     | None \<Rightarrow> Inr (t\<lparr> tf_interval := Some intervalSeconds, tf_expirations := 0 \<rparr>))"

definition timer_stop :: "string option \<Rightarrow> timer \<Rightarrow> timer" where
  "timer_stop failed t =
     (case failed of Some _ \<Rightarrow> t | None \<Rightarrow> t\<lparr> tf_interval := None, tf_expirations := 0 \<rparr>)"

lemma timer_fds:
  "new_timer fd err = Inr t \<Longrightarrow> tf_fd t = fd" "timer_start failed n t = Inr t' \<Longrightarrow> tf_fd t' = tf_fd t"
  "tf_fd (timer_stop failed t) = tf_fd t"
  by (auto simp: new_timer_def timer_start_def timer_stop_def result_simps split: if_splits option.splits)

text \<open>
  The passing of an interval, and reading: the kernel gives the number of expirations and
  resets it, or fails with \<open>EAGAIN\<close> when there is none, which the code turns into zero.
\<close>

definition timer_expires :: "timer \<Rightarrow> timer" where
  "timer_expires t = (if tf_interval t = None then t else t\<lparr> tf_expirations := tf_expirations t + 1 \<rparr>)"

definition readExpirationCount :: "string option \<Rightarrow> timer \<Rightarrow> timer \<times> u64 result" where
  "readExpirationCount failed t =
     (case failed of
        Some err \<Rightarrow> (t, Inl (RuntimeError (''Failed to read timerfd: '' @ err)))
      | None \<Rightarrow> if tf_expirations t = 0 then (t, Inr 0) else (t\<lparr> tf_expirations := 0 \<rparr>, Inr (tf_expirations t)))"

text \<open>The descriptor is readable while there are expirations; only a read or a new setting ends that.\<close>

definition timer_readable :: "timer \<Rightarrow> bool" where
  "timer_readable t \<longleftrightarrow> tf_expirations t \<noteq> 0"

lemma read_makes_unreadable: "\<not> timer_readable (fst (readExpirationCount None t))"
  by (simp add: readExpirationCount_def timer_readable_def)

lemma expirations_counted:
  assumes "timer_start None n t = Inr t'" and "k < 2 ^ 64"
  shows "snd (readExpirationCount None ((timer_expires ^^ k) t')) = Inr (word_of_nat k)"
proof -
  have "(timer_expires ^^ k) t' = t'\<lparr> tf_expirations := word_of_nat k \<rparr>"
    using assms(1) by (induction k) (auto simp: timer_start_def timer_expires_def result_simps)
  then show ?thesis by (simp add: readExpirationCount_def)
qed

end
