(* ===== verification/Http_Response.thy ===== *)
theory Http_Response
  imports Num_Text
begin

text \<open>
  The responses of the HTTP interface: \<open>include/http/HttpResponse.h\<close> and
  \<open>src/http/HttpResponse.cpp\<close>.  A client that reads to the first empty line finds the
  length of the body there and exactly the body after it.
\<close>

definition build :: "int \<Rightarrow> string \<Rightarrow> string \<Rightarrow> string \<Rightarrow> string" where
  "build statusCode statusText contentType body =
     ''HTTP/1.1 '' @ dec_int statusCode @ '' '' @ statusText @ crlf @
     ''Content-Type: '' @ contentType @ crlf @
     ''Content-Length: '' @ dec (length body) @ crlf @
     ''Connection: close'' @ crlf @
     ''Cache-Control: no-cache'' @ crlf @
     crlf @
     body"

definition okJson :: "string \<Rightarrow> string" where
  "okJson body = build 200 ''OK'' ''application/json; charset=utf-8'' body"

definition okHtml :: "string \<Rightarrow> string" where
  "okHtml body = build 200 ''OK'' ''text/html; charset=utf-8'' body"

definition notFound :: string where
  "notFound = build 404 ''Not Found'' ''application/json; charset=utf-8'' ''{\"error\":\"not found\"}''"

definition badRequest :: string where
  "badRequest = build 400 ''Bad Request'' ''application/json; charset=utf-8'' ''{\"error\":\"bad request\"}''"

definition internalServerError :: string where
  "internalServerError = build 500 ''Internal Server Error'' ''application/json; charset=utf-8''
     ''{\"error\":\"internal server error\"}''"

section \<open>Reading a response\<close>

text \<open>The lines up to the first empty one, each ended by CR LF, and what comes after it.\<close>

fun split_line :: "string \<Rightarrow> (string \<times> string) option" where
  "split_line [] = None"
| "split_line (c # s) =
     (if c = cr \<and> s \<noteq> [] \<and> hd s = nl then Some ([], tl s)
      else map_option (\<lambda>(l, r). (c # l, r)) (split_line s))"

lemma split_line_shorter: "split_line s = Some (l, r) \<Longrightarrow> length r < length s"
  by (induction s arbitrary: l r rule: split_line.induct) (fastforce split: if_splits)+

function read_head :: "string \<Rightarrow> (string list \<times> string) option" where
  "read_head s = (case split_line s of
     None \<Rightarrow> None
   | Some (l, r) \<Rightarrow> if l = [] then Some ([], r) else map_option (\<lambda>(ls, b). (l # ls, b)) (read_head r))"
  by pat_completeness auto
termination
  by (relation "measure length") (auto dest: split_line_shorter)

declare read_head.simps [simp del]

lemma split_line_append: "cr \<notin> set l \<Longrightarrow> split_line (l @ cr # nl # r) = Some (l, r)"
  by (induction l) auto

lemma read_head_line:
  "cr \<notin> set l \<Longrightarrow> l \<noteq> [] \<Longrightarrow> read_head (l @ cr # nl # r) = map_option (\<lambda>(ls, b). (l # ls, b)) (read_head r)"
  by (subst read_head.simps) (simp add: split_line_append)

lemma read_head_end: "read_head (cr # nl # r) = Some ([], r)"
  by (subst read_head.simps) simp

lemma cr_dec [simp]: "cr \<notin> set (dec n)" "cr \<notin> set (dec_int i)"
  by (auto simp: dec_int_def dest!: dec_digits split: if_splits)

lemma read_head_build:
  assumes "cr \<notin> set st" and "cr \<notin> set ct"
  shows "read_head (build code st ct body) =
    Some ([''HTTP/1.1 '' @ dec_int code @ '' '' @ st, ''Content-Type: '' @ ct,
           ''Content-Length: '' @ dec (length body), ''Connection: close'', ''Cache-Control: no-cache''], body)"
proof -
  have eq: "build code st ct body =
      (''HTTP/1.1 '' @ dec_int code @ '' '' @ st) @ cr # nl # ((''Content-Type: '' @ ct) @ cr # nl #
      ((''Content-Length: '' @ dec (length body)) @ cr # nl # (''Connection: close'' @ cr # nl #
      (''Cache-Control: no-cache'' @ cr # nl # cr # nl # body))))"
    by (simp add: build_def)
  show ?thesis
    unfolding eq using assms
    by (subst read_head_line, simp, simp)+ (simp add: read_head_end)
qed

definition head_of :: "string \<Rightarrow> string \<Rightarrow> string \<Rightarrow> string list" where
  "head_of status ct body = [''HTTP/1.1 '' @ status, ''Content-Type: '' @ ct,
     ''Content-Length: '' @ dec (length body), ''Connection: close'', ''Cache-Control: no-cache'']"

text \<open>
  C37: every response of the server, whatever its body, has a head of five lines ended by the
  first empty line, which gives the number of bytes that follow as the content length.
\<close>

theorem response_framing:
  "read_head (okJson body) = Some (head_of (dec_int 200 @ '' OK'') ''application/json; charset=utf-8'' body, body) \<and>
   read_head (okHtml body) = Some (head_of (dec_int 200 @ '' OK'') ''text/html; charset=utf-8'' body, body) \<and>
   (\<exists>b. read_head notFound = Some (head_of (dec_int 404 @ '' Not Found'') ''application/json; charset=utf-8'' b, b)) \<and>
   (\<exists>b. read_head badRequest = Some (head_of (dec_int 400 @ '' Bad Request'') ''application/json; charset=utf-8'' b, b)) \<and>
   (\<exists>b. read_head internalServerError =
      Some (head_of (dec_int 500 @ '' Internal Server Error'') ''application/json; charset=utf-8'' b, b))"
  unfolding okJson_def okHtml_def notFound_def badRequest_def internalServerError_def
  by (simp add: read_head_build head_of_def)

end
