(* ===== verification/Json.thy ===== *)
theory Json
  imports Num_Text
begin

text \<open>
  A reader of JSON texts (RFC 8259, without white space between the tokens), for the clients
  of the HTTP interface, and the texts it reads back.  \<open>src/http/HttpServer.cpp\<close> writes its
  bodies by hand; what it writes is compared with this reader.  The function \<open>jsonEscape\<close> is
  the server's.
\<close>

section \<open>Escaping\<close>

fun jsonEscape :: "string \<Rightarrow> string" where
  "jsonEscape [] = []"
| "jsonEscape (c # value) =
     (if c = CHR 0x5C then [CHR 0x5C, CHR 0x5C]
      else if c = CHR 0x22 then [CHR 0x5C, CHR 0x22]
      else if c = nl then [CHR 0x5C, CHR ''n'']
      else if c = cr then [CHR 0x5C, CHR ''r'']
      else if c = tab then [CHR 0x5C, CHR ''t'']
      else [c]) @ jsonEscape value"

section \<open>Values and their texts\<close>

text \<open>Numbers are kept as their texts.\<close>

datatype json =
    JStr string
  | JNum string
  | JObj "(string \<times> json) list"
  | JArr "json list"

text \<open>The loops of the server that put a comma before every element but the first.\<close>

fun comma_items :: "bool \<Rightarrow> string list \<Rightarrow> string" where
  "comma_items first [] = []"
| "comma_items first (item # items) = (if first then [] else '','') @ item @ comma_items False items"

definition quoted :: "string \<Rightarrow> string" where
  "quoted s = [CHR 0x22] @ jsonEscape s @ [CHR 0x22]"

fun render :: "json \<Rightarrow> string" where
  "render (JStr s) = quoted s"
| "render (JNum n) = n"
| "render (JObj kvs) = ''{'' @ comma_items True (map (\<lambda>(k, v). quoted k @ '':'' @ render v) kvs) @ ''}''"
| "render (JArr vs) = ''['' @ comma_items True (map render vs) @ '']''"

section \<open>Reading\<close>

definition is_control :: "char \<Rightarrow> bool" where
  "is_control c \<longleftrightarrow> (of_char c :: nat) < 32"

text \<open>The rest of a string literal after its opening quote; control characters must be escaped.\<close>

fun read_string :: "string \<Rightarrow> (string \<times> string) option" where
  "read_string (c # s) =
     (if c = CHR 0x22 then Some ([], s)
      else if c = CHR 0x5C then
        (case s of
           [] \<Rightarrow> None
         | e # s' \<Rightarrow>
             (case (if e = CHR 0x5C then Some e else if e = CHR 0x22 then Some e
                    else if e = CHR ''/'' then Some e
                    else if e = CHR ''n'' then Some nl else if e = CHR ''r'' then Some cr
                    else if e = CHR ''t'' then Some tab else if e = CHR ''b'' then Some (CHR 0x08)
                    else if e = CHR ''f'' then Some (CHR 0x0C) else None) of
                None \<Rightarrow> None
              | Some d \<Rightarrow> map_option (\<lambda>(t, r). (d # t, r)) (read_string s')))
      else if is_control c then None
      else map_option (\<lambda>(t, r). (c # t, r)) (read_string s))"
| "read_string [] = None"

definition json_exponent :: "string \<Rightarrow> bool" where
  "json_exponent s \<longleftrightarrow> (case s of
     [] \<Rightarrow> True
   | c # r \<Rightarrow> (c = CHR ''e'' \<or> c = CHR ''E'') \<and>
       (let ds = (case r of [] \<Rightarrow> [] | x # xs \<Rightarrow> if x = CHR ''+'' \<or> x = CHR ''-'' then xs else r)
        in ds \<noteq> [] \<and> list_all is_digit ds))"

definition json_fraction :: "string \<Rightarrow> bool" where
  "json_fraction s \<longleftrightarrow> (case s of
     [] \<Rightarrow> True
   | c # r \<Rightarrow> if c = CHR ''.''
              then takeWhile is_digit r \<noteq> [] \<and> json_exponent (dropWhile is_digit r)
              else json_exponent s)"

definition json_number :: "string \<Rightarrow> bool" where
  "json_number s =
     (let t = (case s of [] \<Rightarrow> [] | c # r \<Rightarrow> if c = CHR ''-'' then r else s);
          ds = takeWhile is_digit t
      in ds \<noteq> [] \<and> (hd ds = CHR ''0'' \<longrightarrow> length ds = 1) \<and> json_fraction (dropWhile is_digit t))"

definition is_number_char :: "char \<Rightarrow> bool" where
  "is_number_char c \<longleftrightarrow> is_digit c \<or> c \<in> {CHR ''-'', CHR ''+'', CHR ''.'', CHR ''e'', CHR ''E''}"

definition read_number :: "string \<Rightarrow> (json \<times> string) option" where
  "read_number s =
     (let n = takeWhile is_number_char s
      in if json_number n then Some (JNum n, dropWhile is_number_char s) else None)"

text \<open>The fuel bounds the nesting and the length of what is read.\<close>

fun read_value :: "nat \<Rightarrow> string \<Rightarrow> (json \<times> string) option"
  and read_items :: "nat \<Rightarrow> string \<Rightarrow> (json list \<times> string) option"
  and read_members :: "nat \<Rightarrow> string \<Rightarrow> ((string \<times> json) list \<times> string) option" where
  "read_value 0 s = None"
| "read_value (Suc n) [] = None"
| "read_value (Suc n) (c # s) =
     (if c = CHR 0x22 then map_option (\<lambda>(t, r). (JStr t, r)) (read_string s)
      else if c = CHR ''['' then
        (if s \<noteq> [] \<and> hd s = CHR '']'' then Some (JArr [], tl s)
         else map_option (\<lambda>(vs, r). (JArr vs, r)) (read_items n s))
      else if c = CHR ''{'' then
        (if s \<noteq> [] \<and> hd s = CHR ''}'' then Some (JObj [], tl s)
         else map_option (\<lambda>(kvs, r). (JObj kvs, r)) (read_members n s))
      else read_number (c # s))"
| "read_items 0 s = None"
| "read_items (Suc n) s = (case read_value n s of
     Some (v, c # r) \<Rightarrow>
       if c = CHR '','' then map_option (\<lambda>(vs, r'). (v # vs, r')) (read_items n r)
       else if c = CHR '']'' then Some ([v], r) else None
   | _ \<Rightarrow> None)"
| "read_members 0 s = None"
| "read_members (Suc n) s = (case s of
     [] \<Rightarrow> None
   | q # s' \<Rightarrow>
       if q \<noteq> CHR 0x22 then None
       else (case read_string s' of
          Some (k, col # s'') \<Rightarrow>
            if col \<noteq> CHR '':'' then None
            else (case read_value n s'' of
               Some (v, c # r) \<Rightarrow>
                 if c = CHR '','' then map_option (\<lambda>(kvs, r'). ((k, v) # kvs, r')) (read_members n r)
                 else if c = CHR ''}'' then Some ([(k, v)], r) else None
             | _ \<Rightarrow> None)
        | _ \<Rightarrow> None))"

definition parses_to :: "string \<Rightarrow> json \<Rightarrow> bool" where
  "parses_to s j \<longleftrightarrow> (\<exists>N. \<forall>n \<ge> N. read_value n s = Some (j, []))"

section \<open>Reading back what was written\<close>

text \<open>A string the server's escape covers: its other characters are not control characters.\<close>

definition escapable :: "string \<Rightarrow> bool" where
  "escapable s \<longleftrightarrow> (\<forall>c \<in> set s. c \<in> {nl, cr, tab} \<or> \<not> is_control c)"

lemma read_jsonEscape:
  "escapable s \<Longrightarrow> read_string (jsonEscape s @ CHR 0x22 # rest) = Some (s, rest)"
  by (induction s rule: jsonEscape.induct) (auto simp: escapable_def is_control_def)

fun json_ok :: "json \<Rightarrow> bool" where
  "json_ok (JStr s) = escapable s"
| "json_ok (JNum n) = (json_number n \<and> list_all is_number_char n)"
| "json_ok (JObj kvs) = list_all (\<lambda>(k, v). escapable k \<and> json_ok v) kvs"
| "json_ok (JArr vs) = list_all json_ok vs"

text \<open>What may follow a value inside a text.\<close>

definition ends_value :: "string \<Rightarrow> bool" where
  "ends_value rest \<longleftrightarrow> rest = [] \<or> hd rest \<in> {CHR '','', CHR '']'', CHR ''}''}"

lemma read_quoted: "escapable s \<Longrightarrow> read_string (tl (quoted s) @ rest) = Some (s, rest)"
  using read_jsonEscape [of s rest] by (simp add: quoted_def)

lemma quoted_Cons: "quoted s = CHR 0x22 # tl (quoted s)"
  by (simp add: quoted_def)

lemma number_char_not_punct:
  "is_number_char c \<Longrightarrow> c \<notin> {CHR 0x22, CHR ''['', CHR ''{'', CHR '']'', CHR ''}'', CHR '',''}"
  by (auto simp: is_number_char_def is_digit_def)

lemma json_number_Cons: "json_number n \<Longrightarrow> n \<noteq> []"
  by (auto simp: json_number_def)

lemma render_head:
  assumes "json_ok v"
  shows "\<exists>c s. render v = c # s \<and> c \<noteq> CHR '']'' \<and> c \<noteq> CHR ''}''"
proof (cases v)
  case (JNum n)
  with assms have "n \<noteq> []" "is_number_char (hd n)" by (auto simp: json_number_Cons list_all_def)
  with JNum number_char_not_punct [of "hd n"] show ?thesis by (cases n) auto
qed (auto simp: quoted_def)

lemma read_number_ok:
  assumes "json_number n" and "list_all is_number_char n" and "ends_value rest"
  shows "read_number (n @ rest) = Some (JNum n, rest)"
proof -
  have "rest = [] \<or> \<not> is_number_char (hd rest)"
    using assms(3) by (auto simp: ends_value_def is_number_char_def is_digit_def)
  with assms(1,2) takeWhile_digits [of n is_number_char rest] show ?thesis
    by (simp add: read_number_def list_all_iff)
qed

lemma eventually_Suc:
  assumes "eventually P sequentially" and "\<And>n. P n \<Longrightarrow> Q (Suc n)"
  shows "eventually Q sequentially"
proof -
  from assms(1) obtain N where N: "\<And>n. N \<le> n \<Longrightarrow> P n" by (auto simp: eventually_sequentially)
  have "Q n" if "Suc N \<le> n" for n
    using that assms(2) [OF N [of "n - 1"]] by (cases n) auto
  then show ?thesis by (auto simp: eventually_sequentially)
qed

text \<open>The elements of an array and the members of an object, given their values can be read.\<close>

definition reads :: "json \<Rightarrow> bool" where
  "reads v \<longleftrightarrow> (\<forall>rest. ends_value rest \<longrightarrow>
     eventually (\<lambda>n. read_value n (render v @ rest) = Some (v, rest)) sequentially)"

lemma read_items_ok:
  assumes "list_all reads vs" and "vs \<noteq> []"
  shows "eventually (\<lambda>n. read_items n (comma_items True (map render vs) @ CHR '']'' # rest) = Some (vs, rest)) sequentially"
  using assms
proof (induction vs)
  case (Cons v vs)
  show ?case
  proof (cases vs)
    case Nil
    have "eventually (\<lambda>n. read_value n (render v @ CHR '']'' # rest) = Some (v, CHR '']'' # rest)) sequentially"
      using Cons.prems by (auto simp: reads_def ends_value_def)
    then show ?thesis by (rule eventually_Suc) (simp add: Nil)
  next
    case (Cons w ws)
    define tail where "tail = comma_items True (map render vs) @ CHR '']'' # rest"
    have eq: "comma_items True (map render (v # vs)) @ CHR '']'' # rest = render v @ CHR '','' # tail"
      by (simp add: tail_def Cons)
    have "eventually (\<lambda>n. read_value n (render v @ CHR '','' # tail) = Some (v, CHR '','' # tail)) sequentially"
      using Cons.prems by (auto simp: reads_def ends_value_def)
    moreover have "eventually (\<lambda>n. read_items n tail = Some (vs, rest)) sequentially"
      using Cons.IH Cons.prems Cons by (simp add: tail_def)
    ultimately have "eventually (\<lambda>n. read_value n (render v @ CHR '','' # tail) = Some (v, CHR '','' # tail) \<and>
        read_items n tail = Some (vs, rest)) sequentially" by (rule eventually_conj)
    then show ?thesis by (rule eventually_Suc) (simp only: eq, simp)
  qed
qed simp

lemma read_members_ok:
  assumes "list_all (\<lambda>(k, v). escapable k \<and> reads v) kvs" and "kvs \<noteq> []"
  shows "eventually (\<lambda>n. read_members n (comma_items True (map (\<lambda>(k, v). quoted k @ '':'' @ render v) kvs) @ CHR ''}'' # rest)
           = Some (kvs, rest)) sequentially"
  using assms
proof (induction kvs)
  case (Cons kv kvs)
  obtain k v where kv: "kv = (k, v)" by (cases kv)
  have k: "escapable k" and v: "reads v" using Cons.prems by (simp_all add: kv)
  have member: "read_members (Suc n) (quoted k @ CHR '':'' # t) = (case read_value n t of
                 Some (v, c # r) \<Rightarrow>
                   if c = CHR '','' then map_option (\<lambda>(kvs, r'). ((k, v) # kvs, r')) (read_members n r)
                   else if c = CHR ''}'' then Some ([(k, v)], r) else None
               | _ \<Rightarrow> None)" for n t
    using read_quoted [OF k, of "CHR '':'' # t"] by (subst quoted_Cons) simp
  show ?case
  proof (cases kvs)
    case Nil
    have "eventually (\<lambda>n. read_value n (render v @ CHR ''}'' # rest) = Some (v, CHR ''}'' # rest)) sequentially"
      using v by (auto simp: reads_def ends_value_def)
    moreover have eq: "comma_items True (map (\<lambda>(k, v). quoted k @ '':'' @ render v) (kv # kvs)) @ CHR ''}'' # rest =
        quoted k @ CHR '':'' # (render v @ CHR ''}'' # rest)"
      by (simp add: Nil kv)
    ultimately show ?thesis by (elim eventually_Suc) (simp only: eq member, simp add: kv Nil)
  next
    case (Cons w ws)
    define tail where "tail = comma_items True (map (\<lambda>(k, v). quoted k @ '':'' @ render v) kvs) @ CHR ''}'' # rest"
    have eq: "comma_items True (map (\<lambda>(k, v). quoted k @ '':'' @ render v) (kv # kvs)) @ CHR ''}'' # rest =
        quoted k @ CHR '':'' # (render v @ CHR '','' # tail)"
      by (simp add: tail_def Cons kv split: prod.split)
    have "eventually (\<lambda>n. read_value n (render v @ CHR '','' # tail) = Some (v, CHR '','' # tail)) sequentially"
      using v by (auto simp: reads_def ends_value_def)
    moreover have "eventually (\<lambda>n. read_members n tail = Some (kvs, rest)) sequentially"
      using Cons.IH Cons.prems Cons by (simp add: tail_def)
    ultimately have "eventually (\<lambda>n. read_value n (render v @ CHR '','' # tail) = Some (v, CHR '','' # tail) \<and>
        read_members n tail = Some (kvs, rest)) sequentially" by (rule eventually_conj)
    then show ?thesis by (rule eventually_Suc) (simp only: eq member, simp add: kv)
  qed
qed simp

lemma reads_value: "json_ok j \<Longrightarrow> reads j"
proof (induction j)
  case (JStr s)
  show ?case unfolding reads_def
  proof (intro allI impI)
    fix rest
    have "eventually (\<lambda>n :: nat. True) sequentially" by simp
    then show "eventually (\<lambda>n. read_value n (render (JStr s) @ rest) = Some (JStr s, rest)) sequentially"
      using JStr read_quoted [of s rest] by (rule_tac eventually_Suc) (simp_all, subst quoted_Cons, simp)
  qed
next
  case (JNum n)
  show ?case unfolding reads_def
  proof (intro allI impI)
    fix rest assume "ends_value rest"
    with JNum read_number_ok have r: "read_number (n @ rest) = Some (JNum n, rest)" by simp
    obtain c t where n: "n = c # t" using JNum json_number_Cons by (cases n) auto
    have c: "is_number_char c" using JNum n by simp
    have "eventually (\<lambda>n :: nat. True) sequentially" by simp
    then show "eventually (\<lambda>k. read_value k (render (JNum n) @ rest) = Some (JNum n, rest)) sequentially"
      by (rule eventually_Suc) (use r number_char_not_punct [OF c] in \<open>simp add: n\<close>)
  qed
next
  case (JObj kvs)
  show ?case unfolding reads_def
  proof (intro allI impI)
    fix rest
    have "list_all (\<lambda>(k, v). escapable k \<and> reads v) kvs"
      using JObj by (fastforce simp: list_all_iff)
    from read_members_ok [OF this, of rest]
    show "eventually (\<lambda>n. read_value n (render (JObj kvs) @ rest) = Some (JObj kvs, rest)) sequentially"
    proof (cases kvs)
      case Nil
      have "eventually (\<lambda>n :: nat. True) sequentially" by simp
      then show ?thesis by (rule eventually_Suc) (simp add: Nil)
    next
      case (Cons kv kvs')
      obtain s where "comma_items True (map (\<lambda>(k, v). quoted k @ '':'' @ render v) kvs) = CHR 0x22 # s"
        by (cases kv) (simp add: Cons quoted_def)
      then show ?thesis
        using \<open>kvs \<noteq> [] \<Longrightarrow> _\<close> Cons by (auto elim!: eventually_Suc)
    qed
  qed
next
  case (JArr vs)
  show ?case unfolding reads_def
  proof (intro allI impI)
    fix rest
    have "list_all reads vs" using JArr by (simp add: list_all_iff)
    note items = read_items_ok [OF this, of rest]
    show "eventually (\<lambda>n. read_value n (render (JArr vs) @ rest) = Some (JArr vs, rest)) sequentially"
    proof (cases vs)
      case Nil
      have "eventually (\<lambda>n :: nat. True) sequentially" by simp
      then show ?thesis by (rule eventually_Suc) (simp add: Nil)
    next
      case (Cons v vs')
      obtain c s where "render v = c # s" "c \<noteq> CHR '']''"
        using render_head [of v] JArr.prems Cons by auto
      with items Cons show ?thesis by (auto elim!: eventually_Suc)
    qed
  qed
qed

lemma render_parses: "json_ok j \<Longrightarrow> parses_to (render j) j"
  using reads_value [of j] by (auto simp: reads_def ends_value_def parses_to_def eventually_sequentially)

section \<open>Printed numbers\<close>

lemma dec_head: "hd (dec n) = CHR ''0'' \<longleftrightarrow> n = 0"
proof (induction n rule: dec.induct)
  case (1 n)
  have "digit d = CHR ''0'' \<longleftrightarrow> d = 0" if "d < 10" for d
    using that digit_val_digit [OF that] by (auto simp: digit_def char_of_def digit_val_def bit_0)
  with 1 show ?case
    by (subst dec.simps) (auto simp: hd_append)
qed

lemma strip_zeros_subset: "set (strip_zeros s) \<subseteq> set s"
  by (auto simp: strip_zeros_def dest: set_dropWhileD)

lemma json_number_parts:
  assumes ip: "ip \<noteq> []" "list_all is_digit ip" "hd ip = CHR ''0'' \<Longrightarrow> length ip = 1"
    and fs: "list_all is_digit fs"
    and ex: "ex = [] \<or> (\<exists>sg ds. ex = CHR ''e'' # sg # ds \<and> sg \<in> {CHR ''+'', CHR ''-''} \<and> ds \<noteq> [] \<and> list_all is_digit ds)"
  shows "json_number (show_sign s @ ip @ point_string fs @ ex) \<and>
         list_all is_number_char (show_sign s @ ip @ point_string fs @ ex)"
proof -
  define t where "t = point_string fs @ ex"
  have e: "ex = [] \<or> \<not> is_digit (hd ex)" using ex by (auto simp: is_digit_def)
  have "t = [] \<or> \<not> is_digit (hd t)" using e by (auto simp: t_def point_string_def is_digit_def)
  with ip takeWhile_digits [of ip is_digit t]
  have tw: "takeWhile is_digit (ip @ t) = ip" "dropWhile is_digit (ip @ t) = t"
    by (auto simp: list_all_iff)
  have "json_exponent ex" using ex by (auto simp: json_exponent_def list_all_iff)
  then have "json_fraction t"
    using fs e ex takeWhile_digits [of fs is_digit ex]
    by (auto simp: t_def point_string_def json_fraction_def list_all_iff split: list.split)
  moreover have "hd ip \<noteq> CHR ''-''" using ip(1,2) by (cases ip) (auto simp: is_digit_def)
  ultimately have "json_number (show_sign s @ ip @ t)"
    using ip tw by (cases ip) (auto simp: json_number_def show_sign_def Let_def)
  moreover have "list_all is_number_char (show_sign s @ ip @ t)"
    using ip(2) fs ex by (auto simp: t_def list_all_iff show_sign_def point_string_def is_number_char_def)
  ultimately show ?thesis by (simp add: t_def)
qed

lemma digits_take_dec:
  "list_all is_digit (take k (dec n))" "list_all is_digit (drop k (dec n))" "list_all is_digit (dec n)"
  by (auto simp: list_all_iff dest: dec_digits in_set_takeD in_set_dropD)

lemma digits_strip: "list_all is_digit ds \<Longrightarrow> list_all is_digit (strip_zeros ds)"
  using strip_zeros_subset [of ds] by (auto simp: list_all_iff)

lemma take_dec_head: "hd (take (Suc k) (dec n)) = CHR ''0'' \<Longrightarrow> length (take (Suc k) (dec n)) = 1"
proof -
  assume "hd (take (Suc k) (dec n)) = CHR ''0''"
  then have "n = 0" using dec_head [of n] by (cases "dec n") auto
  then show ?thesis by (subst dec.simps) simp
qed

lemma json_number_g_text: "json_number (show_sign s @ g_text m e) \<and> list_all is_number_char (show_sign s @ g_text m e)"
proof -
  define ds where "ds = dec m"
  define x where "x = nat \<bar>e\<bar>"
  have text_eq: "g_text m e =
      (if -4 \<le> e \<and> e < 6 then
         if 0 \<le> e then take (nat e + 1) ds @ point_string (strip_zeros (drop (nat e + 1) ds))
         else ''0'' @ point_string (strip_zeros (replicate (nat (- e) - 1) CHR ''0'' @ ds))
       else take 1 ds @ point_string (strip_zeros (drop 1 ds)) @
            (if e < 0 then ''e-'' else ''e+'') @ (if x < 10 then pad_dec 2 x else dec x))"
    unfolding g_text_def Let_def ds_def x_def by (rule refl)
  have zeros: "list_all is_digit (replicate k CHR ''0'' @ ds)" for k
    using digits_take_dec(3) [of m] by (auto simp: list_all_iff ds_def is_digit_def)
  define xs where "xs = (if x < 10 then pad_dec 2 x else dec x)"
  have xs: "xs \<noteq> []" "list_all is_digit xs"
    by (auto simp: xs_def list_all_iff dest: dec_digits pad_dec_digits arg_cong [where f = length and x = "pad_dec 2 x"])
  consider (int) "-4 \<le> e \<and> e < 6" "0 \<le> e" | (small) "-4 \<le> e \<and> e < 6" "e < 0" | (sci) "\<not> (-4 \<le> e \<and> e < 6)"
    by linarith
  then show ?thesis
  proof cases
    case int
    have "json_number (show_sign s @ take (Suc (nat e)) ds @ point_string (strip_zeros (drop (Suc (nat e)) ds)) @ []) \<and>
      list_all is_number_char (show_sign s @ take (Suc (nat e)) ds @ point_string (strip_zeros (drop (Suc (nat e)) ds)) @ [])"
      unfolding ds_def by (intro json_number_parts digits_take_dec digits_strip take_dec_head) simp_all
    with int show ?thesis by (simp add: text_eq)
  next
    case small
    then show ?thesis
      using json_number_parts [of "''0''" "strip_zeros (replicate (nat (- e) - 1) CHR ''0'' @ ds)" "[]" s] digits_strip [OF zeros]
      by (simp add: text_eq is_digit_def)
  next
    case sci
    have "json_number (show_sign s @ take (Suc 0) ds @ point_string (strip_zeros (drop (Suc 0) ds)) @ (CHR ''e'' # sg # xs)) \<and>
      list_all is_number_char (show_sign s @ take (Suc 0) ds @ point_string (strip_zeros (drop (Suc 0) ds)) @ (CHR ''e'' # sg # xs))"
      if "sg \<in> {CHR ''+'', CHR ''-''}" for sg
      unfolding ds_def using that xs
      by (intro json_number_parts digits_take_dec digits_strip take_dec_head) auto
    from this [of "if e < 0 then CHR ''-'' else CHR ''+''"] sci show ?thesis
      by (auto simp: text_eq xs_def [symmetric])
  qed
qed

lemma json_number_show_g: "d_isfinite d \<Longrightarrow> json_ok (JNum (show_g d))"
proof (cases d)
  case (DFin s q)
  have zero: "json_number (show_sign s @ ''0'') \<and> list_all is_number_char (show_sign s @ ''0'')"
    using json_number_parts [of "''0''" "[]" "[]" s] by (simp add: point_string_def is_digit_def)
  show ?thesis
    using json_number_g_text [of s] zero by (simp add: DFin show_g_mag_def Let_def)
qed simp_all

lemma json_number_dec: "json_ok (JNum (dec n))"
proof -
  have "hd (dec n) = CHR ''0'' \<Longrightarrow> length (dec n) = 1"
    using dec_head [of n] by (subst dec.simps) simp
  then show ?thesis
    using json_number_parts [of "dec n" "[]" "[]" False] digits_take_dec(3) [of n]
    by (simp add: show_sign_def point_string_def)
qed

lemma json_number_dec_int: "json_ok (JNum (dec_int i))"
proof -
  have "hd (dec n) = CHR ''0'' \<Longrightarrow> length (dec n) = 1" for n
    using dec_head [of n] by (subst dec.simps) simp
  then show ?thesis
    using json_number_parts [of "dec (nat (- i))" "[]" "[]" True] json_number_dec [of "nat i"] digits_take_dec(3)
    by (simp add: dec_int_def show_sign_def point_string_def)
qed

end
