(* ===== verification/Http_Server.thy ===== *)
theory Http_Server
  imports Http_Response Json Metrics_Store History_Store Alert_Manager Tcp_Client
begin

text \<open>
  The HTTP interface: \<open>include/http/HttpServer.h\<close> and \<open>src/http/HttpServer.cpp\<close>.  The stores
  it reads are the state of the other components at the time of the request; the contents of
  the dashboard files and the results of the system calls are parameters.  The theory shows
  which request gets which answer, that the answers are JSON texts with the values of the
  stores, and that an answer is sent whole or not at all beyond a prefix.
\<close>

section \<open>Bodies\<close>

definition host_entry :: "StoredMetrics \<Rightarrow> string" where
  "host_entry host =
     ''{'' @
     ''\"hostname\":\"'' @ jsonEscape (hostname (sm_metrics host)) @ ''\",'' @
     ''\"cpu\":'' @ show_g (cpuUsagePercent (sm_metrics host)) @ '','' @
     ''\"memory\":'' @ show_g (memoryUsagePercent (sm_metrics host)) @ '','' @
     ''\"load1\":'' @ show_g (load1 (sm_metrics host)) @ '','' @
     ''\"uptime\":'' @ dec (unat (uptimeSeconds (sm_metrics host))) @
     ''}''"

definition buildHostsJson :: "metrics_store \<Rightarrow> string" where
  "buildHostsJson st = ''['' @ comma_items True (map host_entry (getAll st)) @ '']''"

definition buildHostDetailJson :: "metrics_store \<Rightarrow> string \<Rightarrow> string" where
  "buildHostDetailJson st h = (case getLatest h st of
     None \<Rightarrow> ''{}''
   | Some stored \<Rightarrow>
       let metrics = sm_metrics stored in
       ''{'' @
       ''\"hostname\":\"'' @ jsonEscape (hostname metrics) @ ''\",'' @
       ''\"cpu\":'' @ show_g (cpuUsagePercent metrics) @ '','' @
       ''\"memory\":'' @ show_g (memoryUsagePercent metrics) @ '','' @
       ''\"uptime_seconds\":'' @ dec (unat (uptimeSeconds metrics)) @ '','' @
       ''\"logical_cpus\":'' @ dec (unat (logicalCpuCount metrics)) @ '','' @
       ''\"load\":{'' @
       ''\"load1\":'' @ show_g (load1 metrics) @ '','' @
       ''\"load5\":'' @ show_g (load5 metrics) @ '','' @
       ''\"load15\":'' @ show_g (load15 metrics) @
       ''},'' @
       ''\"disk\":{'' @
       ''\"usage_percent\":'' @ show_g (diskUsagePercent metrics) @
       ''},'' @
       ''\"network\":{'' @
       ''\"interface\":\"'' @ jsonEscape (networkInterface metrics) @ ''\"'' @
       ''}'' @
       ''}'')"

definition history_entry :: "MetricsHistoryPoint \<Rightarrow> string" where
  "history_entry point =
     ''{'' @
     ''\"timestamp\":'' @ dec_int (hp_timestampMs point) @ '','' @
     ''\"cpu\":'' @ show_g (hp_cpuUsagePercent point) @ '','' @
     ''\"memory\":'' @ show_g (hp_memoryUsagePercent point) @
     ''}''"

definition buildHostHistoryJson :: "history_store \<Rightarrow> string \<Rightarrow> string" where
  "buildHostHistoryJson hist h = ''['' @ comma_items True (map history_entry (history_get h hist)) @ '']''"

definition alert_state_text :: "AlertState \<Rightarrow> string" where
  "alert_state_text s = (case s of Pending \<Rightarrow> ''PENDING'' | Firing \<Rightarrow> ''FIRING'' | _ \<Rightarrow> ''NORMAL'')"

definition alert_entry :: "ManagedAlert \<Rightarrow> string" where
  "alert_entry alert =
     ''{'' @
     ''\"hostname\":\"'' @ jsonEscape (ma_hostname alert) @ ''\",'' @
     ''\"metric\":\"'' @ jsonEscape (ma_metric alert) @ ''\",'' @
     ''\"state\":\"'' @ alert_state_text (ma_state alert) @ ''\",'' @
     ''\"current_value\":'' @ show_g (ma_currentValue alert) @ '','' @
     ''\"threshold\":'' @ show_g (ma_threshold alert) @ '','' @
     ''\"message\":\"'' @ jsonEscape (ma_message alert) @ ''\"'' @
     ''}''"

definition buildAlertsJson :: "alert_manager \<Rightarrow> string" where
  "buildAlertsJson am = ''['' @ comma_items True (map alert_entry (getActiveAlerts am)) @ '']''"

text \<open>The first of the three files that can be opened.\<close>

fun first_file :: "(string \<Rightarrow> string option) \<Rightarrow> string list \<Rightarrow> string" where
  "first_file files [] = []"
| "first_file files (path # paths) =
     (case files path of Some content \<Rightarrow> content | None \<Rightarrow> first_file files paths)"

definition loadDashboardHtml :: "(string \<Rightarrow> string option) \<Rightarrow> string" where
  "loadDashboardHtml files = first_file files [''../web/index.html'', ''web/index.html'', ''./web/index.html'']"

section \<open>Requests\<close>

record http_env =
  he_store :: metrics_store
  he_history :: history_store
  he_alerts :: alert_manager
  he_files :: "string \<Rightarrow> string option"

text \<open>One \<open>stream >> word\<close> of \<open>std::istringstream\<close>, which leaves the word empty at the end.\<close>

definition next_word :: "string \<Rightarrow> string \<times> string" where
  "next_word s =
     (let s = dropWhile is_space s
      in (takeWhile (\<lambda>c. \<not> is_space c) s, dropWhile (\<lambda>c. \<not> is_space c) s))"

definition api_hosts :: string where "api_hosts = ''/api/hosts/''"

text \<open>
  The host name of a history request: \<open>path.substr(start, end - start)\<close> in \<open>size_t\<close>
  arithmetic, where \<open>end\<close> is the first position of the suffix anywhere in the path.
\<close>

definition history_host :: "string \<Rightarrow> nat \<Rightarrow> string" where
  "history_host path end_pos =
     substr path (length api_hosts)
       (unat ((word_of_nat end_pos :: u64) - word_of_nat (length api_hosts)))"

definition route :: "http_env \<Rightarrow> string \<Rightarrow> string" where
  "route env path =
     (if path = ''/'' \<or> path = ''/index.html'' then okHtml (loadDashboardHtml (he_files env))
      else if path = ''/api/alerts'' then okJson (buildAlertsJson (he_alerts env))
      else if path = ''/api/hosts'' then okJson (buildHostsJson (he_store env))
      else case (if starts_with api_hosts path then find_str ''/history'' path else None) of
        Some end_pos \<Rightarrow> okJson (buildHostHistoryJson (he_history env) (history_host path end_pos))
      | None \<Rightarrow>
          if starts_with api_hosts path
          then okJson (buildHostDetailJson (he_store env) (drop (length api_hosts) path))
          else notFound)"

text \<open>
  \<open>handleClient\<close>: what \<open>recv\<close> read, \<open>None\<close> for an error, and the answer handed to \<open>sendAll\<close>, of
  which there is none when the peer has closed or \<open>recv\<close> failed.
\<close>

definition handleClient :: "http_env \<Rightarrow> string option \<Rightarrow> string option" where
  "handleClient env received = (case received of
     None \<Rightarrow> None
   | Some request \<Rightarrow>
       if request = [] then None else
       (case find_str crlf request of
          None \<Rightarrow> Some badRequest
        | Some lineEnd \<Rightarrow>
            let stream = substr request 0 lineEnd;
                (method, stream) = next_word stream;
                (path, stream) = next_word stream;
                (version, stream) = next_word stream
            in if method \<noteq> ''GET'' then Some badRequest else Some (route env path)))"

section \<open>Sending\<close>

text \<open>The loop of \<open>HttpServer::sendAll\<close>: the result and the bytes the kernel accepted.\<close>

fun http_send :: "send_result list \<Rightarrow> string \<Rightarrow> nat \<Rightarrow> string \<Rightarrow> (bool \<times> string) option" where
  "http_send results data sent wire =
     (if \<not> sent < length data then Some (True, wire)
      else case results of
        [] \<Rightarrow> None
      | Sent n # rest \<Rightarrow>
          if n > 0 then http_send rest data (sent + n) (wire @ take n (drop sent data)) else Some (False, wire)
      | SendEintr # rest \<Rightarrow> http_send rest data sent wire
      | SendFailed msg # rest \<Rightarrow> Some (False, wire))"

declare http_send.simps [simp del]

section \<open>Life cycle\<close>

record http_server =
  hs_port :: u16
  hs_running :: bool
  hs_listenFd :: int
  hs_thread :: bool
  hs_closed :: "int list"
  hs_log :: "log_entry list"

definition new_http_server :: "u16 \<Rightarrow> http_server" where
  "new_http_server port = \<lparr> hs_port = port, hs_running = False, hs_listenFd = -1, hs_thread = False,
     hs_closed = [], hs_log = [] \<rparr>"

definition http_start :: "http_server \<Rightarrow> http_server" where
  "http_start s = (if hs_running s then s else s\<lparr> hs_running := True, hs_thread := True \<rparr>)"

definition http_stop :: "http_server \<Rightarrow> http_server" where
  "http_stop s =
     (let s = s\<lparr> hs_running := False \<rparr>;
          s = (if hs_listenFd s \<ge> 0
               then s\<lparr> hs_closed := hs_closed s @ [hs_listenFd s], hs_listenFd := -1 \<rparr> else s)
      in s\<lparr> hs_thread := False \<rparr>)"

text \<open>The destructor.\<close>

definition destroy_http_server :: "http_server \<Rightarrow> http_server" where
  "destroy_http_server s = http_stop s"

text \<open>
  The set-up of \<open>run\<close>, given what \<open>socket\<close>, \<open>bind\<close> and \<open>listen\<close> return.
\<close>

definition http_listen :: "int \<Rightarrow> int \<Rightarrow> int \<Rightarrow> http_server \<Rightarrow> http_server \<times> unit result" where
  "http_listen socketFd bound listening s =
     (let s = s\<lparr> hs_listenFd := socketFd \<rparr>
      in (if \<not> socketFd < 0 \<and> \<not> bound < 0 \<and> \<not> listening < 0
          then s\<lparr> hs_log := hs_log s @ [(Info, ''HTTP listening on port '' @ dec (unat (hs_port s)))] \<rparr> else s,
          ebind (throw_if (socketFd < 0) (RuntimeError ''HTTP socket failed'')) (\<lambda>_.
          ebind (throw_if (bound < 0) (RuntimeError ''HTTP bind failed'')) (\<lambda>_.
          throw_if (listening < 0) (RuntimeError ''HTTP listen failed'')))))"

text \<open>
  The turns of the accept loop: what the loop condition read and what \<open>accept4\<close> returned,
  with the state of the stores and the bytes received for an accepted client.
\<close>

datatype accept_result = Accepted int http_env "string option" | AcceptEintr | AcceptFailed

fun http_loop :: "(bool \<times> accept_result) list \<Rightarrow> http_server \<Rightarrow> http_server \<times> (int \<times> string option) list" where
  "http_loop [] s = (s, [])"
| "http_loop ((running, r) # turns) s =
     (if \<not> running then (s, [])
      else case r of
        AcceptEintr \<Rightarrow> http_loop turns s
      | AcceptFailed \<Rightarrow> (s, [])
      | Accepted fd env received \<Rightarrow>
          let (s', answers) = http_loop turns (s\<lparr> hs_closed := hs_closed s @ [fd] \<rparr>)
          in (s', (fd, handleClient env received) # answers))"

definition http_run ::
  "int \<Rightarrow> int \<Rightarrow> int \<Rightarrow> (bool \<times> accept_result) list \<Rightarrow> http_server \<Rightarrow> http_server \<times> (int \<times> string option) list" where
  "http_run socketFd bound listening turns s =
     (case http_listen socketFd bound listening s of
        (s, Inl e) \<Rightarrow> (s\<lparr> hs_log := hs_log s @ [(Error, what e)], hs_running := False \<rparr>, [])
      | (s, Inr _) \<Rightarrow>
          let (s', answers) = http_loop turns s in (s'\<lparr> hs_running := False \<rparr>, answers))"

section \<open>The bodies are JSON\<close>

definition host_json :: "StoredMetrics \<Rightarrow> json" where
  "host_json s = JObj [
     (''hostname'', JStr (hostname (sm_metrics s))),
     (''cpu'', JNum (show_g (cpuUsagePercent (sm_metrics s)))),
     (''memory'', JNum (show_g (memoryUsagePercent (sm_metrics s)))),
     (''load1'', JNum (show_g (load1 (sm_metrics s)))),
     (''uptime'', JNum (dec (unat (uptimeSeconds (sm_metrics s)))))]"

definition detail_json :: "StoredMetrics \<Rightarrow> json" where
  "detail_json s = JObj [
     (''hostname'', JStr (hostname (sm_metrics s))),
     (''cpu'', JNum (show_g (cpuUsagePercent (sm_metrics s)))),
     (''memory'', JNum (show_g (memoryUsagePercent (sm_metrics s)))),
     (''uptime_seconds'', JNum (dec (unat (uptimeSeconds (sm_metrics s))))),
     (''logical_cpus'', JNum (dec (unat (logicalCpuCount (sm_metrics s))))),
     (''load'', JObj [
        (''load1'', JNum (show_g (load1 (sm_metrics s)))),
        (''load5'', JNum (show_g (load5 (sm_metrics s)))),
        (''load15'', JNum (show_g (load15 (sm_metrics s))))]),
     (''disk'', JObj [(''usage_percent'', JNum (show_g (diskUsagePercent (sm_metrics s))))]),
     (''network'', JObj [(''interface'', JStr (networkInterface (sm_metrics s)))])]"

definition point_json :: "MetricsHistoryPoint \<Rightarrow> json" where
  "point_json p = JObj [
     (''timestamp'', JNum (dec_int (hp_timestampMs p))),
     (''cpu'', JNum (show_g (hp_cpuUsagePercent p))),
     (''memory'', JNum (show_g (hp_memoryUsagePercent p)))]"

definition alert_json :: "ManagedAlert \<Rightarrow> json" where
  "alert_json a = JObj [
     (''hostname'', JStr (ma_hostname a)),
     (''metric'', JStr (ma_metric a)),
     (''state'', JStr (alert_state_text (ma_state a))),
     (''current_value'', JNum (show_g (ma_currentValue a))),
     (''threshold'', JNum (show_g (ma_threshold a))),
     (''message'', JStr (ma_message a))]"

text \<open>
  What the values must satisfy for a JSON text: numbers are finite, and the texts the agents
  chose have no control characters the escape does not cover.
\<close>

definition stored_ok :: "StoredMetrics \<Rightarrow> bool" where
  "stored_ok s \<longleftrightarrow> escapable (hostname (sm_metrics s)) \<and> escapable (networkInterface (sm_metrics s)) \<and>
     (\<forall>d \<in> set (metric_doubles (sm_metrics s)). d_isfinite d)"

definition point_ok :: "MetricsHistoryPoint \<Rightarrow> bool" where
  "point_ok p \<longleftrightarrow> d_isfinite (hp_cpuUsagePercent p) \<and> d_isfinite (hp_memoryUsagePercent p)"

definition alert_text_ok :: "ManagedAlert \<Rightarrow> bool" where
  "alert_text_ok a \<longleftrightarrow> escapable (ma_hostname a) \<and> escapable (ma_metric a) \<and> escapable (ma_message a) \<and>
     d_isfinite (ma_currentValue a) \<and> d_isfinite (ma_threshold a)"

lemma escapable_key [simp]:
  "escapable ''hostname''" "escapable ''cpu''" "escapable ''memory''" "escapable ''load1''" "escapable ''load5''"
  "escapable ''load15''" "escapable ''uptime''" "escapable ''uptime_seconds''" "escapable ''logical_cpus''"
  "escapable ''load''" "escapable ''disk''" "escapable ''usage_percent''" "escapable ''network''"
  "escapable ''interface''" "escapable ''timestamp''" "escapable ''metric''" "escapable ''state''"
  "escapable ''current_value''" "escapable ''threshold''" "escapable ''message''"
  by (simp_all add: escapable_def is_control_def)

lemma state_text_escape: "jsonEscape (alert_state_text s) = alert_state_text s" "escapable (alert_state_text s)"
  by (cases s; simp add: alert_state_text_def escapable_def is_control_def)+

lemma host_entry_render: "host_entry s = render (host_json s)"
  by (simp add: host_entry_def host_json_def quoted_def)

lemma history_entry_render: "history_entry p = render (point_json p)"
  by (simp add: history_entry_def point_json_def quoted_def)

lemma alert_entry_render: "alert_entry a = render (alert_json a)"
  by (simp add: alert_entry_def alert_json_def quoted_def state_text_escape)

lemma host_json_ok: "stored_ok s \<Longrightarrow> json_ok (host_json s)"
  using json_number_show_g json_number_dec by (simp add: host_json_def stored_ok_def metric_doubles_def)

lemma detail_json_ok: "stored_ok s \<Longrightarrow> json_ok (detail_json s)"
  using json_number_show_g json_number_dec by (simp add: detail_json_def stored_ok_def metric_doubles_def)

lemma point_json_ok: "point_ok p \<Longrightarrow> json_ok (point_json p)"
  using json_number_show_g json_number_dec_int by (simp add: point_json_def point_ok_def)

lemma alert_json_ok: "alert_text_ok a \<Longrightarrow> json_ok (alert_json a)"
  using json_number_show_g by (simp add: alert_json_def alert_text_ok_def state_text_escape)

lemma detail_render: "getLatest h st = Some s \<Longrightarrow> buildHostDetailJson st h = render (detail_json s)"
  by (simp add: buildHostDetailJson_def detail_json_def quoted_def Let_def)

lemma bodies_parse:
  "list_all stored_ok (getAll st) \<Longrightarrow> parses_to (buildHostsJson st) (JArr (map host_json (getAll st)))"
  "list_all stored_ok (getAll st) \<Longrightarrow>
     parses_to (buildHostDetailJson st h) (case getLatest h st of None \<Rightarrow> JObj [] | Some s \<Rightarrow> detail_json s)"
  "list_all point_ok (history_get h hist) \<Longrightarrow>
     parses_to (buildHostHistoryJson hist h) (JArr (map point_json (history_get h hist)))"
  "list_all alert_text_ok (getActiveAlerts am) \<Longrightarrow>
     parses_to (buildAlertsJson am) (JArr (map alert_json (getActiveAlerts am)))"
proof -
  have render_arr: "''['' @ comma_items True (map (\<lambda>x. render (f x)) xs) @ '']'' = render (JArr (map f xs))" for f :: "'c \<Rightarrow> json" and xs
    by (simp add: comp_def)
  show "list_all stored_ok (getAll st) \<Longrightarrow> parses_to (buildHostsJson st) (JArr (map host_json (getAll st)))"
    unfolding buildHostsJson_def host_entry_render [abs_def] render_arr
    by (rule render_parses) (auto simp: list_all_iff host_json_ok)
  show "list_all point_ok (history_get h hist) \<Longrightarrow>
     parses_to (buildHostHistoryJson hist h) (JArr (map point_json (history_get h hist)))"
    unfolding buildHostHistoryJson_def history_entry_render [abs_def] render_arr
    by (rule render_parses) (auto simp: list_all_iff point_json_ok)
  show "list_all alert_text_ok (getActiveAlerts am) \<Longrightarrow>
     parses_to (buildAlertsJson am) (JArr (map alert_json (getActiveAlerts am)))"
    unfolding buildAlertsJson_def alert_entry_render [abs_def] render_arr
    by (rule render_parses) (auto simp: list_all_iff alert_json_ok)
  show "list_all stored_ok (getAll st) \<Longrightarrow>
     parses_to (buildHostDetailJson st h) (case getLatest h st of None \<Rightarrow> JObj [] | Some s \<Rightarrow> detail_json s)"
  proof (cases "getLatest h st")
    case None
    have "buildHostDetailJson st h = render (JObj [])" by (simp add: buildHostDetailJson_def None)
    then show ?thesis using render_parses [of "JObj []"] by (simp add: None)
  next
    case (Some s)
    assume "list_all stored_ok (getAll st)"
    then have "stored_ok s"
      using Some map_of_SomeD [of st h s]
      by (fastforce simp: getLatest_def getAll_def um_values_def um_find_def list_all_iff)
    then show ?thesis using render_parses [OF detail_json_ok] by (simp add: Some detail_render)
  qed
qed

text \<open>
  C20: the bodies of the four JSON resources are JSON texts, and a reader gets from them the
  values of the stores: one object per stored host, the details of a host or an empty object,
  the points of its history in order, and the active alerts.
\<close>

theorem bodies_are_json:
  assumes "list_all stored_ok (getAll st)" and "list_all point_ok (history_get h hist)"
    and "list_all alert_text_ok (getActiveAlerts am)"
  shows "parses_to (buildHostsJson st) (JArr (map host_json (getAll st))) \<and>
         parses_to (buildHostDetailJson st h) (case getLatest h st of None \<Rightarrow> JObj [] | Some s \<Rightarrow> detail_json s) \<and>
         parses_to (buildHostHistoryJson hist h) (JArr (map point_json (history_get h hist))) \<and>
         parses_to (buildAlertsJson am) (JArr (map alert_json (getActiveAlerts am)))"
  using bodies_parse assms by blast

definition demo_stored :: StoredMetrics where
  "demo_stored = \<lparr> sm_metrics = default_metrics\<lparr> hostname := [CHR ''a'', CHR 0x22, nl], cpuUsagePercent := DFin False (25 / 2),
     networkInterface := ''eth0'' \<rparr>, updatedAt = 0 \<rparr>"

theorem bodies_are_json_witness:
  "parses_to (buildHostsJson [([CHR ''a'', CHR 0x22, nl], demo_stored)]) (JArr [host_json demo_stored]) \<and>
   parses_to (buildAlertsJson firing_manager) (JArr [alert_json (hot_alert ''a'' Firing 0 5000000000)])"
  using bodies_are_json [of "[([CHR ''a'', CHR 0x22, nl], demo_stored)]" "''a''" "new_history 5" firing_manager]
  by (simp add: getAll_def um_values_def stored_ok_def demo_stored_def default_metrics_def metric_doubles_def d_zero_def
      escapable_def is_control_def history_get_def new_history_def getActiveAlerts_def firing_manager_def
      default_manager_def hot_alert_def alert_text_ok_def)

section \<open>Routing\<close>

lemma find_str_skip: "c \<notin> set a \<Longrightarrow> find_str (c # p) (a @ s) = map_option ((+) (length a)) (find_str (c # p) s)"
proof (cases "find_str (c # p) s")
  case None
  assume "c \<notin> set a"
  then show ?thesis using None by (induction a) auto
next
  case (Some n)
  assume "c \<notin> set a"
  then show ?thesis using Some by (induction a) auto
qed

lemma find_str_absent: "c \<notin> set a \<Longrightarrow> find_str (c # p) a = None"
  by (induction a) auto

lemma find_str_here: "find_str p (p @ s) = Some 0"
  using starts_with_append [of p s] by (cases "p @ s") auto

lemma starts_with_stop: "c \<notin> set p \<Longrightarrow> c \<notin> set h \<Longrightarrow> starts_with p (h @ c # s) \<longleftrightarrow> starts_with p h"
  by (induction p h rule: starts_with.induct) auto

lemma next_word_word:
  "w \<noteq> [] \<Longrightarrow> \<forall>c \<in> set w. \<not> is_space c \<Longrightarrow> next_word (w @ CHR '' '' # s) = (w, CHR '' '' # s)"
  by (cases w) (auto simp: next_word_def Let_def is_space_def takeWhile_append dropWhile_append)

lemma next_word_space: "next_word (CHR '' '' # s) = next_word s"
  by (simp add: next_word_def is_space_def)

lemma handle_request:
  assumes "verb \<noteq> []" and "\<forall>c \<in> set verb. \<not> is_space c" and "path \<noteq> []" and "\<forall>c \<in> set path. \<not> is_space c"
  shows "handleClient env (Some (verb @ '' '' @ path @ '' HTTP/1.1'' @ crlf @ header)) =
     Some (if verb = ''GET'' then route env path else badRequest)"
proof -
  let ?line = "verb @ '' '' @ path @ '' HTTP/1.1''"
  have "cr \<notin> set verb" "cr \<notin> set path" using assms(2,4) by (auto simp: is_space_def)
  then have end_pos: "find_str crlf (?line @ (crlf @ header)) = Some (length ?line)"
    by (subst find_str_skip) (simp_all add: find_str_here)
  have "substr (?line @ (crlf @ header)) 0 (length ?line) = ?line" by (rule substr_prefix)
  moreover have "next_word ?line = (verb, '' '' @ path @ '' HTTP/1.1'')"
    using next_word_word [OF assms(1,2), of "path @ '' HTTP/1.1''"] by simp
  moreover have "next_word ('' '' @ path @ '' HTTP/1.1'') = (path, '' HTTP/1.1'')"
    using next_word_word [OF assms(3,4), of "''HTTP/1.1''"] by (simp add: next_word_space)
  ultimately show ?thesis
    using end_pos by (simp add: handleClient_def Let_def split: prod.split)
qed

lemma handle_get:
  assumes "path \<noteq> []" and "\<forall>c \<in> set path. \<not> is_space c"
  shows "handleClient env (Some (''GET '' @ path @ '' HTTP/1.1'' @ crlf @ header)) = Some (route env path)"
  using handle_request [of "''GET''", OF _ _ assms, of env header] by (simp add: is_space_def)

lemma find_history:
  assumes "CHR ''/'' \<notin> set h"
  shows "find_str ''/history'' (''/api/hosts/'' @ h @ s) =
     (if starts_with ''history'' (h @ s) then Some 10
      else map_option (\<lambda>n. 11 + length h + n) (find_str ''/history'' s))"
  using find_str_skip [OF assms, of "''history''" s]
  by (cases "find_str ''/history'' s") auto

lemma unat_minus_one_u64: "unat (- 1 :: u64) = 18446744073709551615"
  by (simp add: unsigned_minus_1_eq_mask mask_eq_exp_minus_1)

lemma api_hosts_prefix: "starts_with api_hosts (''/api/hosts/'' @ s)" "length api_hosts = 11"
  by (simp_all add: api_hosts_def)

lemma route_api:
  "route env (''/api/hosts/'' @ s) = okJson (case find_str ''/history'' (''/api/hosts/'' @ s) of
     Some end_pos \<Rightarrow> buildHostHistoryJson (he_history env) (history_host (''/api/hosts/'' @ s) end_pos)
   | None \<Rightarrow> buildHostDetailJson (he_store env) s)"
proof -
  define path where "path = ''/api/hosts/'' @ s"
  have "path \<noteq> ''/''" "path \<noteq> ''/index.html''" "path \<noteq> ''/api/alerts''" "path \<noteq> ''/api/hosts''"
    "starts_with api_hosts path" "drop (length api_hosts) path = s"
    by (simp_all add: path_def api_hosts_def)
  then show ?thesis unfolding path_def [symmetric] by (simp add: route_def split: option.split)
qed

lemma route_host:
  assumes "CHR ''/'' \<notin> set h" and "length h \<le> 8191"
  shows "route env (''/api/hosts/'' @ h) =
     okJson (if starts_with ''history'' h then buildHostHistoryJson (he_history env) h
             else buildHostDetailJson (he_store env) h)"
proof -
  have "take 18446744073709551615 h = h" using assms(2) by simp
  then have host: "history_host (''/api/hosts/'' @ h) 10 = h"
    by (simp add: history_host_def api_hosts_def substr_def unat_minus_one_u64)
  have find: "find_str ''/history'' (''/api/hosts/'' @ h) = (if starts_with ''history'' h then Some 10 else None)"
    using find_history [OF assms(1), of "[]"] by (simp del: append_Cons)
  show ?thesis
    unfolding route_api find using host
    by (cases "starts_with ''history'' h") (simp_all only: if_True if_False option.case)
qed

lemma route_history:
  assumes "CHR ''/'' \<notin> set h" and "length h \<le> 8191"
  shows "route env (''/api/hosts/'' @ h @ ''/history'') =
     okJson (buildHostHistoryJson (he_history env)
       (if starts_with ''history'' h then h @ ''/history'' else h))"
proof -
  have "take 18446744073709551615 (h @ ''/history'') = h @ ''/history''" using assms(2) by simp
  then have host10: "history_host (''/api/hosts/'' @ h @ ''/history'') 10 = h @ ''/history''"
    by (simp add: history_host_def api_hosts_def substr_def unat_minus_one_u64)
  have "unat ((word_of_nat (11 + length h) :: u64) - word_of_nat 11) = length h"
    using assms(2) by (simp add: unat_of_nat)
  then have host: "history_host (''/api/hosts/'' @ h @ ''/history'') (11 + length h) = h"
    by (simp add: history_host_def api_hosts_prefix(2) substr_def)
  have "starts_with ''history'' (h @ ''/history'') = starts_with ''history'' h"
    by (rule starts_with_stop [OF _ assms(1)]) simp
  then have find: "find_str ''/history'' (''/api/hosts/'' @ h @ ''/history'') =
      (if starts_with ''history'' h then Some 10 else Some (11 + length h))"
    using find_history [OF assms(1), of "''/history''"] find_str_here [of "''/history''" "[]"]
    by (simp del: append_Cons find_str.simps)
  show ?thesis
    unfolding route_api find using host host10
    by (cases "starts_with ''history'' h") (simp_all only: if_True if_False option.case)
qed

lemma answer_host:
  assumes "\<forall>c \<in> set h. \<not> is_space c \<and> c \<noteq> CHR ''/''" and "length h \<le> 8191"
  shows "handleClient env (Some (''GET '' @ (''/api/hosts/'' @ h) @ '' HTTP/1.1'' @ crlf @ header)) =
           Some (okJson (if starts_with ''history'' h then buildHostHistoryJson (he_history env) h
                         else buildHostDetailJson (he_store env) h))"
proof -
  have "CHR ''/'' \<notin> set h" and "\<forall>c \<in> set (''/api/hosts/'' @ h). \<not> is_space c" using assms(1) by (auto simp: is_space_def)
  then show ?thesis using handle_get [of "''/api/hosts/'' @ h" env header] route_host [OF _ assms(2), of env]
    by (simp only: append_is_Nil_conv list.distinct not_False_eq_True simp_thms)
qed

text \<open>
  C38: the answers to requests about one host, for a name without white space or slash: the
  detail and the history of that host, unless the name begins with \<open>history\<close>, for which the
  server looks up the history, and that of another name when asked for the history itself.
\<close>

theorem host_requests:
  assumes "\<forall>c \<in> set h. \<not> is_space c \<and> c \<noteq> CHR ''/''" and "length h \<le> 8191"
  shows "handleClient env (Some (''GET '' @ (''/api/hosts/'' @ h) @ '' HTTP/1.1'' @ crlf @ header)) =
           Some (okJson (if starts_with ''history'' h then buildHostHistoryJson (he_history env) h
                         else buildHostDetailJson (he_store env) h)) \<and>
         handleClient env (Some (''GET '' @ (''/api/hosts/'' @ h @ ''/history'') @ '' HTTP/1.1'' @ crlf @ header)) =
           Some (okJson (buildHostHistoryJson (he_history env)
             (if starts_with ''history'' h then h @ ''/history'' else h)))"
proof -
  have h: "CHR ''/'' \<notin> set h" using assms(1) by auto
  have "\<forall>c \<in> set (''/api/hosts/'' @ h @ ''/history''). \<not> is_space c" using assms(1) by (auto simp: is_space_def)
  then show ?thesis
    using answer_host [OF assms, of env header] handle_get [of "''/api/hosts/'' @ h @ ''/history''" env header]
      route_history [OF h assms(2), of env]
    by (simp only: append_is_Nil_conv list.distinct not_False_eq_True simp_thms)
qed

definition empty_env :: http_env where
  "empty_env = \<lparr> he_store = [], he_history = new_history 120, he_alerts = default_manager, he_files = (\<lambda>_. None) \<rparr>"

theorem host_requests_witness:
  "handleClient empty_env (Some (''GET '' @ (''/api/hosts/'' @ ''web-1'' @ ''/history'') @ '' HTTP/1.1'' @ crlf @ crlf)) =
     Some (okJson (buildHostHistoryJson (new_history 120) ''web-1'')) \<and>
   handleClient empty_env (Some (''GET '' @ (''/api/hosts/'' @ ''web-1'') @ '' HTTP/1.1'' @ crlf @ crlf)) =
     Some (okJson (buildHostDetailJson [] ''web-1''))"
proof -
  have "\<forall>c \<in> set ''web-1''. \<not> is_space c \<and> c \<noteq> CHR ''/''" by (simp add: is_space_def)
  from host_requests [OF this, of empty_env crlf] show ?thesis
    by (simp only: empty_env_def http_env.simps) simp
qed

text \<open>
  C39: a request line of three words is answered by its method and path: a method other than GET
  as bad, the dashboard, the alerts and the list of hosts with their bodies, and a path the
  server does not know as not found; a request without a complete first line is bad, and a
  client that sent nothing gets no answer.
\<close>

theorem other_requests:
  assumes "verb \<noteq> []" and "\<forall>c \<in> set verb. \<not> is_space c" and "path \<noteq> []" and "\<forall>c \<in> set path. \<not> is_space c"
    and "\<not> starts_with api_hosts path" and "find_str crlf line = None"
  shows "handleClient env (Some (verb @ '' '' @ path @ '' HTTP/1.1'' @ crlf @ header)) = Some
       (if verb \<noteq> ''GET'' then badRequest
        else if path = ''/'' \<or> path = ''/index.html'' then okHtml (loadDashboardHtml (he_files env))
        else if path = ''/api/alerts'' then okJson (buildAlertsJson (he_alerts env))
        else if path = ''/api/hosts'' then okJson (buildHostsJson (he_store env))
        else notFound) \<and>
     handleClient env (Some line) = (if line = [] then None else Some badRequest) \<and> handleClient env None = None"
proof -
  have "route env path = (if path = ''/'' \<or> path = ''/index.html'' then okHtml (loadDashboardHtml (he_files env))
        else if path = ''/api/alerts'' then okJson (buildAlertsJson (he_alerts env))
        else if path = ''/api/hosts'' then okJson (buildHostsJson (he_store env))
        else notFound)"
    using assms(5) by (simp add: route_def)
  moreover have "handleClient env (Some line) = (if line = [] then None else Some badRequest)" "handleClient env None = None"
    using assms(6) by (simp_all add: handleClient_def)
  ultimately show ?thesis using handle_request [OF assms(1-4), of env header] by presburger
qed

theorem other_requests_witness:
  "handleClient empty_env (Some (''POST'' @ '' '' @ ''/api/hosts'' @ '' HTTP/1.1'' @ crlf @ crlf)) = Some badRequest \<and>
   handleClient empty_env (Some (''GET'' @ '' '' @ ''/api/hosts'' @ '' HTTP/1.1'' @ crlf @ crlf)) = Some (okJson (buildHostsJson [])) \<and>
   handleClient empty_env (Some (''GET'' @ '' '' @ ''/x'' @ '' HTTP/1.1'' @ crlf @ crlf)) = Some notFound"
proof -
  have words: "\<forall>c \<in> set ''GET''. \<not> is_space c" "\<forall>c \<in> set ''POST''. \<not> is_space c"
    "\<forall>c \<in> set ''/api/hosts''. \<not> is_space c" "\<forall>c \<in> set ''/x''. \<not> is_space c"
    by (simp_all add: is_space_def)
  have paths: "\<not> starts_with api_hosts ''/api/hosts''" "\<not> starts_with api_hosts ''/x''"
    by (simp_all add: api_hosts_def)
  have junk: "find_str crlf ''GET'' = None" by simp
  show ?thesis
    using other_requests [OF _ words(2) _ words(3) paths(1) junk, of empty_env crlf]
      other_requests [OF _ words(1) _ words(3) paths(1) junk, of empty_env crlf]
      other_requests [OF _ words(1) _ words(4) paths(2) junk, of empty_env crlf]
    by (simp add: empty_env_def)
qed

section \<open>Sending\<close>

text \<open>The server's loop does on its bytes what the agent's does.\<close>

definition stream_result :: "(bool \<times> tcp_client) option \<Rightarrow> (bool \<times> string) option" where
  "stream_result r = map_option (\<lambda>(ok, c). (ok, cl_stream c)) r"

lemma http_send_steps:
  "\<not> sent < length data \<Longrightarrow> http_send results data sent wire = Some (True, wire)"
  "sent < length data \<Longrightarrow> http_send [] data sent wire = None"
  "sent < length data \<Longrightarrow> http_send (Sent n # rest) data sent wire =
     (if n > 0 then http_send rest data (sent + n) (wire @ take n (drop sent data)) else Some (False, wire))"
  "sent < length data \<Longrightarrow> http_send (SendEintr # rest) data sent wire = http_send rest data sent wire"
  "sent < length data \<Longrightarrow> http_send (SendFailed msg # rest) data sent wire = Some (False, wire)"
  by (subst http_send.simps; simp)+

lemma send_loop_steps:
  "\<not> sent < length data \<Longrightarrow> send_loop results data sent c = Some (True, c)"
  "sent < length data \<Longrightarrow> send_loop [] data sent c = None"
  "sent < length data \<Longrightarrow> send_loop (Sent n # rest) data sent c =
     (if n > 0 then send_loop rest data (sent + n) (c\<lparr> cl_stream := cl_stream c @ take n (drop sent data) \<rparr>)
      else Some (False, disconnect (client_log Warning ''TCP connection closed while sending metrics'' c)))"
  "sent < length data \<Longrightarrow> send_loop (SendEintr # rest) data sent c = send_loop rest data sent c"
  "sent < length data \<Longrightarrow> stream_result (send_loop (SendFailed msg # rest) data sent c) = Some (False, cl_stream c)"
  by (subst send_loop.simps; simp add: stream_result_def)+

lemma http_send_client:
  "cl_stream c = wire \<Longrightarrow> http_send results data sent wire = stream_result (send_loop results data sent c)"
proof (induction results arbitrary: sent wire c)
  case Nil
  then show ?case by (cases "sent < length data") (simp_all add: http_send_steps send_loop_steps stream_result_def)
next
  case (Cons r rest)
  show ?case
  proof (cases "sent < length data")
    case False
    with Cons.prems show ?thesis by (simp add: http_send_steps send_loop_steps stream_result_def)
  next
    case True
    show ?thesis
    proof (cases r)
      case (Sent n)
      with Cons True show ?thesis by (simp add: http_send_steps send_loop_steps) (simp add: stream_result_def)
    next
      case SendEintr
      with Cons True show ?thesis by (simp add: http_send_steps send_loop_steps)
    next
      case (SendFailed msg)
      then show ?thesis using Cons.prems True by (simp add: http_send_steps send_loop_steps)
    qed
  qed
qed

lemma http_send_wire:
  assumes "http_send results data 0 [] = Some (ok, wire)" and "send_within (length data) results"
  shows "\<exists>n. n \<le> length data \<and> wire = take n data \<and> ok = (n = length data)"
proof -
  define c where "c = (new_client [] 0)\<lparr> cl_socketFd := 0 \<rparr>"
  have c: "isConnected c" "cl_stream c = []" by (simp_all add: c_def new_client_def isConnected_def)
  from assms(1) http_send_client [of c "[]" results data 0] c
  obtain c' where "send_loop results data 0 c = Some (ok, c')" "cl_stream c' = wire"
    by (auto simp: stream_result_def)
  with send_loop_stream [of results data 0 c ok c'] assms(2) c show ?thesis by auto
qed

section \<open>The listening socket\<close>

text \<open>
  Every accepted descriptor is closed once, after its answer, and the loop answers in order;
  a failed set-up ends the thread with a log entry.
\<close>

lemma http_loop_closes:
  "http_loop turns s = (s', answers) \<Longrightarrow>
     hs_closed s' = hs_closed s @ map fst answers \<and> hs_listenFd s' = hs_listenFd s"
proof (induction turns s arbitrary: s' answers rule: http_loop.induct)
  case (2 running r turns s)
  then show ?case by (cases r) (auto split: if_splits prod.splits)
qed simp

lemma http_run_stops: "http_run socketFd bound listening turns s = (s', answers) \<Longrightarrow> \<not> hs_running s'"
  by (auto simp: http_run_def split: prod.splits sum.splits)

text \<open>
  A run of the server's thread, followed by a stop, closes each accepted connection once, in
  the order of the answers, and the listening socket once when there is one, and leaves
  neither a thread nor a listening descriptor.
\<close>

theorem http_run_closes:
  "let (s, answers) = http_run socketFd bound listening turns (http_start (new_http_server port));
       t = http_stop s
   in hs_closed t = map fst answers @ (if socketFd \<ge> 0 then [socketFd] else []) \<and>
      hs_listenFd t < 0 \<and> \<not> hs_running t \<and> \<not> hs_thread t"
proof -
  define s0 where "s0 = http_start (new_http_server port)"
  obtain s1 r where listen: "http_listen socketFd bound listening s0 = (s1, r)"
    by (cases "http_listen socketFd bound listening s0")
  have s1: "hs_listenFd s1 = socketFd" "hs_closed s1 = []"
    using listen by (auto simp: http_listen_def Let_def s0_def http_start_def new_http_server_def)
  show ?thesis
  proof (cases r)
    case (Inl e)
    then show ?thesis using s1 listen
      by (simp add: http_run_def s0_def [symmetric] http_stop_def Let_def)
  next
    case (Inr u)
    obtain s2 answers where loop: "http_loop turns s1 = (s2, answers)" by (cases "http_loop turns s1")
    show ?thesis using s1 listen http_loop_closes [OF loop] Inr loop
      by (simp add: http_run_def s0_def [symmetric] http_stop_def Let_def)
  qed
qed

end
