(* ===== verification/Tcp_Server.thy ===== *)
theory Tcp_Server
  imports Wire_Format Metrics_Store History_Store State_Tracker Alert_Manager Thread_Pool Tcp_Connection
    Acceptor Timer_Fd Http_Server
begin

text \<open>
  The server: \<open>include/server/TcpServer.h\<close> and \<open>src/server/TcpServer.cpp\<close>.  The callbacks
  \<open>run\<close> registers are definitions over the data they share: the four stores, the functors
  queued for the reactor, the connections and the pool.  The task of a message is a list of
  steps, each of which is one critical section of a store, so that the tasks of several
  workers can interleave.  The lemmas account for the descriptors of clients and for the
  channels the server registers and removes.
\<close>

section \<open>State\<close>

record server =
  sv_metrics :: metrics_store
  sv_history :: history_store
  sv_alerts :: alert_manager
  sv_tracker :: state_tracker
  sv_functors :: "string list"
  sv_log :: "log_entry list"

definition server_log :: "log_level \<Rightarrow> string \<Rightarrow> server \<Rightarrow> server" where
  "server_log level msg s = s\<lparr> sv_log := sv_log s @ [(level, msg)] \<rparr>"

text \<open>The constructor: the two ports, of which the configured one is cut to sixteen bits.\<close>

definition new_tcp_server :: "u16 \<Rightarrow> config \<Rightarrow> (u16 \<times> u16) result" where
  "new_tcp_server port config =
     ebind (config_getInt config ''server.http_port'' 8080) (\<lambda>httpPort. Inr (port, word_of_int httpPort))"

text \<open>The stores as \<open>run\<close> creates them.\<close>

definition server_stores :: "config \<Rightarrow> server result" where
  "server_stores config =
     ebind (new_alert_manager config) (\<lambda>alertManager.
     Inr \<lparr> sv_metrics = [], sv_history = new_history 120, sv_alerts = alertManager, sv_tracker = [],
           sv_functors = [], sv_log = [] \<rparr>)"

text \<open>The pool; the sizes are converted from \<open>int\<close> to \<open>size_t\<close>.\<close>

definition server_pool :: "(nat \<Rightarrow> string option) \<Rightarrow> config \<Rightarrow> server \<Rightarrow> ('t pool \<times> server) result" where
  "server_pool spawn config s =
     ebind (config_getInt config ''worker.threads'' 4) (\<lambda>workerThreads.
     ebind (config_getInt config ''worker.queue_size'' 1024) (\<lambda>workerQueueSize.
     ebind (new_pool spawn (word_of_int workerThreads) (word_of_int workerQueueSize)) (\<lambda>threadPool.
     Inr (threadPool, server_log Info (''Worker thread pool started: threads='' @ dec (threadCount threadPool) @
       '', queue_capacity='' @ dec (unat (maxQueueSize threadPool))) s))))"

section \<open>The task of a message\<close>

text \<open>The clocks a step may read: history and store use the system clock, alerts the steady one.\<close>

record clocks =
  ck_systemMs :: int
  ck_systemNs :: int
  ck_steadyNs :: int

datatype task_step =
    AddHistory SystemMetrics
  | UpdateAlerts SystemMetrics
  | StoreMetrics SystemMetrics
  | TrackOnline SystemMetrics
  | QueueResult SystemMetrics

definition firing_logs :: "ManagedAlert list \<Rightarrow> log_entry list" where
  "firing_logs alerts = map (\<lambda>alert. (Warning, ''Alert firing: '' @ ma_hostname alert @ '' '' @ ma_metric alert))
     (filter (\<lambda>alert. ma_state alert = Firing) alerts)"

definition result_text :: "SystemMetrics \<Rightarrow> string" where
  "result_text m = ''Metrics stored: host='' @ hostname m @ '', cpu='' @ show_fixed 6 (cpuUsagePercent m) @
     ''%, memory='' @ show_fixed 6 (memoryUsagePercent m) @ ''%, load1='' @ show_fixed 6 (load1 m) @
     '', processes='' @ dec (length (topProcesses m))"

text \<open>Deserializing touches nothing shared: it gives the entries to log and the steps to come.\<close>

definition start_task :: "string \<times> string \<Rightarrow> log_entry list \<times> task_step list" where
  "start_task task = (case task of (clientName, metricsMessage) \<Rightarrow>
     case deserialize metricsMessage of
       Inl e \<Rightarrow> ([(Warning, ''Invalid metrics from '' @ clientName @ '': '' @ what e)], [])
     | Inr m \<Rightarrow> ([], [AddHistory m, UpdateAlerts m, StoreMetrics m, TrackOnline m, QueueResult m]))"

text \<open>
  One step: whether the task goes on, the entries the worker writes after it, and the server.
  The alert manager logs under its own lock, so its entries are part of the step; the worker
  calls the logger for its own ones when it holds no lock of a store.
\<close>

fun exec_step :: "clocks \<Rightarrow> task_step \<Rightarrow> server \<Rightarrow> bool \<times> log_entry list \<times> server" where
  "exec_step ck (AddHistory m) s =
     (True, [], s\<lparr> sv_history := history_add (ck_systemMs ck) (hostname m) (cpuUsagePercent m) (memoryUsagePercent m) (sv_history s) \<rparr>)"
| "exec_step ck (UpdateAlerts m) s =
     (case alert_update (ck_steadyNs ck) m (sv_alerts s) of
        (am, alerts, logs) \<Rightarrow> (True, firing_logs alerts, s\<lparr> sv_alerts := am, sv_log := sv_log s @ logs \<rparr>))"
| "exec_step ck (StoreMetrics m) s =
     (case store_update (ck_systemNs ck) m (sv_metrics s) of
        Inl e \<Rightarrow> (False, [(Error, ''Store metrics failed: '' @ what e)], s)
      | Inr st \<Rightarrow> (True, [], s\<lparr> sv_metrics := st \<rparr>))"
| "exec_step ck (TrackOnline m) s =
     (case tracker_update (hostname m) Online (sv_tracker s) of
        (change, st) \<Rightarrow>
          (True, if changed change
                 then [(Info, ''Host state initialized: '' @ hostname m @ '' -> '' @ statusToString (newStatus change))]
                 else [],
           s\<lparr> sv_tracker := st \<rparr>))"
| "exec_step ck (QueueResult m) s = (True, [], s\<lparr> sv_functors := sv_functors s @ [result_text m] \<rparr>)"

definition log_all :: "log_entry list \<Rightarrow> server \<Rightarrow> server" where
  "log_all logs s = s\<lparr> sv_log := sv_log s @ logs \<rparr>"

text \<open>A task without interference: what a single worker does.\<close>

fun run_steps :: "(task_step \<Rightarrow> clocks) \<Rightarrow> task_step list \<Rightarrow> server \<Rightarrow> server" where
  "run_steps ck [] s = s"
| "run_steps ck (st # rest) s = (case exec_step (ck st) st s of
     (go, logs, s) \<Rightarrow> if go then run_steps ck rest (log_all logs s) else log_all logs s)"

definition worker_task :: "(task_step \<Rightarrow> clocks) \<Rightarrow> string \<times> string \<Rightarrow> server \<Rightarrow> server" where
  "worker_task ck task s = (case start_task task of (logs, steps) \<Rightarrow> run_steps ck steps (log_all logs s))"

section \<open>The callbacks of the reactor\<close>

text \<open>A message: it is submitted with the name of its client, or dropped with an entry to log.\<close>

definition message_callback :: "string \<Rightarrow> string \<Rightarrow> (string \<times> string) pool \<Rightarrow> (string \<times> string) pool \<times> log_entry list" where
  "message_callback name message threadPool =
     (case trySubmit (Some (name, message)) threadPool of
        (submitted, threadPool) \<Rightarrow>
          (threadPool, if submitted then [] else [(Warning, ''Worker queue full, drop metrics from '' @ name)]))"

text \<open>
  The timer: one scan of the snapshot \<open>hosts\<close>; \<open>now\<close> is the clock at each host.  The code
  does not read the expiration count.  Looking at one host gives the entries to log.
\<close>

definition scan_host :: "int \<Rightarrow> StoredMetrics \<Rightarrow> server \<Rightarrow> log_entry list \<times> server" where
  "scan_host now host s =
     (case tracker_update (hostname (sm_metrics host)) (getStatus now host) (sv_tracker s) of
        (stateChange, st) \<Rightarrow>
          (if \<not> changed stateChange then []
           else [(Warning, ''Host status changed: host='' @ hostname (sm_metrics host) @ '', '' @
             statusToString (oldStatus stateChange) @ '' -> '' @ statusToString (newStatus stateChange))],
           s\<lparr> sv_tracker := st \<rparr>))"

fun timer_scan :: "(StoredMetrics \<Rightarrow> int) \<Rightarrow> StoredMetrics list \<Rightarrow> server \<Rightarrow> server" where
  "timer_scan now [] s = s"
| "timer_scan now (host # hosts) s =
     (case scan_host (now host) host s of (logs, s) \<Rightarrow> timer_scan now hosts (log_all logs s))"

definition timer_callback :: "(StoredMetrics \<Rightarrow> int) \<Rightarrow> server \<Rightarrow> server" where
  "timer_callback now s = timer_scan now (getAll (sv_metrics s)) s"

text \<open>
  The signals: the results of \<open>sigemptyset\<close>, \<open>sigprocmask\<close> and \<open>signalfd\<close>, and what the
  callback read, the number of a signal when it was a whole record.
\<close>

definition signal_setup :: "int \<Rightarrow> int \<Rightarrow> int \<Rightarrow> int result" where
  "signal_setup emptied masked signalFd =
     ebind (throw_if (emptied < 0) (RuntimeError ''sigemptyset failed'')) (\<lambda>_.
     ebind (throw_if (masked < 0) (RuntimeError ''sigprocmask failed'')) (\<lambda>_.
     ebind (throw_if (signalFd < 0) (RuntimeError ''signalfd create failed'')) (\<lambda>_. Inr signalFd)))"

definition SIGINT :: int where "SIGINT = 2"

definition SIGTERM :: int where "SIGTERM = 15"

definition signal_callback :: "int option \<Rightarrow> server \<Rightarrow> bool \<times> server" where
  "signal_callback signo s =
     (if signo = Some SIGINT \<or> signo = Some SIGTERM then (True, server_log Info ''Shutdown signal received'' s)
      else (False, s))"

text \<open>
  A new connection: \<open>add\<close> is what registering it with the loop throws.  The result says
  whether the descriptor was closed again.
\<close>

type_synonym connections = "(int, tcp_connection) umap"

definition new_connection_callback ::
    "cxx_exn option \<Rightarrow> int \<Rightarrow> string \<Rightarrow> connections \<times> server \<Rightarrow> bool \<times> connections \<times> server" where
  "new_connection_callback add clientFd clientName st = (case st of (connections, s) \<Rightarrow>
     let s = server_log Info (''Client connected: '' @ clientName @ '', fd='' @ dec_int clientFd) s
     in case new_connection add clientFd clientName of
          Inl e \<Rightarrow> (True, connections, server_log Error (''Create TcpConnection failed: '' @ what e) s)
        | Inr connection \<Rightarrow>
            let connection = connection_setCloseCallback Erases (connection_setMessageCallback connection)
            in if um_find connections clientFd = None then (False, um_assign clientFd connection connections, s)
               else (True, connections, s))"

definition close_callback_server :: "int \<Rightarrow> connections \<times> server \<Rightarrow> connections \<times> server" where
  "close_callback_server fd st = (case st of (connections, s) \<Rightarrow>
     case um_find connections fd of
       None \<Rightarrow> (connections, s)
     | Some _ \<Rightarrow> (um_erase fd connections, server_log Info (''Client disconnected fd='' @ dec_int fd) s))"

section \<open>Descriptors of clients\<close>

text \<open>
  The callbacks with the list of the descriptors they closed; \<open>add fd\<close> is what registering
  the channel of \<open>fd\<close> throws.  Erasing a connection closes its descriptor.
\<close>

type_synonym clients = "connections \<times> server \<times> int list"

definition accept_client :: "(int \<Rightarrow> cxx_exn option) \<Rightarrow> int \<Rightarrow> string \<Rightarrow> clients \<Rightarrow> clients" where
  "accept_client add fd name st = (case st of (connections, s, shut) \<Rightarrow>
     case new_connection_callback (add fd) fd name (connections, s) of
       (again, connections, s) \<Rightarrow> (connections, s, if again then shut @ [fd] else shut))"

definition drop_client :: "int \<Rightarrow> clients \<Rightarrow> clients" where
  "drop_client fd st = (case st of (connections, s, shut) \<Rightarrow>
     case close_callback_server fd (connections, s) of
       (connections', s) \<Rightarrow> (connections', s, if um_find connections fd \<noteq> None then shut @ [fd] else shut))"

datatype client_event = ClientsWaiting "client_result list" | ConnectionCloses int

fun serve_step :: "client_event \<Rightarrow> clients acceptor \<times> clients \<Rightarrow> clients acceptor \<times> clients" where
  "serve_step (ClientsWaiting rs) st = handleAccept rs st"
| "serve_step (ConnectionCloses fd) (a, st) = (a, drop_client fd st)"

definition serve_run :: "client_event list \<Rightarrow> clients acceptor \<times> clients \<Rightarrow> clients acceptor \<times> clients" where
  "serve_run evs st = foldl (\<lambda>st ev. serve_step ev st) st evs"

fun event_fds :: "client_event \<Rightarrow> int list" where
  "event_fds (ClientsWaiting rs) = accepted_fds rs"
| "event_fds (ConnectionCloses fd) = []"

definition clients_ok :: "clients \<Rightarrow> bool" where
  "clients_ok st = um_ok (fst st)"

definition client_fds :: "clients \<Rightarrow> int multiset" where
  "client_fds st = mset (map fst (fst st)) + mset (snd (snd st))"

lemma mset_keys_assign: "um_find m k = None \<Longrightarrow> mset (map fst (um_assign k v m)) = add_mset k (mset (map fst m))"
  by (induction k v m rule: um_assign.induct) (auto simp: um_find_def split: if_splits)

lemma um_erase_absent: "k \<notin> fst ` set m \<Longrightarrow> um_erase k m = m"
  by (induction m) (auto simp: um_erase_def)

lemma mset_keys_erase:
  "um_ok m \<Longrightarrow> um_find m k \<noteq> None \<Longrightarrow> mset (map fst m) = add_mset k (mset (map fst (um_erase k m)))"
proof (induction m)
  case (Cons e m)
  obtain k' v where e: "e = (k', v)" by fastforce
  show ?case
  proof (cases "k' = k")
    case True
    have "um_erase k m = m" using Cons.prems(1) by (intro um_erase_absent) (simp add: um_ok_def e True)
    then show ?thesis by (simp add: e True um_erase_def)
  next
    case False
    then show ?thesis using Cons by (simp add: e um_ok_def um_find_def um_erase_def)
  qed
qed simp

interpretation clients: connection_owner "accept_client add" clients_ok client_fds
proof
  fix s :: clients and fd name
  obtain connections sv shut where s: "s = (connections, sv, shut)" by (cases s) auto
  assume "clients_ok s"
  then have "um_ok connections" by (simp add: clients_ok_def s)
  then show "client_fds (accept_client add fd name s) = add_mset fd (client_fds s)"
    and "clients_ok (accept_client add fd name s)"
    by (auto simp: s accept_client_def new_connection_callback_def Let_def client_fds_def clients_ok_def
        mset_keys_assign [unfolded mset_map] split: sum.split)
qed

lemma drop_client_fds:
  "clients_ok st \<Longrightarrow> clients_ok (drop_client fd st) \<and> client_fds (drop_client fd st) = client_fds st"
  by (cases st) (auto simp: drop_client_def close_callback_server_def clients_ok_def client_fds_def
      mset_keys_erase [unfolded mset_map] split: option.split)

lemma serve_run_accounts:
  assumes "ac_newConnectionCallback a = Some (accept_client add)" and "clients_ok st"
    and "serve_run evs (a, st) = (a', st')"
  shows "clients_ok st' \<and>
     mset (ac_closed a') + client_fds st' = mset (concat (map event_fds evs)) + mset (ac_closed a) + client_fds st"
  using assms
proof (induction evs arbitrary: a st)
  case (Cons ev evs)
  obtain a1 st1 where step: "serve_step ev (a, st) = (a1, st1)" by (cases "serve_step ev (a, st)")
  have "ac_newConnectionCallback a1 = Some (accept_client add) \<and> clients_ok st1 \<and>
      mset (ac_closed a1) + client_fds st1 = mset (event_fds ev) + mset (ac_closed a) + client_fds st"
  proof (cases ev)
    case (ClientsWaiting rs)
    then show ?thesis using clients.accounts [OF Cons.prems(1,2), of rs a1 st1] step by simp
  next
    case (ConnectionCloses fd)
    then show ?thesis using drop_client_fds [OF Cons.prems(2), of fd] step Cons.prems(1) by auto
  qed
  then show ?case using Cons.IH [of a1 st1] Cons.prems(3) step by (simp add: serve_run_def)
qed (simp add: serve_run_def)

text \<open>
  C24: whatever the calls return, after any sequence of batches of clients and of connections
  that close, each descriptor \<open>accept4\<close> gave is the key of one connection or has been closed
  once, by the acceptor or by the server; a descriptor number that the kernel gives again
  counts again.
\<close>

theorem clients_accounted:
  "let (a, st) = serve_run evs (setNewConnectionCallback (Some (accept_client add))
         \<lparr> ac_listenFd = fd, ac_newConnectionCallback = None, ac_closed = [], ac_log = [] \<rparr>, [], s, [])
   in distinct (map fst (fst st)) \<and>
      mset (concat (map event_fds evs)) = mset (map fst (fst st)) + mset (ac_closed a) + mset (snd (snd st))"
proof -
  define a0 where "a0 = setNewConnectionCallback (Some (accept_client add))
    \<lparr> ac_listenFd = fd, ac_newConnectionCallback = None, ac_closed = [], ac_log = [] \<rparr>"
  obtain a st where run: "serve_run evs (a0, [], s, []) = (a, st)" by (cases "serve_run evs (a0, [], s, [])")
  have "ac_newConnectionCallback a0 = Some (accept_client add)" "ac_closed a0 = []" "clients_ok ([], s, [])"
    "client_fds ([], s, []) = {#}"
    by (simp_all add: a0_def setNewConnectionCallback_def clients_ok_def client_fds_def)
  then show ?thesis using serve_run_accounts [OF _ _ run, of add]
    by (simp add: a0_def [symmetric] run clients_ok_def client_fds_def um_ok_def ac_simps)
qed

section \<open>Start and shutdown\<close>

text \<open>
  The results of the system calls of the start of \<open>run\<close>, where \<open>cs_ctl fd\<close> says whether
  registering \<open>fd\<close> fails and \<open>cs_add\<close> what registering a client throws, and the objects that
  live until \<open>run\<close> returns.  A functor of the loop is the text it logs.
\<close>

record server_calls =
  cs_epollFd :: int
  cs_wakeupFd :: int
  cs_ctl :: "int \<Rightarrow> bool"
  cs_add :: "int \<Rightarrow> cxx_exn option"
  cs_spawn :: "nat \<Rightarrow> string option"
  cs_timerFd :: int
  cs_timerError :: string
  cs_settime :: "string option"
  cs_emptied :: int
  cs_masked :: int
  cs_signalFd :: int
  cs_socketFd :: int
  cs_reuse :: int
  cs_bound :: int
  cs_listening :: int

record server_parts =
  sp_loop :: "string event_loop"
  sp_http :: http_server
  sp_pool :: "(string \<times> string) pool"
  sp_timer :: timer
  sp_signalFd :: int
  sp_acceptor :: "clients acceptor"
  sp_server :: server

definition MAX_EVENTS :: int where "MAX_EVENTS = 64"

definition server_setup :: "server_calls \<Rightarrow> u16 \<Rightarrow> u16 \<Rightarrow> config \<Rightarrow> server_parts result" where
  "server_setup cs port httpPort config =
     ebind (snd (new_event_loop MAX_EVENTS (cs_epollFd cs) (cs_wakeupFd cs) (cs_ctl cs (cs_wakeupFd cs)))) (\<lambda>eventLoop.
     ebind (server_stores config) (\<lambda>s.
     ebind (server_pool (cs_spawn cs) config s) (\<lambda>(threadPool, s).
     ebind (new_timer (cs_timerFd cs) (cs_timerError cs)) (\<lambda>statusTimer.
     ebind (timer_start (cs_settime cs) 5 statusTimer) (\<lambda>statusTimer.
     ebind (addChannel (cs_ctl cs (tf_fd statusTimer)) (Some (tf_fd statusTimer, EPOLLIN)) eventLoop) (\<lambda>eventLoop.
     ebind (signal_setup (cs_emptied cs) (cs_masked cs) (cs_signalFd cs)) (\<lambda>signalFd.
     ebind (addChannel (cs_ctl cs signalFd) (Some (signalFd, EPOLLIN)) eventLoop) (\<lambda>eventLoop.
     ebind (snd (new_acceptor (cs_socketFd cs) (cs_reuse cs) (cs_bound cs) (cs_listening cs) (cs_ctl cs (cs_socketFd cs))
                   eventLoop)) (\<lambda>(acceptor, eventLoop).
     Inr \<lparr> sp_loop = eventLoop, sp_http = http_start (new_http_server httpPort), sp_pool = threadPool,
           sp_timer = statusTimer, sp_signalFd = signalFd,
           sp_acceptor = setNewConnectionCallback (Some (accept_client (cs_add cs))) acceptor,
           sp_server = server_log Info (''LMonitor Reactor Server listening on port '' @ dec (unat port)) s \<rparr>)))))))))"

text \<open>The end of \<open>run\<close>; the descriptors it closes itself are the second component.\<close>

definition server_shutdown :: "string option \<Rightarrow> (int \<Rightarrow> bool) \<Rightarrow> server_parts \<Rightarrow> (server_parts \<times> int list) result" where
  "server_shutdown settime ctl p =
     (let statusTimer = timer_stop settime (sp_timer p)
      in ebind (removeChannel (ctl (tf_fd statusTimer)) (Some (tf_fd statusTimer, EPOLLIN)) (sp_loop p)) (\<lambda>eventLoop.
         ebind (removeChannel (ctl (sp_signalFd p)) (Some (sp_signalFd p, EPOLLIN)) eventLoop) (\<lambda>eventLoop.
         Inr (p\<lparr> sp_loop := eventLoop, sp_http := http_stop (sp_http p), sp_timer := statusTimer,
                 sp_server := server_log Info ''LMonitor Server stopped gracefully''
                   (server_log Info ''Stopping LMonitor Server...'' (sp_server p)) \<rparr>, [sp_signalFd p]))))"

text \<open>A server that starts watches four descriptors; one that stops keeps the two whose objects remove them.\<close>

lemma setup_channels:
  assumes "server_setup cs port httpPort config = Inr p"
  shows "watched (sp_loop p) = {cs_wakeupFd cs, cs_timerFd cs, cs_signalFd cs, cs_socketFd cs} \<and>
     distinct [cs_wakeupFd cs, cs_timerFd cs, cs_signalFd cs, cs_socketFd cs] \<and>
     tf_fd (sp_timer p) = cs_timerFd cs \<and> sp_signalFd p = cs_signalFd cs"
proof -
  obtain l0 t0 t1 l1 sig l2 and acc :: "clients acceptor \<times> string event_loop" where steps:
    "snd (new_event_loop MAX_EVENTS (cs_epollFd cs) (cs_wakeupFd cs) (cs_ctl cs (cs_wakeupFd cs))) = Inr l0"
    "new_timer (cs_timerFd cs) (cs_timerError cs) = Inr t0" "timer_start (cs_settime cs) 5 t0 = Inr t1"
    "addChannel (cs_ctl cs (tf_fd t1)) (Some (tf_fd t1, EPOLLIN)) l0 = Inr l1"
    "signal_setup (cs_emptied cs) (cs_masked cs) (cs_signalFd cs) = Inr sig"
    "addChannel (cs_ctl cs sig) (Some (sig, EPOLLIN)) l1 = Inr l2"
    "snd (new_acceptor (cs_socketFd cs) (cs_reuse cs) (cs_bound cs) (cs_listening cs) (cs_ctl cs (cs_socketFd cs)) l2) = Inr acc"
    and p: "sp_loop p = snd acc" "sp_timer p = t1" "sp_signalFd p = sig"
    using assms unfolding server_setup_def ebind_eq_Inr split_beta by (elim exE conjE) (rule that, assumption+,
      (drule sum.inject(2) [THEN iffD1], hypsubst, simp only: server_parts.select_convs)+)
  have "tf_fd t1 = cs_timerFd cs" using steps(2,3) timer_fds by metis
  moreover have "sig = cs_signalFd cs" using steps(5) by (simp add: signal_setup_def result_simps)
  moreover obtain a l3 where acc: "acc = (a, l3)" by (cases acc)
  ultimately show ?thesis
    using watched_new [OF steps(1)] watched_add [OF steps(4)] watched_add [OF steps(6)] watched_acceptor [OF steps(7) [unfolded acc]]
    by (auto simp only: p acc snd_conv insert_iff empty_iff distinct.simps list.set insert_commute)
qed

lemma shutdown_channels:
  assumes "server_setup cs port httpPort config = Inr p" and "server_shutdown settime ctl p = Inr (p', shut)"
  shows "watched (sp_loop p') = {cs_wakeupFd cs, cs_socketFd cs} \<and> shut = [cs_signalFd cs] \<and>
     \<not> hs_running (sp_http p')"
proof -
  note start = setup_channels [OF assms(1)]
  define timer_fd where "timer_fd = tf_fd (timer_stop settime (sp_timer p))"
  have fds: "timer_fd = cs_timerFd cs" "sp_signalFd p = cs_signalFd cs" using start by (simp_all add: timer_fd_def timer_fds(3))
  define final where "final l = (p\<lparr> sp_loop := l, sp_http := http_stop (sp_http p), sp_timer := timer_stop settime (sp_timer p),
      sp_server := server_log Info ''LMonitor Server stopped gracefully''
        (server_log Info ''Stopping LMonitor Server...'' (sp_server p)) \<rparr>)" for l
  have "\<exists>l1 l2. removeChannel (ctl timer_fd) (Some (timer_fd, EPOLLIN)) (sp_loop p) = Inr l1 \<and>
      removeChannel (ctl (sp_signalFd p)) (Some (sp_signalFd p, EPOLLIN)) l1 = Inr l2 \<and> p' = final l2 \<and> shut = [sp_signalFd p]"
    using assms(2) unfolding server_shutdown_def Let_def ebind_eq_Inr timer_fd_def [symmetric] final_def [symmetric]
      sum.inject prod.inject
    by (elim exE conjE) (intro exI conjI, assumption+, (erule sym)+)
  then obtain l1 l2 where removes: "removeChannel (ctl timer_fd) (Some (timer_fd, EPOLLIN)) (sp_loop p) = Inr l1"
    "removeChannel (ctl (sp_signalFd p)) (Some (sp_signalFd p, EPOLLIN)) l1 = Inr l2"
    and p': "p' = final l2" "shut = [sp_signalFd p]" by blast
  have "watched (sp_loop p') = watched (sp_loop p) - {timer_fd} - {sp_signalFd p}"
    using watched_remove [OF removes(1)] watched_remove [OF removes(2)] by (simp add: p' final_def)
  moreover have "\<not> hs_running (sp_http p')" by (simp add: p' final_def http_stop_def Let_def)
  moreover have "{cs_wakeupFd cs, cs_timerFd cs, cs_signalFd cs, cs_socketFd cs} - {cs_timerFd cs} - {cs_signalFd cs} =
      {cs_wakeupFd cs, cs_socketFd cs}"
    using start by (simp add: insert_Diff_if)
  moreover have "watched (sp_loop p) = {cs_wakeupFd cs, cs_timerFd cs, cs_signalFd cs, cs_socketFd cs}" using start by blast
  ultimately show ?thesis using p'(2) by (simp only: fds simp_thms)
qed

end
