(* ===== verification/Server_Clients.thy ===== *)
theory Server_Clients
  imports Tcp_Server
begin

text \<open>
  Several clients of the server side by side, from \<open>src/server/TcpServer.cpp\<close> and
  \<open>src/network/TcpConnection.cpp\<close>: the reactor dispatches the events of one descriptor after
  another to their connections.  The theory shows that the messages of a client are those of
  its own stream, whatever the other clients send and however the events alternate.
\<close>

section \<open>Events of the reactor\<close>

text \<open>
  A client that was accepted, where the first argument is what registering its channel
  throws, and a descriptor that is ready, with its mask and what \<open>recv\<close> will return.  The
  messages that the connections hand to the message callback are collected with their
  descriptor.
\<close>

datatype reactor_event = Accepts "cxx_exn option" int string | Ready_fd int u32 "recv_result list"

type_synonym front = "connections \<times> server \<times> (int \<times> string \<times> string) list"

fun client_turn :: "reactor_event \<Rightarrow> front callback" where
  "client_turn (Accepts add fd name) (cs, s, offered) =
     (case new_connection_callback add fd name (cs, s) of (again, cs, s) \<Rightarrow> Inr (cs, s, offered))"
| "client_turn (Ready_fd fd revents rs) (cs, s, offered) =
     (case um_find cs fd of
        None \<Rightarrow> Inr (cs, s, offered)
      | Some c \<Rightarrow> (case connection_event revents rs c of
          Inl e \<Rightarrow> Inl e
        | Inr c' \<Rightarrow>
            let offered = offered @ map (Pair fd) (drop (length (tc_delivered c)) (tc_delivered c'))
            in if tc_alive c' then Inr (um_assign fd c' cs, s, offered)
               else (case close_callback_server fd (cs, s) of (cs, s) \<Rightarrow> Inr (cs, s, offered))))"

fun client_turns :: "reactor_event list \<Rightarrow> front callback" where
  "client_turns [] st = Inr st"
| "client_turns (e # es) st = ebind (client_turn e st) (client_turns es)"

text \<open>The events of one descriptor, and the messages offered from it.\<close>

fun own_events :: "int \<Rightarrow> reactor_event list \<Rightarrow> (u32 \<times> recv_result list) list" where
  "own_events fd [] = []"
| "own_events fd (Accepts add d name # es) = own_events fd es"
| "own_events fd (Ready_fd d revents rs # es) = (if d = fd then [(revents, rs)] else []) @ own_events fd es"

definition offered_by :: "int \<Rightarrow> (int \<times> string \<times> string) list \<Rightarrow> (string \<times> string) list" where
  "offered_by fd offered = map snd (filter (\<lambda>t. fst t = fd) offered)"

lemma offered_by_append [simp]: "offered_by fd (xs @ ys) = offered_by fd xs @ offered_by fd ys"
  by (simp add: offered_by_def)

lemma offered_by_Pair [simp]: "offered_by fd (map (Pair d) ms) = (if d = fd then ms else [])"
  by (simp add: offered_by_def comp_def filter_map)

section \<open>Connections do not meet\<close>

lemma other_turn:
  assumes "client_turn e (cs, s, offered) = Inr (cs', s', offered')" and "um_find cs fd = Some c" and "own_events fd [e] = []"
  shows "um_find cs' fd = Some c \<and> offered_by fd offered' = offered_by fd offered"
proof (cases e)
  case (Accepts add d name)
  then show ?thesis using assms by (auto simp: new_connection_callback_def Let_def um_simps split: sum.splits if_splits)
next
  case (Ready_fd d revents rs)
  then have "d \<noteq> fd" using assms(3) by (auto split: if_splits)
  then show ?thesis using assms(1,2) Ready_fd
    by (auto simp: close_callback_server_def Let_def um_simps split: option.splits sum.splits if_splits)
qed

lemma event_readable:
  assumes "tc_alive c" and "0 \<le> tc_fd c"
  shows "connection_event EPOLLIN rs c = handleRead rs c"
proof -
  have masks: "EPOLLIN AND EPOLLERR = 0" "EPOLLIN AND (EPOLLHUP OR EPOLLRDHUP) = 0" "EPOLLIN \<noteq> 0"
    by (simp_all add: epoll_masks)
  have "connection_channel rs (tc_fd c) = Inr \<lparr> ch_fd = tc_fd c, ch_events = EPOLLIN OR EPOLLRDHUP,
      ch_readCallback = Some (handleRead rs), ch_closeCallback = Some handleClose, ch_errorCallback = Some handleError \<rparr>"
    using assms(2) by (simp add: connection_channel_def new_channel_def setErrorCallback_def setCloseCallback_def
        setReadCallback_def setEvents_def)
  then show ?thesis using assms(1) masks
    by (cases "handleRead rs c") (simp_all add: connection_event_def handleEvent_def call_member_def)
qed

text \<open>A descriptor that is readable, with data until the call would block.\<close>

definition readable :: "string list \<Rightarrow> u32 \<times> recv_result list" where
  "readable chunks = (EPOLLIN, map Received chunks @ [RecvEagain])"

definition settled :: "tcp_connection \<Rightarrow> bool" where
  "settled c \<longleftrightarrow> open_connection c \<and> 0 \<le> tc_fd c \<and> tryDecode (tc_pendingData c) = Inr (tc_pendingData c, None)"

lemma settled_drains: "settled c \<Longrightarrow> drains tryDecode (tc_pendingData c) [] (tc_pendingData c)"
  by (simp add: settled_def drains.drains_done)

lemma drains_rest: "drains tryDecode b ps r \<Longrightarrow> tryDecode r = Inr (r, None)"
  by (induction rule: drains.induct) (auto dest: tryDecode_None)

lemma settled_read:
  assumes "settled c" and "drains tryDecode (tc_pendingData c @ concat chunks) ps rest"
  shows "connection_event EPOLLIN (map Received chunks @ [RecvEagain]) c =
       Inr (c\<lparr> tc_pendingData := rest, tc_delivered := tc_delivered c @ map (Pair (tc_clientName c)) ps \<rparr>)"
    and "settled (c\<lparr> tc_pendingData := rest, tc_delivered := tc_delivered c @ map (Pair (tc_clientName c)) ps \<rparr>)"
proof -
  have open_c: "open_connection c" "tc_alive c" "0 \<le> tc_fd c" "\<not> tc_closing c"
    using assms(1) by (simp_all add: settled_def open_connection_def)
  show "connection_event EPOLLIN (map Received chunks @ [RecvEagain]) c =
       Inr (c\<lparr> tc_pendingData := rest, tc_delivered := tc_delivered c @ map (Pair (tc_clientName c)) ps \<rparr>)"
    using recv_loop_drains [OF assms(2) open_c(1) settled_drains [OF assms(1)], of "[RecvEagain]"] open_c
    by (simp add: event_readable handleRead_def)
  show "settled (c\<lparr> tc_pendingData := rest, tc_delivered := tc_delivered c @ map (Pair (tc_clientName c)) ps \<rparr>)"
    using open_c drains_rest [OF assms(2)] by (simp add: settled_def open_connection_def)
qed

lemma client_alone:
  assumes "client_turns es (cs, s, offered) = Inr (cs', s', offered')" and "um_find cs fd = Some c" and "settled c"
    and "own_events fd es = map readable cuts" and "drains tryDecode (tc_pendingData c @ concat (concat cuts)) ps rest"
  shows "um_find cs' fd = Some (c\<lparr> tc_pendingData := rest, tc_delivered := tc_delivered c @ map (Pair (tc_clientName c)) ps \<rparr>) \<and>
     offered_by fd offered' = offered_by fd offered @ map (Pair (tc_clientName c)) ps"
  using assms
proof (induction es arbitrary: cs s offered c cuts ps)
  case Nil
  then have "ps = [] \<and> rest = tc_pendingData c" using drains_unique [OF settled_drains [OF Nil.prems(3)]] by fastforce
  then show ?case using Nil.prems by simp
next
  case (Cons e es)
  obtain cs1 s1 offered1 where turn: "client_turn e (cs, s, offered) = Inr (cs1, s1, offered1)"
    and turns: "client_turns es (cs1, s1, offered1) = Inr (cs', s', offered')"
    using Cons.prems(1) by (cases "client_turn e (cs, s, offered)") auto
  have split: "own_events fd (e # es) = own_events fd [e] @ own_events fd es" by (cases e) simp_all
  show ?case
  proof (cases "own_events fd [e]")
    case Nil
    note kept = other_turn [OF turn Cons.prems(2) Nil]
    then show ?thesis using Cons.IH [OF turns _ Cons.prems(3) _ Cons.prems(5)] Cons.prems(4) split Nil by simp
  next
    case (Cons ev evs)
    then obtain revents rs where e: "e = Ready_fd fd revents rs" by (cases e) (auto split: if_splits)
    obtain chunks cuts' where cuts: "cuts = chunks # cuts'" "revents = EPOLLIN" "rs = map Received chunks @ [RecvEagain]"
      "own_events fd es = map readable cuts'"
      using Cons.prems(4) unfolding e by (cases cuts) (auto simp: readable_def)
    obtain ps1 mid ps2 where mid: "drains tryDecode (tc_pendingData c @ concat chunks) ps1 mid"
      and tail: "drains tryDecode (mid @ concat (concat cuts')) ps2 rest" and ps: "ps = ps1 @ ps2"
      using fc.drains_cut [of "tc_pendingData c @ concat chunks" "concat (concat cuts')" ps rest] Cons.prems(5) cuts(1) by auto
    define c1 where "c1 = c\<lparr> tc_pendingData := mid, tc_delivered := tc_delivered c @ map (Pair (tc_clientName c)) ps1 \<rparr>"
    note read = settled_read [OF Cons.prems(3) mid, folded c1_def]
    have "tc_alive c1" using read(2) by (simp add: settled_def open_connection_def)
    then have c1: "um_find cs1 fd = Some c1" "offered1 = offered @ map (Pair fd) (map (Pair (tc_clientName c)) ps1)"
      using turn read(1) Cons.prems(2) by (auto simp: e cuts(2,3) Let_def um_simps c1_def)
    have tail1: "drains tryDecode (tc_pendingData c1 @ concat (concat cuts')) ps2 rest" using tail by (simp add: c1_def)
    from Cons.IH [OF turns c1(1) read(2) cuts(4) tail1] show ?thesis by (simp add: c1_def c1(2) ps del: map_map)
  qed
qed

text \<open>
  C10: clients do not disturb each other: while the server runs without a memory error, whatever
  other clients connect, send, close or break and however the events alternate, the messages
  handed on from a client whose stream is whole frames and a part of one are the payloads of
  these frames, in order and under its name, and its buffer holds the part.
\<close>

theorem clients_side_by_side:
  assumes "client_turns es (cs, s, offered) = Inr (cs', s', offered')" and "um_find cs fd = Some c" and "settled c"
    and "own_events fd es = map readable cuts" and "list_all2 (\<lambda>p f. encode p = Inr f) payloads frames"
    and "encode next_payload = Inr (part @ missing)" and "missing \<noteq> []"
    and "tc_pendingData c @ concat (concat cuts) = concat frames @ part"
  shows "um_find cs' fd = Some (c\<lparr> tc_pendingData := part, tc_delivered := tc_delivered c @ map (Pair (tc_clientName c)) payloads \<rparr>) \<and>
     offered_by fd offered' = offered_by fd offered @ map (Pair (tc_clientName c)) payloads"
proof (rule client_alone [OF assms(1-4)])
  show "drains tryDecode (tc_pendingData c @ concat (concat cuts)) payloads part"
    using fc.drains_frames [OF assms(5) fc.drains_part [OF assms(6,7)]] by (simp add: assms(8))
qed

text \<open>
  A second client connects between two reads of the first one, and its connection breaks.
\<close>

definition demo_turns :: "reactor_event list" where
  "demo_turns = [Ready_fd 7 EPOLLIN (map Received [[CHR 0x00, CHR 0x00], [CHR 0x00, CHR 0x02, CHR ''h'']] @ [RecvEagain]),
     Accepts None 8 ''10.0.0.3:50000'', Ready_fd 8 EPOLLIN [RecvError], Ready_fd 7 EPOLLIN (map Received [''i'' @ [CHR 0x00]] @ [RecvEagain])]"

definition demo_front :: "server \<Rightarrow> front" where
  "demo_front s = ([(7, demo_connection)], s, [])"

theorem clients_side_by_side_witness:
  "\<exists>s cs s' offered. server_stores [] = Inr s \<and> client_turns demo_turns (demo_front s) = Inr (cs, s', offered) \<and>
     map fst cs = [7] \<and> offered_by 7 offered = [(''10.0.0.2:40000'', ''hi'')]"
proof -
  obtain s where s: "server_stores [] = Inr s" by (auto simp: server_stores_def new_alert_manager_default result_simps)
  have frames: "list_all2 (\<lambda>p f. encode p = Inr f) [''hi''] [[CHR 0x00, CHR 0x00, CHR 0x00, CHR 0x02] @ ''hi'']"
    "encode [] = Inr ([CHR 0x00] @ [CHR 0x00, CHR 0x00, CHR 0x00])"
    "encode ''hi'' = Inr ([CHR 0x00, CHR 0x00, CHR 0x00, CHR 0x02, CHR ''h''] @ ''i'')"
    by (simp_all add: encode_Inr_iff mem_htonl char_of_def bit_0)
  define c1 where "c1 = demo_connection\<lparr> tc_pendingData := [CHR 0x00, CHR 0x00, CHR 0x00, CHR 0x02, CHR ''h''] \<rparr>"
  define c2 where "c2 = c1\<lparr> tc_pendingData := [CHR 0x00], tc_delivered := [(''10.0.0.2:40000'', ''hi'')] \<rparr>"
  have settled: "settled demo_connection" by (simp add: settled_def open_connection_def demo_connection_def tryDecode_Nil)
  have "drains tryDecode (tc_pendingData demo_connection @ concat [[CHR 0x00, CHR 0x00], [CHR 0x00, CHR 0x02, CHR ''h'']]) []
      [CHR 0x00, CHR 0x00, CHR 0x00, CHR 0x02, CHR ''h'']"
    using fc.drains_part [OF frames(3)] by (simp add: demo_connection_def)
  note read1 = settled_read [OF settled this]
  have e1: "connection_event EPOLLIN (map Received [[CHR 0x00, CHR 0x00], [CHR 0x00, CHR 0x02, CHR ''h'']] @ [RecvEagain]) demo_connection = Inr c1"
    and s1: "settled c1" using read1 by (simp_all add: c1_def)
  have "drains tryDecode (tc_pendingData c1 @ concat [''i'' @ [CHR 0x00]]) [''hi''] [CHR 0x00]"
    using fc.drains_frames [OF frames(1) fc.drains_part [OF frames(2)]] by (simp add: c1_def)
  from settled_read(1) [OF s1 this]
  have e2: "connection_event EPOLLIN (map Received [''i'' @ [CHR 0x00]] @ [RecvEagain]) c1 = Inr c2"
    by (simp add: c2_def) (simp add: c1_def demo_connection_def)
  define c8 where "c8 = \<lparr> tc_fd = 8, tc_clientName = ''10.0.0.3:50000'', tc_pendingData = [], tc_messageCallback = True,
    tc_closeCallback = Some Erases, tc_closing = False, tc_alive = True, tc_delivered = [], tc_closeRequests = [],
    tc_closedFds = [], tc_log = [] \<rparr>"
  have t1: "client_turn (Ready_fd 7 EPOLLIN (map Received [[CHR 0x00, CHR 0x00], [CHR 0x00, CHR 0x02, CHR ''h'']] @ [RecvEagain]))
      ([(7, demo_connection)], s, []) = Inr ([(7, c1)], s, [])"
    using e1 by (simp add: um_find_def c1_def demo_connection_def)
  obtain s2 where t2: "client_turn (Accepts None 8 ''10.0.0.3:50000'') ([(7, c1)], s, []) = Inr ([(7, c1), (8, c8)], s2, [])"
    by (simp add: new_connection_callback_def new_connection_def new_channel_def connection_setCloseCallback_def
        connection_setMessageCallback_def um_find_def c8_def Let_def)
  have "\<exists>c'. connection_event EPOLLIN [RecvError] c8 = Inr c' \<and> \<not> tc_alive c' \<and> tc_delivered c' = []"
    by (simp add: event_readable handleRead_def c8_def requestClose_def add_log_def destroy_connection_def)
  then obtain s3 where t3: "client_turn (Ready_fd 8 EPOLLIN [RecvError]) ([(7, c1), (8, c8)], s2, []) = Inr ([(7, c1)], s3, [])"
    by (auto simp: um_find_def um_erase_def close_callback_server_def c8_def)
  have t4: "\<exists>offered. client_turn (Ready_fd 7 EPOLLIN (map Received [''i'' @ [CHR 0x00]] @ [RecvEagain])) ([(7, c1)], s3, []) =
      Inr ([(7, c2)], s3, offered)"
    using e2 by (simp add: um_find_def c1_def c2_def demo_connection_def)
  have "\<exists>s' offered. client_turns demo_turns (demo_front s) = Inr ([(7, c2)], s', offered)"
    unfolding demo_turns_def demo_front_def client_turns.simps t1 ebind_Inr t2 t3 using t4 by auto
  then obtain cs s' offered where run: "client_turns demo_turns (demo_front s) = Inr (cs, s', offered)" "map fst cs = [7]"
    by auto
  have own: "own_events 7 demo_turns =
      map readable [[[CHR 0x00, CHR 0x00], [CHR 0x00, CHR 0x02, CHR ''h'']], [''i'' @ [CHR 0x00]]]"
    by (simp add: demo_turns_def readable_def)
  have c: "um_find [(7, demo_connection)] 7 = Some demo_connection" by (simp add: um_find_def)
  from clients_side_by_side [OF run(1) [unfolded demo_front_def] c settled own frames(1,2)]
  have "offered_by 7 offered = [(''10.0.0.2:40000'', ''hi'')]"
    by (simp add: demo_connection_def offered_by_def)
  with s run show ?thesis by - (intro exI conjI, assumption+)
qed

end
