(* ===== verification/Ingest.thy ===== *)
theory Ingest
  imports Tcp_Server Transition_System
begin

text \<open>
  The tasks of the server's workers side by side, from \<open>src/server/TcpServer.cpp\<close>: each step of
  a task is one critical section of a store, each call of the logger a step of its own, and the
  steps of different workers interleave.
  The theory shows what the stores hold when all tasks are done, and that the order in which
  messages arrived is lost between the workers.
\<close>

section \<open>Workers side by side\<close>

text \<open>
  A thread of the pool has the entries it is about to log and the steps it has still to do.
  The logger has a lock of its own, which is taken for one entry at a time, so what other
  threads log and do may come between a step and its entries.
\<close>

type_synonym thread = "log_entry list \<times> task_step list"

text \<open>
  The messages still in the queue, the threads, and the server.  A thread with nothing left to
  do takes the next message; any thread may write its next entry or do its next step.
\<close>

record ingest =
  in_queue :: "(string \<times> string) list"
  in_workers :: "thread list"
  in_server :: server

inductive ingest_step :: "ingest \<Rightarrow> ingest \<Rightarrow> bool" where
  take_task: "ingest_step \<lparr> in_queue = t # q, in_workers = a @ ([], []) # b, in_server = s \<rparr>
      \<lparr> in_queue = q, in_workers = a @ start_task t # b, in_server = s \<rparr>"
| write_log: "ingest_step \<lparr> in_queue = q, in_workers = a @ (e # logs, steps) # b, in_server = s \<rparr>
      \<lparr> in_queue = q, in_workers = a @ (logs, steps) # b, in_server = log_all [e] s \<rparr>"
| do_step: "exec_step ck st s = (go, logs, s') \<Longrightarrow>
    ingest_step \<lparr> in_queue = q, in_workers = a @ ([], st # rest) # b, in_server = s \<rparr>
      \<lparr> in_queue = q, in_workers = a @ (logs, if go then rest else []) # b, in_server = s' \<rparr>"

definition ingest_start :: "(string \<times> string) list \<Rightarrow> nat \<Rightarrow> server \<Rightarrow> ingest" where
  "ingest_start messages n s = \<lparr> in_queue = messages, in_workers = replicate n ([], []), in_server = s \<rparr>"

definition all_done :: "ingest \<Rightarrow> bool" where
  "all_done g \<longleftrightarrow> in_queue g = [] \<and> (\<forall>w \<in> set (in_workers g). w = ([], []))"

text \<open>The snapshots of the messages that are accepted.\<close>

definition accepted_snapshots :: "(string \<times> string) list \<Rightarrow> SystemMetrics list" where
  "accepted_snapshots = List.map_filter (\<lambda>t. case deserialize (snd t) of Inl e \<Rightarrow> None | Inr m \<Rightarrow> Some m)"

text \<open>The selectors of the steps, and the snapshots for which such a step is still to come.\<close>

fun sel_history :: "task_step \<Rightarrow> SystemMetrics option" where
  "sel_history (AddHistory m) = Some m" | "sel_history _ = None"

fun sel_store :: "task_step \<Rightarrow> SystemMetrics option" where
  "sel_store (StoreMetrics m) = Some m" | "sel_store _ = None"

fun sel_track :: "task_step \<Rightarrow> SystemMetrics option" where
  "sel_track (TrackOnline m) = Some m" | "sel_track _ = None"

fun sel_queue :: "task_step \<Rightarrow> SystemMetrics option" where
  "sel_queue (QueueResult m) = Some m" | "sel_queue _ = None"

definition to_come :: "(task_step \<Rightarrow> SystemMetrics option) \<Rightarrow> ingest \<Rightarrow> SystemMetrics multiset" where
  "to_come sel g = mset (List.map_filter sel (concat (map snd (in_workers g)))) + mset (accepted_snapshots (in_queue g))"

text \<open>
  What the stores hold in terms of the snapshots \<open>hs\<close>, \<open>ss\<close>, \<open>ts\<close> and \<open>qs\<close> whose history,
  store, tracker and result steps have been done, in the order of these steps.
\<close>

definition usage :: "SystemMetrics \<Rightarrow> double \<times> double" where
  "usage m = (cpuUsagePercent m, memoryUsagePercent m)"

definition usage_at :: "MetricsHistoryPoint \<Rightarrow> double \<times> double" where
  "usage_at p = (hp_cpuUsagePercent p, hp_memoryUsagePercent p)"

definition of_host :: "string \<Rightarrow> SystemMetrics list \<Rightarrow> SystemMetrics list" where
  "of_host h = filter (\<lambda>m. hostname m = h)"

definition latest_metrics :: "string \<Rightarrow> server \<Rightarrow> SystemMetrics option" where
  "latest_metrics h s = map_option sm_metrics (getLatest h (sv_metrics s))"

definition holds :: "SystemMetrics list \<Rightarrow> SystemMetrics list \<Rightarrow> SystemMetrics list \<Rightarrow> SystemMetrics list \<Rightarrow> server \<Rightarrow> bool" where
  "holds hs ss ts qs s \<longleftrightarrow>
     maxPointsPerHost (sv_history s) = 120 \<and>
     (\<forall>h. map usage_at (history_get h (sv_history s)) = last_n 120 (map usage (of_host h hs))) \<and>
     (\<forall>h. latest_metrics h s =
        (if of_host h ss = [] then None else Some (last (of_host h ss)))) \<and>
     (\<forall>h. um_find (sv_tracker s) h = (if of_host h ts = [] then None else Some Online)) \<and>
     sv_functors s = map result_text qs"

definition ingest_inv :: "SystemMetrics list \<Rightarrow> ingest \<Rightarrow> bool" where
  "ingest_inv ms g \<longleftrightarrow> (\<exists>hs ss ts qs. holds hs ss ts qs (in_server g) \<and>
     mset ms = mset hs + to_come sel_history g \<and> mset ms = mset ss + to_come sel_store g \<and>
     mset ms = mset ts + to_come sel_track g \<and> mset ms = mset qs + to_come sel_queue g)"

lemma of_host_simps [simp]:
  "of_host h [] = []" "of_host h (xs @ [m]) = of_host h xs @ (if hostname m = h then [m] else [])"
  by (simp_all add: of_host_def)

lemma latest_metrics_other [simp]:
  "latest_metrics h (s\<lparr> sv_history := x1 \<rparr>) = latest_metrics h s" "latest_metrics h (s\<lparr> sv_alerts := x2 \<rparr>) = latest_metrics h s"
  "latest_metrics h (s\<lparr> sv_tracker := x3 \<rparr>) = latest_metrics h s" "latest_metrics h (s\<lparr> sv_functors := x4 \<rparr>) = latest_metrics h s"
  "latest_metrics h (s\<lparr> sv_log := x5 \<rparr>) = latest_metrics h s"
  by (simp_all add: latest_metrics_def)

lemma latest_metrics_store:
  "latest_metrics h (s\<lparr> sv_metrics := um_assign (hostname m) \<lparr> sm_metrics = m, updatedAt = t \<rparr> (sv_metrics s) \<rparr>) =
     (if h = hostname m then Some m else latest_metrics h s)"
  by (simp add: latest_metrics_def getLatest_def um_simps)

lemma latest_metrics_stored [simp]:
  "latest_metrics h (s\<lparr> sv_metrics := um_assign h \<lparr> sm_metrics = m, updatedAt = t \<rparr> st \<rparr>) = Some m"
  by (simp add: latest_metrics_def getLatest_def um_simps)

lemma holds_log [simp]: "holds hs ss ts qs (s\<lparr> sv_log := l \<rparr>) = holds hs ss ts qs s"
  by (simp add: holds_def)

lemma holds_log_all [simp]: "holds hs ss ts qs (log_all logs s) = holds hs ss ts qs s"
  by (simp add: log_all_def)

lemma map_last_n: "map f (last_n n xs) = last_n n (map f xs)"
  by (simp add: last_n_def drop_map)

lemma holds_step:
  assumes "holds hs ss ts qs s" and "exec_step ck st s = (go, logs, s')"
    and "\<And>m. sel_history st = Some m \<or> sel_store st = Some m \<Longrightarrow> hostname m \<noteq> []"
  shows "go \<and> holds (hs @ (case sel_history st of None \<Rightarrow> [] | Some m \<Rightarrow> [m])) (ss @ (case sel_store st of None \<Rightarrow> [] | Some m \<Rightarrow> [m]))
     (ts @ (case sel_track st of None \<Rightarrow> [] | Some m \<Rightarrow> [m])) (qs @ (case sel_queue st of None \<Rightarrow> [] | Some m \<Rightarrow> [m])) s'"
proof (cases st)
  case (AddHistory m)
  have "map usage_at (history_get h (history_add t (hostname m) (cpuUsagePercent m) (memoryUsagePercent m) (sv_history s))) =
      last_n 120 (map usage (of_host h (hs @ [m])))" for h t
  proof (cases "hostname m = h")
    case True
    have "h \<noteq> []" using assms(3) [of m] AddHistory True by simp
    then have "map usage_at (history_get h (history_add t (hostname m) (cpuUsagePercent m) (memoryUsagePercent m) (sv_history s))) =
        last_n 120 (map usage_at (history_get h (sv_history s)) @ [usage m])"
      using assms(1) True by (simp add: history_get_add holds_def map_last_n usage_at_def usage_def)
    also have "\<dots> = last_n 120 (last_n 120 (map usage (of_host h hs)) @ [usage m])" using assms(1) by (simp add: holds_def)
    finally show ?thesis using True by (simp add: last_n_snoc)
  next
    case False
    then show ?thesis using assms(1) by (simp add: history_get_add holds_def)
  qed
  then show ?thesis using assms(1,2) AddHistory by (auto simp: holds_def)
next
  case (UpdateAlerts m)
  then show ?thesis using assms(1,2) by (auto simp: holds_def split: prod.splits)
next
  case (StoreMetrics m)
  have "hostname m \<noteq> []" using assms(3) [of m] StoreMetrics by simp
  then show ?thesis using assms(1,2) StoreMetrics by (auto simp: holds_def store_update_def latest_metrics_store)
next
  case (TrackOnline m)
  then show ?thesis using assms(1,2) tracker_find [of "hostname m" Online "sv_tracker s"]
    by (auto simp: holds_def server_log_def Let_def split: prod.splits if_splits)
next
  case (QueueResult m)
  then show ?thesis using assms(1,2) by (auto simp: holds_def)
qed

lemma accepted_snapshots_hostname: "m \<in> set (accepted_snapshots messages) \<Longrightarrow> hostname m \<noteq> []"
proof -
  assume "m \<in> set (accepted_snapshots messages)"
  then obtain t :: "string \<times> string" where "(case deserialize (snd t) of Inl e \<Rightarrow> None | Inr m \<Rightarrow> Some m) = Some m"
    unfolding accepted_snapshots_def set_map_filter by blast
  then have "deserialize (snd t) = Inr m" by (cases "deserialize (snd t)") auto
  then show "hostname m \<noteq> []" using deserialize_InrI_valid by (auto simp: valid_metrics_def)
qed

lemma to_come_mem: "sel st = Some m \<Longrightarrow> st \<in> set steps \<Longrightarrow> (logs, steps) \<in> set (in_workers g) \<Longrightarrow> m \<in># to_come sel g"
  by (force simp: to_come_def set_map_filter)

lemma accepted_snapshots_Cons: "accepted_snapshots (t # q) = (case deserialize (snd t) of Inl e \<Rightarrow> [] | Inr m \<Rightarrow> [m]) @ accepted_snapshots q"
  by (simp add: accepted_snapshots_def map_filter_simps split: sum.split)

lemma start_task_sels:
  assumes "sel \<in> {sel_history, sel_store, sel_track, sel_queue}"
  shows "List.map_filter sel (snd (start_task t)) = (case deserialize (snd t) of Inl e \<Rightarrow> [] | Inr m \<Rightarrow> [m])"
  using assms by (auto simp: start_task_def map_filter_simps split: prod.splits sum.splits)

lemma ingest_inv_step:
  assumes "ingest_step g g'" and "ingest_inv ms g" and "\<forall>m \<in> set ms. hostname m \<noteq> []"
  shows "ingest_inv ms g'"
  using assms(1,2)
proof (cases rule: ingest_step.cases)
  case (take_task t q a b s)
  have "to_come sel g' = to_come sel g" if "sel \<in> {sel_history, sel_store, sel_track, sel_queue}" for sel
    using start_task_sels [OF that, of t] by (simp add: to_come_def take_task(1,2) accepted_snapshots_Cons map_filter_simps)
  then show ?thesis using assms(2) by (simp add: ingest_inv_def take_task(1,2))
next
  case (write_log q a e logs steps b s)
  have "to_come sel g' = to_come sel g" for sel by (simp add: to_come_def write_log(1,2))
  then show ?thesis using assms(2) by (simp add: ingest_inv_def write_log(1,2))
next
  case (do_step ck st s go logs s' q a rest b)
  obtain hs ss ts qs where holds: "holds hs ss ts qs s" and sums:
    "mset ms = mset hs + to_come sel_history g" "mset ms = mset ss + to_come sel_store g"
    "mset ms = mset ts + to_come sel_track g" "mset ms = mset qs + to_come sel_queue g"
    using assms(2) by (auto simp: ingest_inv_def do_step(1))
  have "hostname m \<noteq> []" if "sel_history st = Some m \<or> sel_store st = Some m" for m
  proof -
    have "m \<in># to_come sel_history g \<or> m \<in># to_come sel_store g"
      using that to_come_mem [of _ st m "st # rest" "[]" g] by (auto simp: do_step(1))
    then have "m \<in># mset ms" using sums(1,2) by (metis union_iff)
    then show ?thesis using assms(3) by simp
  qed
  from holds_step [OF holds do_step(3) this] have go: go and holds':
    "holds (hs @ (case sel_history st of None \<Rightarrow> [] | Some m \<Rightarrow> [m])) (ss @ (case sel_store st of None \<Rightarrow> [] | Some m \<Rightarrow> [m]))
     (ts @ (case sel_track st of None \<Rightarrow> [] | Some m \<Rightarrow> [m])) (qs @ (case sel_queue st of None \<Rightarrow> [] | Some m \<Rightarrow> [m])) s'"
    by blast+
  have "to_come sel g = mset (case sel st of None \<Rightarrow> [] | Some m \<Rightarrow> [m]) + to_come sel g'" for sel
    using go by (simp add: to_come_def do_step(1,2) map_filter_simps split: option.split)
  with sums holds' show ?thesis unfolding ingest_inv_def do_step(2)
    by (intro exI [of _ "hs @ (case sel_history st of None \<Rightarrow> [] | Some m \<Rightarrow> [m])"]
        exI [of _ "ss @ (case sel_store st of None \<Rightarrow> [] | Some m \<Rightarrow> [m])"]
        exI [of _ "ts @ (case sel_track st of None \<Rightarrow> [] | Some m \<Rightarrow> [m])"]
        exI [of _ "qs @ (case sel_queue st of None \<Rightarrow> [] | Some m \<Rightarrow> [m])"]) (simp add: add.assoc)
qed

lemma stores_of_config:
  "server_stores config = Inr s \<Longrightarrow> holds [] [] [] [] s"
  by (auto simp: server_stores_def result_simps holds_def latest_metrics_def getLatest_def history_get_def new_history_def
      last_n_def)

lemma ingest_inv_start:
  assumes "server_stores config = Inr s"
  shows "ingest_inv (accepted_snapshots messages) (ingest_start messages n s)"
proof -
  have "concat (map snd (replicate n ([] :: log_entry list, [] :: task_step list))) = []" by (induction n) simp_all
  then have "to_come sel (ingest_start messages n s) = mset (accepted_snapshots messages)" for sel
    by (simp add: to_come_def ingest_start_def)
  then show ?thesis using stores_of_config [OF assms] unfolding ingest_inv_def
    by (intro exI [of _ "[]"]) (simp add: ingest_start_def)
qed

interpretation ingest: invariant_system
  "\<lambda>g. \<exists>n s config. server_stores config = Inr s \<and> g = ingest_start messages n s"
  ingest_step "ingest_inv (accepted_snapshots messages)"
  using ingest_inv_start ingest_inv_step accepted_snapshots_hostname by unfold_locales blast+

lemma ingest_inv_reached:
  assumes "ingest_step\<^sup>*\<^sup>* (ingest_start messages n s) g" and "server_stores config = Inr s"
  shows "ingest_inv (accepted_snapshots messages) g"
  using ingest.reached assms by blast

text \<open>
  What the stores other than the tracker hold when every step of the snapshots \<open>ms\<close> is done.
\<close>

definition stores_of :: "SystemMetrics list \<Rightarrow> server \<Rightarrow> bool" where
  "stores_of ms s \<longleftrightarrow>
     (\<exists>hs. mset hs = mset ms \<and>
       (\<forall>h. map usage_at (history_get h (sv_history s)) = last_n 120 (map usage (of_host h hs)))) \<and>
     (\<forall>h. case getLatest h (sv_metrics s) of
        None \<Rightarrow> of_host h ms = [] | Some r \<Rightarrow> sm_metrics r \<in> set (of_host h ms)) \<and>
     mset (sv_functors s) = mset (map result_text ms)"

lemma ingest_done:
  assumes "ingest_inv ms g" and "all_done g"
  shows "stores_of ms (in_server g) \<and>
     um_find (sv_tracker (in_server g)) h = (if of_host h ms = [] then None else Some Online)"
proof -
  have "concat (map snd (in_workers g)) = []" using assms(2) by (auto simp: all_done_def concat_eq_Nil_conv)
  then have "to_come sel g = {#}" for sel
    unfolding to_come_def using assms(2) by (simp only: all_done_def) (simp add: accepted_snapshots_def)
  then obtain hs ss ts qs where holds: "holds hs ss ts qs (in_server g)" and
    perm: "mset hs = mset ms" "mset ss = mset ms" "mset ts = mset ms" "mset qs = mset ms"
    using assms(1) by (auto simp: ingest_inv_def)
  have hosts: "set (of_host h xs) = set (of_host h ms)" if "mset xs = mset ms" for h xs
    using mset_eq_setD [OF that] by (auto simp: of_host_def)
  then have empty: "of_host h xs = [] \<longleftrightarrow> of_host h ms = []" if "mset xs = mset ms" for h xs
    using that by (metis set_empty)
  have "case getLatest h (sv_metrics (in_server g)) of
        None \<Rightarrow> of_host h ms = [] | Some r \<Rightarrow> sm_metrics r \<in> set (of_host h ms)" for h
  proof -
    have "latest_metrics h (in_server g) = (if of_host h ss = [] then None else Some (last (of_host h ss)))"
      using holds by (simp add: holds_def)
    then show ?thesis using empty [OF perm(2)] hosts [OF perm(2)] last_in_set [of "of_host h ss"]
      by (cases "getLatest h (sv_metrics (in_server g))"; cases "of_host h ss = []") (simp_all add: latest_metrics_def)
  qed
  moreover have "um_find (sv_tracker (in_server g)) h = (if of_host h ms = [] then None else Some Online)"
    using holds empty [OF perm(3)] by (simp add: holds_def)
  moreover have "mset (sv_functors (in_server g)) = mset (map result_text ms)"
    using holds perm(4) by (simp add: holds_def)
  moreover have "\<forall>h. map usage_at (history_get h (sv_history (in_server g))) = last_n 120 (map usage (of_host h hs))"
    using holds by (simp add: holds_def)
  ultimately show ?thesis unfolding stores_of_def using perm(1) by blast
qed

lemma log_all_Nil [simp]: "log_all [] s = s"
  by (simp add: log_all_def)

lemma log_all_log_all [simp]: "log_all ys (log_all xs s) = log_all (xs @ ys) s"
  by (simp add: log_all_def)

lemma writes_alone:
  "ingest_step\<^sup>*\<^sup>* \<lparr> in_queue = q, in_workers = a @ (logs, steps) # b, in_server = s \<rparr>
     \<lparr> in_queue = q, in_workers = a @ ([], steps) # b, in_server = log_all logs s \<rparr>"
proof (induction logs arbitrary: s)
  case (Cons e logs)
  show ?case using converse_rtranclp_into_rtranclp [where r = ingest_step, OF write_log Cons.IH [of "log_all [e] s"]] by simp
qed simp

lemma steps_alone:
  "ingest_step\<^sup>*\<^sup>* \<lparr> in_queue = q, in_workers = a @ (logs, steps) # b, in_server = s \<rparr>
     \<lparr> in_queue = q, in_workers = a @ ([], []) # b, in_server = run_steps ck steps (log_all logs s) \<rparr>"
proof (induction steps arbitrary: logs s)
  case Nil
  show ?case using writes_alone by simp
next
  case (Cons st rest)
  obtain go es s' where e: "exec_step (ck st) st (log_all logs s) = (go, es, s')" using prod_cases3 by blast
  have "ingest_step\<^sup>*\<^sup>* \<lparr> in_queue = q, in_workers = a @ (logs, st # rest) # b, in_server = s \<rparr>
      \<lparr> in_queue = q, in_workers = a @ (es, if go then rest else []) # b, in_server = s' \<rparr>"
    using writes_alone do_step [OF e] by (rule rtranclp.rtrancl_into_rtrancl)
  moreover have "ingest_step\<^sup>*\<^sup>* \<lparr> in_queue = q, in_workers = a @ (es, if go then rest else []) # b, in_server = s' \<rparr>
      \<lparr> in_queue = q, in_workers = a @ ([], []) # b, in_server = run_steps ck (st # rest) (log_all logs s) \<rparr>"
    using Cons.IH [of es s'] writes_alone [of q a es "[]" b s'] e by (cases go) simp_all
  ultimately show ?case by (rule rtranclp_trans)
qed

text \<open>The clocks of the examples.\<close>

definition first_clocks :: clocks where
  "first_clocks = \<lparr> ck_systemMs = 0, ck_systemNs = 0, ck_steadyNs = 0 \<rparr>"

text \<open>Two workers, of which the one with the older message does all of its steps last.\<close>

definition reversed_run :: "string \<times> string \<Rightarrow> string \<times> string \<Rightarrow> server \<Rightarrow> server" where
  "reversed_run t1 t2 s = worker_task (\<lambda>_. first_clocks) t1 (worker_task (\<lambda>_. first_clocks) t2 s)"

lemma task_alone:
  "ingest_step\<^sup>*\<^sup>* \<lparr> in_queue = q, in_workers = a @ start_task t # b, in_server = s \<rparr>
     \<lparr> in_queue = q, in_workers = a @ ([], []) # b, in_server = worker_task ck t s \<rparr>"
  using steps_alone [of q a "fst (start_task t)" "snd (start_task t)" b s ck] by (simp add: worker_task_def split_beta)

lemma reversed_run_reached:
  "ingest_step\<^sup>*\<^sup>* (ingest_start [t1, t2] 2 s)
     \<lparr> in_queue = [], in_workers = [([], []), ([], [])], in_server = reversed_run t1 t2 s \<rparr>"
proof -
  have "ingest_step\<^sup>*\<^sup>* (ingest_start [t1, t2] 2 s) \<lparr> in_queue = [t2], in_workers = [start_task t1, ([], [])], in_server = s \<rparr>"
    using take_task [of t1 "[t2]" "[]" "[([], [])]" s]
    by (intro r_into_rtranclp) (simp add: ingest_start_def numeral_2_eq_2)
  also have "ingest_step\<^sup>*\<^sup>* \<lparr> in_queue = [t2], in_workers = [start_task t1, ([], [])], in_server = s \<rparr>
      \<lparr> in_queue = [], in_workers = [start_task t1, start_task t2], in_server = s \<rparr>"
    using take_task [of t2 "[]" "[start_task t1]" "[]" s] by (intro r_into_rtranclp) simp
  also have "ingest_step\<^sup>*\<^sup>* \<lparr> in_queue = [], in_workers = [start_task t1, start_task t2], in_server = s \<rparr>
      \<lparr> in_queue = [], in_workers = [start_task t1, ([], [])], in_server = worker_task (\<lambda>_. first_clocks) t2 s \<rparr>"
    using task_alone [of "[]" "[start_task t1]" t2 "[]"] by simp
  also have "ingest_step\<^sup>*\<^sup>* \<lparr> in_queue = [], in_workers = [start_task t1, ([], [])], in_server = worker_task (\<lambda>_. first_clocks) t2 s \<rparr>
      \<lparr> in_queue = [], in_workers = [([], []), ([], [])], in_server = reversed_run t1 t2 s \<rparr>"
    using task_alone [of "[]" "[]" t1 "[([], [])]"] by (simp add: reversed_run_def)
  finally show ?thesis .
qed

text \<open>
  C8: whatever the workers do side by side, once all messages are done the stores agree with
  the accepted ones: each host's history is the last 120 of its samples in some order of its
  messages, its latest record is the snapshot of one of its messages, it is tracked as online,
  hosts without an accepted message appear nowhere, and each accepted message has queued one
  line for the reactor.
\<close>

theorem ingest_all_done:
  assumes "ingest_step\<^sup>*\<^sup>* (ingest_start messages n s) g" and "server_stores config = Inr s" and "all_done g"
  shows "(\<exists>hs. mset hs = mset (accepted_snapshots messages) \<and>
       (\<forall>h. map usage_at (history_get h (sv_history (in_server g))) = last_n 120 (map usage (of_host h hs)))) \<and>
     (case getLatest h (sv_metrics (in_server g)) of
        None \<Rightarrow> of_host h (accepted_snapshots messages) = [] | Some r \<Rightarrow> sm_metrics r \<in> set (of_host h (accepted_snapshots messages))) \<and>
     um_find (sv_tracker (in_server g)) h = (if of_host h (accepted_snapshots messages) = [] then None else Some Online) \<and>
     mset (sv_functors (in_server g)) = mset (map result_text (accepted_snapshots messages))"
  using ingest_done [OF ingest_inv_reached [OF assms(1,2)] assms(3), of h] unfolding stores_of_def by blast

text \<open>Two snapshots of a host whose first one is stored last.\<close>

definition demo_later :: SystemMetrics where
  "demo_later = demo_metrics\<lparr> uptimeSeconds := 86405 \<rparr>"

lemma demo_later_sendable: "sendable demo_later"
  using demo_sendable by (simp add: demo_later_def sendable_def metric_doubles_def)

lemma demo_stores: "\<exists>s. server_stores [] = Inr s"
  by (simp add: server_stores_def new_alert_manager_default result_simps)

theorem ingest_all_done_witness:
  "\<exists>s g. server_stores [] = Inr s \<and>
     ingest_step\<^sup>*\<^sup>* (ingest_start [(''a'', serialize demo_metrics), (''a'', serialize demo_later)] 2 s) g \<and>
     um_find (sv_tracker (in_server g)) ''web-1'' = Some Online \<and> um_find (sv_tracker (in_server g)) ''web-2'' = None"
proof -
  have hosts: "hostname (rounded demo_metrics) = ''web-1''" "hostname (rounded demo_later) = ''web-1''"
    by (simp_all add: rounded_def demo_later_def demo_metrics_def default_metrics_def)
  obtain s where s: "server_stores [] = Inr s" using demo_stores by blast
  define msgs where "msgs = [(''a'', serialize demo_metrics), (''a'', serialize demo_later)]"
  define g where "g = \<lparr> in_queue = [], in_workers = [([], []), ([], [])],
    in_server = reversed_run (''a'', serialize demo_metrics) (''a'', serialize demo_later) s \<rparr>"
  have reach: "ingest_step\<^sup>*\<^sup>* (ingest_start msgs 2 s) g" unfolding msgs_def g_def by (rule reversed_run_reached)
  have acc: "accepted_snapshots msgs = [rounded demo_metrics, rounded demo_later]"
    by (simp add: msgs_def accepted_snapshots_Cons roundtrip_metrics [OF demo_sendable] roundtrip_metrics [OF demo_later_sendable])
       (simp add: accepted_snapshots_def map_filter_simps)
  have "all_done g" by (simp add: g_def all_done_def)
  from ingest_all_done [OF reach s this, of "''web-1''"] ingest_all_done [OF reach s this, of "''web-2''"]
  have "um_find (sv_tracker (in_server g)) ''web-1'' = Some Online" "um_find (sv_tracker (in_server g)) ''web-2'' = None"
    by (simp_all add: acc of_host_def hosts)
  with s reach show ?thesis unfolding msgs_def by blast
qed

section \<open>The order of messages\<close>

lemma latest_metrics_log_all [simp]: "latest_metrics h (log_all logs s) = latest_metrics h s"
  by (simp add: log_all_def)

lemma latest_after_task:
  assumes "deserialize message = Inr m"
  shows "latest_metrics (hostname m) (worker_task ck (c, message) s) = Some m"
proof -
  have "hostname m \<noteq> []" using deserialize_InrI_valid [OF assms] by (simp add: valid_metrics_def)
  then show ?thesis using assms
    by (auto simp: worker_task_def start_task_def store_update_def split: prod.splits)
qed

text \<open>
  C27: the order of the messages of a host is not kept: of any two accepted ones that two
  workers take, the older may be stored last and stay the latest record of the host.
\<close>

theorem older_message_stays:
  assumes "deserialize msg1 = Inr m1" and "deserialize msg2 = Inr m2" and "hostname m1 = hostname m2"
  shows "\<exists>g. ingest_step\<^sup>*\<^sup>* (ingest_start [(c, msg1), (c, msg2)] 2 s) g \<and> all_done g \<and>
     map_option sm_metrics (getLatest (hostname m2) (sv_metrics (in_server g))) = Some m1"
proof -
  have "latest_metrics (hostname m1) (reversed_run (c, msg1) (c, msg2) s) = Some m1"
    unfolding reversed_run_def using assms(1) by (rule latest_after_task)
  then show ?thesis using reversed_run_reached [of "(c, msg1)" "(c, msg2)" s] assms(3)
    by (intro exI conjI) (auto simp: all_done_def latest_metrics_def)
qed

theorem older_message_stays_witness:
  "\<exists>s g. server_stores [] = Inr s \<and>
     ingest_step\<^sup>*\<^sup>* (ingest_start [(''a'', serialize demo_metrics), (''a'', serialize demo_later)] 2 s) g \<and> all_done g \<and>
     map_option (uptimeSeconds \<circ> sm_metrics) (getLatest ''web-1'' (sv_metrics (in_server g))) = Some 86400"
proof -
  have facts: "hostname (rounded demo_metrics) = ''web-1''" "hostname (rounded demo_later) = ''web-1''"
    "uptimeSeconds (rounded demo_metrics) = 86400"
    by (simp_all add: rounded_def demo_later_def demo_metrics_def default_metrics_def)
  obtain s where s: "server_stores [] = Inr s" using demo_stores by blast
  show ?thesis
    using older_message_stays [OF roundtrip_metrics [OF demo_sendable] roundtrip_metrics [OF demo_later_sendable], of "''a''" s]
      facts s by (auto simp: option.map_comp [symmetric])
qed

end
