(* ===== verification/Server_System.thy ===== *)
theory Server_System
  imports Ingest
begin

text \<open>
  The server while it serves, from \<open>src/server/TcpServer.cpp\<close> and \<open>src/thread/ThreadPool.cpp\<close>:
  the pool, the tasks of its workers, the stores, the clocks, and the thread of the reactor,
  which submits messages and scans the hosts when the timer fires.  Every thread of the pool
  and the reactor may do its next step, a critical section or one call of the logger, and time
  may pass between steps.  Looking at one host of a scan, which reads the clock and then
  updates the tracker, is one step.  The theory shows that this machine is simulated by the
  workers of \<open>Ingest\<close>, on everything but the tracker and the log, which the timer changes too,
  and so that the stores hold every message the pool accepted once it is idle or stopped.
\<close>

section \<open>Steps\<close>

text \<open>
  \<open>sg_tasks\<close> has the entries each worker is about to log and its remaining steps, \<open>sg_rlog\<close> the
  entries the thread of the reactor is about to log, \<open>sg_scan\<close> the hosts a scan of the timer has
  still to look at, \<open>sg_batch\<close> the functors the reactor took and has still to run, and
  \<open>sg_clocks\<close> the clocks, which all threads read.
  \<open>sg_accepted\<close> and \<open>sg_dropped\<close> record the messages the pool accepted and refused, and \<open>sg_ran\<close> the lines of the functors
  that ran.  The reactor is one thread: while a scan or a batch is under way, or an entry is
  to be logged, it takes no message.
\<close>

record serving =
  sg_pool :: "(string \<times> string) pool"
  sg_tasks :: "thread list"
  sg_server :: server
  sg_clocks :: clocks
  sg_rlog :: "log_entry list"
  sg_scan :: "StoredMetrics list"
  sg_batch :: "string list"
  sg_ran :: "string list"
  sg_accepted :: "(string \<times> string) list"
  sg_dropped :: "(string \<times> string) list"

text \<open>
  Time may pass between any two steps; the system clock may also be set, back as well, the
  steady clock not.
\<close>

definition clocks_move :: "clocks \<Rightarrow> clocks \<Rightarrow> bool" where
  "clocks_move ck ck' \<longleftrightarrow> ck_steadyNs ck \<le> ck_steadyNs ck' \<and> 0 \<le> ck_systemNs ck' \<and>
     ck_systemMs ck' = ck_systemNs ck' div 1000000"

text \<open>The moves of the pool that touch no task.\<close>

fun pool_only :: "'t event \<Rightarrow> bool" where
  "pool_only NotifyOne = True"
| "pool_only StopBegin = True"
| "pool_only NotifyAll = True"
| "pool_only (Turn i Asleep) = True"
| "pool_only (Turn i Exited) = True"
| "pool_only (Wake i) = True"
| "pool_only _ = False"

definition reactor_free :: "serving \<Rightarrow> bool" where
  "reactor_free g \<longleftrightarrow> sg_scan g = [] \<and> sg_batch g = [] \<and> sg_rlog g = []"

text \<open>
  Taking a task removes it from the queue under the lock of the pool; the deserializer touches
  nothing that is shared.  A worker that has entries to log writes them before its next step,
  and so does the reactor.
\<close>

inductive serving_step :: "serving \<Rightarrow> serving \<Rightarrow> bool" where
  message_arrives: "reactor_free g \<Longrightarrow> fst (trySubmit (Some (name, message)) (sg_pool g)) = ok \<Longrightarrow>
    message_callback name message (sg_pool g) = (p, logs) \<Longrightarrow>
    serving_step g (g\<lparr> sg_pool := p, sg_rlog := logs,
      sg_accepted := sg_accepted g @ (if ok then [(name, message)] else []),
      sg_dropped := sg_dropped g @ (if ok then [] else [(name, message)]) \<rparr>)"
| worker_takes: "pool_step (sg_pool g) (Turn i (Running t)) p \<Longrightarrow>
    serving_step g (g\<lparr> sg_pool := p, sg_tasks := (sg_tasks g)[i := start_task t] \<rparr>)"
| worker_logs: "i < length (sg_tasks g) \<Longrightarrow> sg_tasks g ! i = (e # logs, steps) \<Longrightarrow>
    serving_step g (g\<lparr> sg_tasks := (sg_tasks g)[i := (logs, steps)], sg_server := log_all [e] (sg_server g) \<rparr>)"
| worker_works: "i < length (sg_tasks g) \<Longrightarrow> sg_tasks g ! i = ([], st # rest) \<Longrightarrow>
    exec_step (sg_clocks g) st (sg_server g) = (go, logs, s) \<Longrightarrow>
    serving_step g (g\<lparr> sg_tasks := (sg_tasks g)[i := (logs, if go then rest else [])], sg_server := s \<rparr>)"
| worker_ends: "pool_step (sg_pool g) (Finish i t Returned) p \<Longrightarrow> sg_tasks g ! i = ([], []) \<Longrightarrow>
    serving_step g (g\<lparr> sg_pool := p \<rparr>)"
| pool_moves: "pool_step (sg_pool g) e p \<Longrightarrow> pool_only e \<Longrightarrow> serving_step g (g\<lparr> sg_pool := p \<rparr>)"
| scan_begins: "reactor_free g \<Longrightarrow> serving_step g (g\<lparr> sg_scan := getAll (sv_metrics (sg_server g)) \<rparr>)"
| scan_looks: "sg_rlog g = [] \<Longrightarrow> sg_scan g = host # hosts \<Longrightarrow>
    scan_host (ck_systemNs (sg_clocks g)) host (sg_server g) = (logs, s) \<Longrightarrow>
    serving_step g (g\<lparr> sg_server := s, sg_rlog := logs, sg_scan := hosts \<rparr>)"
| reactor_logs: "sg_rlog g = e # logs \<Longrightarrow>
    serving_step g (g\<lparr> sg_server := log_all [e] (sg_server g), sg_rlog := logs \<rparr>)"
| functors_taken: "reactor_free g \<Longrightarrow>
    serving_step g (g\<lparr> sg_batch := sv_functors (sg_server g), sg_server := (sg_server g)\<lparr> sv_functors := [] \<rparr> \<rparr>)"
| functor_runs: "sg_batch g = line # lines \<Longrightarrow>
    serving_step g (g\<lparr> sg_batch := lines, sg_ran := sg_ran g @ [line], sg_server := server_log Info line (sg_server g) \<rparr>)"
| time_passes: "clocks_move (sg_clocks g) ck \<Longrightarrow> serving_step g (g\<lparr> sg_clocks := ck \<rparr>)"

definition serving_start :: "(string \<times> string) pool \<Rightarrow> server \<Rightarrow> serving" where
  "serving_start p s = \<lparr> sg_pool = p, sg_tasks = replicate (threadCount p) ([], []), sg_server = s, sg_clocks = first_clocks,
     sg_rlog = [], sg_scan = [], sg_batch = [], sg_ran = [], sg_accepted = [], sg_dropped = [] \<rparr>"

section \<open>The simulation\<close>

text \<open>The workers of \<open>Ingest\<close> with messages that arrive while they work.\<close>

inductive feed_step :: "(string \<times> string) list \<times> ingest \<Rightarrow> (string \<times> string) list \<times> ingest \<Rightarrow> bool" where
  feed_work: "ingest_step b b' \<Longrightarrow> feed_step (ms, b) (ms, b')"
| feed_arrive: "feed_step (ms, b) (ms @ [m], b\<lparr> in_queue := in_queue b @ [m] \<rparr>)"

definition feed_inv :: "(string \<times> string) list \<times> ingest \<Rightarrow> bool" where
  "feed_inv a \<longleftrightarrow> ingest_inv (accepted_snapshots (fst a)) (snd a)"

text \<open>The abstract server keeps the lines of the functors that were taken.\<close>

definition same_stores :: "string list \<Rightarrow> server \<Rightarrow> server \<Rightarrow> bool" where
  "same_stores taken s u \<longleftrightarrow> sv_metrics s = sv_metrics u \<and> sv_history s = sv_history u \<and> sv_alerts s = sv_alerts u \<and>
     taken @ sv_functors s = sv_functors u"

definition workers_match :: "'t pool \<Rightarrow> thread list \<Rightarrow> bool" where
  "workers_match p ts \<longleftrightarrow> length ts = length (workers p) \<and>
     (\<forall>i < length ts. (\<forall>t. workers p ! i \<noteq> Running t) \<longrightarrow> ts ! i = ([], []))"

text \<open>The abstract workers log at once what the workers of the server have still to log.\<close>

definition logged :: "thread list \<Rightarrow> thread list" where
  "logged ts = map (\<lambda>w. ([], snd w)) ts"

definition serves :: "serving \<Rightarrow> (string \<times> string) list \<times> ingest \<Rightarrow> bool" where
  "serves g a \<longleftrightarrow> fst a = sg_accepted g \<and> in_queue (snd a) = tasks (sg_pool g) \<and> in_workers (snd a) = logged (sg_tasks g) \<and>
     same_stores (sg_ran g @ sg_batch g) (sg_server g) (in_server (snd a)) \<and> pool_ok (sg_pool g) \<and> workers_match (sg_pool g) (sg_tasks g)"

lemma accepted_snapshots_append: "accepted_snapshots (xs @ ys) = accepted_snapshots xs @ accepted_snapshots ys"
  by (simp add: accepted_snapshots_def)

lemma feed_inv_step:
  assumes "feed_step a a'" and "feed_inv a"
  shows "feed_inv a'"
  using assms
proof cases
  case (feed_work b b' ms)
  then show ?thesis using assms(2) ingest_inv_step accepted_snapshots_hostname by (auto simp: feed_inv_def)
next
  case (feed_arrive ms b m)
  have "to_come sel (b\<lparr> in_queue := in_queue b @ [m] \<rparr>) = to_come sel b + mset (accepted_snapshots [m])" for sel
    by (simp add: to_come_def accepted_snapshots_append)
  then show ?thesis using assms(2)
    by (auto simp: feed_inv_def ingest_inv_def feed_arrive accepted_snapshots_append add.assoc)
qed

lemma logged_simps [simp]: "length (logged ts) = length ts" "logged (ts[i := w]) = (logged ts)[i := ([], snd w)]"
  "i < length ts \<Longrightarrow> logged ts ! i = ([], snd (ts ! i))"
  by (simp_all add: logged_def map_update)

lemma ingest_write:
  assumes "i < length (in_workers b)" and "in_workers b ! i = (logs, steps)"
  shows "ingest_step\<^sup>*\<^sup>* b (b\<lparr> in_workers := (in_workers b)[i := ([], steps)], in_server := log_all logs (in_server b) \<rparr>)"
  using writes_alone [of "in_queue b" "take i (in_workers b)" logs steps "drop (Suc i) (in_workers b)" "in_server b"]
    id_take_nth_drop [OF assms(1), symmetric] assms
  by (cases b) (simp add: upd_conv_take_nth_drop [symmetric])

lemma ingest_take:
  assumes "in_queue b = t # q" and "i < length (in_workers b)" and "in_workers b ! i = ([], [])"
  shows "ingest_step\<^sup>*\<^sup>* b (b\<lparr> in_queue := q, in_workers := (in_workers b)[i := ([], snd (start_task t))],
    in_server := log_all (fst (start_task t)) (in_server b) \<rparr>)"
proof -
  let ?b = "b\<lparr> in_queue := q, in_workers := (in_workers b)[i := start_task t] \<rparr>"
  have "ingest_step b ?b"
    using take_task [of t q "take i (in_workers b)" "drop (Suc i) (in_workers b)" "in_server b"]
      id_take_nth_drop [OF assms(2), symmetric] assms(1-3)
    by (cases b) (simp add: upd_conv_take_nth_drop [symmetric])
  moreover have "ingest_step\<^sup>*\<^sup>* ?b (?b\<lparr> in_workers := (in_workers ?b)[i := ([], snd (start_task t))],
      in_server := log_all (fst (start_task t)) (in_server ?b) \<rparr>)"
    by (rule ingest_write) (use assms(2) in simp_all)
  ultimately show ?thesis using assms(2) converse_rtranclp_into_rtranclp [where r = ingest_step] by fastforce
qed

lemma ingest_work:
  assumes "i < length (in_workers b)" and "in_workers b ! i = ([], st # rest)" and "exec_step ck st (in_server b) = (go, logs, s)"
  shows "ingest_step\<^sup>*\<^sup>* b (b\<lparr> in_workers := (in_workers b)[i := ([], if go then rest else [])], in_server := log_all logs s \<rparr>)"
proof -
  let ?b = "b\<lparr> in_workers := (in_workers b)[i := (logs, if go then rest else [])], in_server := s \<rparr>"
  have "ingest_step b ?b"
    using do_step [OF assms(3), of "in_queue b" "take i (in_workers b)" rest "drop (Suc i) (in_workers b)"]
      id_take_nth_drop [OF assms(1), symmetric] assms(1,2)
    by (cases b) (simp add: upd_conv_take_nth_drop [symmetric])
  moreover have "ingest_step\<^sup>*\<^sup>* ?b (?b\<lparr> in_workers := (in_workers ?b)[i := ([], if go then rest else [])],
      in_server := log_all logs (in_server ?b) \<rparr>)"
    by (rule ingest_write) (use assms(1) in simp_all)
  ultimately show ?thesis using assms(1) converse_rtranclp_into_rtranclp [where r = ingest_step] by fastforce
qed

lemma same_stores_log_all [simp]: "same_stores taken (log_all logs s) u = same_stores taken s u"
  "same_stores taken s (log_all logs u) = same_stores taken s u"
  by (simp_all add: same_stores_def log_all_def)

lemma exec_same_stores:
  assumes "same_stores taken s u" and "exec_step ck st s = (go, es, s')"
  shows "\<exists>es' u'. exec_step ck st u = (go, es', u') \<and> same_stores taken s' u'"
  using assms by (cases st) (auto simp: same_stores_def split: prod.splits sum.splits)

lemma scan_same_stores: "same_stores taken s u \<Longrightarrow> scan_host now host s = (logs, s') \<Longrightarrow> same_stores taken s' u"
  by (auto simp: scan_host_def same_stores_def split: prod.splits)

text \<open>Steps of the pool and the tasks of its workers.\<close>

lemma pool_only_quiet:
  assumes "pool_step p e p'" and "pool_only e"
  shows "accepted [e] = [] \<and> started [e] = [] \<and> finished [e] = []"
  using assms(2) by (cases e rule: pool_only.cases) auto

lemma match_pool_only:
  assumes "pool_step p e p'" and "pool_only e" and "workers_match p ts"
  shows "workers_match p' ts"
  using assms
  by (cases rule: pool_step.cases)
     (auto simp: workers_match_def nth_list_update stop_begin_def notify_all_def wake_def worker_turn_def split: if_splits)

lemma match_submit: "trySubmit task p = (ok, p') \<Longrightarrow> workers_match p ts \<Longrightarrow> workers_match p' ts"
  by (auto simp: workers_match_def trySubmit_def split: option.splits if_splits)

lemma match_takes:
  assumes "workers_match p ts" and "i < length (workers p)"
  shows "workers_match (p\<lparr> workers := (workers p)[i := Running t], tasks := q \<rparr>) (ts[i := steps])"
  using assms unfolding workers_match_def
proof (intro conjI allI impI)
  fix j
  assume j: "j < length (ts[i := steps])" "\<forall>t'. workers (p\<lparr> workers := (workers p)[i := Running t], tasks := q \<rparr>) ! j \<noteq> Running t'"
  then have "j \<noteq> i" using assms(2) by auto
  then show "ts[i := steps] ! j = ([], [])" using assms(1) j by (simp add: workers_match_def)
qed simp

inductive_cases turn_runsE: "pool_step p (Turn i (Running t)) p'"

inductive_cases finishE: "pool_step p (Finish i t out) p'"

lemma match_ends:
  assumes "pool_step p (Finish i t out) p'" and "workers_match p ts" and "ts ! i = ([], [])"
  shows "workers_match p' ts"
  using assms(2) unfolding workers_match_def
proof (intro conjI allI impI)
  fix j
  assume j: "j < length ts" "\<forall>t'. workers p' ! j \<noteq> Running t'"
  show "ts ! j = ([], [])"
  proof (cases "j = i")
    case False
    then have "workers p' ! j = workers p ! j" using assms(1) by (auto elim!: finishE)
    then show ?thesis using assms(2) j by (simp add: workers_match_def)
  qed (use assms(3) in simp)
qed (use assms(1) in \<open>auto elim!: finishE\<close>)

lemma worker_turn_runs: "worker_turn p = (Running t, ts) \<Longrightarrow> tasks p = t # ts"
  by (cases "tasks p") (auto simp: worker_turn_def split: if_splits)

lemma feed_works: "ingest_step\<^sup>*\<^sup>* b b' \<Longrightarrow> feed_step\<^sup>*\<^sup>* (ms, b) (ms, b')"
  by (induction rule: rtranclp_induct) (auto intro: feed_work rtranclp.rtrancl_into_rtrancl)

lemma serves_matches:
  assumes "serving_step g g'" and "serves g a"
  shows "\<exists>a'. feed_step\<^sup>*\<^sup>* a a' \<and> serves g' a'"
proof -
  obtain ms b where a: "a = (ms, b)" by (cases a)
  have rel: "ms = sg_accepted g" "in_queue b = tasks (sg_pool g)" "in_workers b = logged (sg_tasks g)"
    "same_stores (sg_ran g @ sg_batch g) (sg_server g) (in_server b)" "pool_ok (sg_pool g)" "workers_match (sg_pool g) (sg_tasks g)"
    using assms(2) by (simp_all add: serves_def a)
  from assms(1) show ?thesis
  proof cases
    case (message_arrives name message ok p logs)
    have p: "trySubmit (Some (name, message)) (sg_pool g) = (ok, p)"
      using message_arrives(3,4) by (auto simp: message_callback_def split: prod.splits)
    have ok: "pool_ok p" "workers_match p (sg_tasks g)"
      using pool_ok_submit [OF rel(5) p] match_submit [OF p rel(6)] by blast+
    show ?thesis
    proof (cases ok)
      case True
      then have "tasks p = tasks (sg_pool g) @ [(name, message)]" using p by (auto simp: trySubmit_def split: if_splits)
      then have "serves g' (ms @ [(name, message)], b\<lparr> in_queue := in_queue b @ [(name, message)] \<rparr>)"
        using rel ok True by (simp add: serves_def message_arrives(1))
      then show ?thesis using feed_arrive [of ms b "(name, message)"] unfolding a by (blast intro: r_into_rtranclp)
    next
      case False
      then have "tasks p = tasks (sg_pool g)" using p by (auto simp: trySubmit_def split: if_splits)
      then have "serves g' a" using rel ok False by (simp add: serves_def message_arrives(1) a)
      then show ?thesis by blast
    qed
  next
    case (worker_takes i t p)
    from worker_takes(2) obtain ts where i: "i < length (workers (sg_pool g))" "workers (sg_pool g) ! i = Ready"
      "worker_turn (sg_pool g) = (Running t, ts)" "p = (sg_pool g)\<lparr> workers := (workers (sg_pool g))[i := Running t], tasks := ts \<rparr>"
      by (elim turn_runsE) auto
    have queue: "in_queue b = t # ts" using worker_turn_runs [OF i(3)] rel(2) by simp
    have "sg_tasks g ! i = ([], [])" "i < length (sg_tasks g)" using rel(6) i(1,2) by (auto simp: workers_match_def)
    then have step: "ingest_step\<^sup>*\<^sup>* b (b\<lparr> in_queue := ts, in_workers := logged ((sg_tasks g)[i := start_task t]),
        in_server := log_all (fst (start_task t)) (in_server b) \<rparr>)" (is "ingest_step\<^sup>*\<^sup>* b ?b")
      using ingest_take [OF queue, of i] rel(3) by simp
    have "pool_ok p" using pool_ok_step [OF worker_takes(2) rel(5)] .
    moreover have "workers_match p ((sg_tasks g)[i := start_task t])"
      unfolding i(4) using match_takes [OF rel(6) i(1)] .
    ultimately have "serves g' (ms, ?b)" using rel(1,4) by (simp add: serves_def worker_takes(1) i(4))
    then show ?thesis using feed_works [OF step, of ms] unfolding a by blast
  next
    case (worker_logs i e logs steps)
    have "logged ((sg_tasks g)[i := (logs, steps)]) = logged (sg_tasks g)"
      using worker_logs(2,3) by (simp add: list_update_same_conv)
    moreover have "workers_match (sg_pool g) ((sg_tasks g)[i := (logs, steps)])"
      using rel(6) worker_logs(2,3) by (auto simp: workers_match_def nth_list_update)
    ultimately have "serves g' a" using rel by (simp add: serves_def worker_logs(1) a del: logged_simps(2))
    then show ?thesis by blast
  next
    case (worker_works i st rest go logs s)
    obtain es u where u: "exec_step (sg_clocks g) st (in_server b) = (go, es, u)" "same_stores (sg_ran g @ sg_batch g) s u"
      using exec_same_stores [OF rel(4) worker_works(4)] by blast
    have step: "ingest_step\<^sup>*\<^sup>* b (b\<lparr> in_workers := logged ((sg_tasks g)[i := (logs, if go then rest else [])]), in_server := log_all es u \<rparr>)"
      (is "ingest_step\<^sup>*\<^sup>* b ?b")
      using ingest_work [of i b st rest "sg_clocks g" go es u] u(1) worker_works(2,3) rel(3) by simp
    have "workers_match (sg_pool g) ((sg_tasks g)[i := (logs, if go then rest else [])])"
      using rel(6) worker_works(2,3) by (auto simp: workers_match_def nth_list_update)
    then have "serves g' (ms, ?b)" using rel u(2) by (simp add: serves_def worker_works(1))
    then show ?thesis using feed_works [OF step, of ms] unfolding a by blast
  next
    case (worker_ends i t p)
    have "tasks p = tasks (sg_pool g)" "workers_match p (sg_tasks g)"
      using worker_ends(2) match_ends [OF worker_ends(2) rel(6) worker_ends(3)] by (auto elim: finishE)
    then have "serves g' a" using rel pool_ok_step [OF worker_ends(2) rel(5)] by (simp add: serves_def worker_ends(1) a)
    then show ?thesis by blast
  next
    case (pool_moves e p)
    have "tasks p = tasks (sg_pool g)"
      using step_order [OF pool_moves(2)] pool_only_quiet [OF pool_moves(2,3)] by simp
    then have "serves g' a" using rel pool_ok_step [OF pool_moves(2) rel(5)] match_pool_only [OF pool_moves(2,3) rel(6)]
      by (simp add: serves_def pool_moves(1) a)
    then show ?thesis by blast
  next
    case scan_begins
    then have "serves g' a" using assms(2) by (simp add: serves_def)
    then show ?thesis by blast
  next
    case (scan_looks host hosts logs s)
    then have "serves g' a" using rel scan_same_stores [OF rel(4) scan_looks(4)] by (simp add: serves_def a)
    then show ?thesis by blast
  next
    case (reactor_logs e logs)
    then have "serves g' a" using rel by (simp add: serves_def a)
    then show ?thesis by blast
  next
    case functors_taken
    then have "serves g' a" using rel by (simp add: serves_def a same_stores_def reactor_free_def)
    then show ?thesis by blast
  next
    case (functor_runs line lines)
    then have "serves g' a" using rel by (simp add: serves_def a same_stores_def server_log_def)
    then show ?thesis by blast
  next
    case (time_passes ck)
    then have "serves g' a" using rel by (simp add: serves_def a)
    then show ?thesis by blast
  qed
qed

interpretation serving: simulated_invariant serving_step feed_step serves
  "\<lambda>a. \<exists>n s config. server_stores config = Inr s \<and> a = ([], ingest_start [] n s)" feed_inv
proof unfold_locales
  show "\<exists>a'. feed_step\<^sup>*\<^sup>* a a' \<and> serves c' a'" if "serving_step c c'" "serves c a" for c c' a
    using that by (rule serves_matches)
  show "feed_inv a" if "\<exists>n s config. server_stores config = Inr s \<and> a = ([], ingest_start [] n s)" for a
    using that ingest_inv_start [of _ _ "[]"] by (auto simp: feed_inv_def)
  show "feed_inv a'" if "feed_step a a'" "feed_inv a" for a a'
    using that by (rule feed_inv_step)
qed

section \<open>When the pool is idle\<close>

lemma match_idle: "workers_match p ts \<Longrightarrow> running p = [] \<Longrightarrow> w \<in> set ts \<Longrightarrow> w = ([], [])"
proof -
  assume match: "workers_match p ts" and idle: "running p = []" and "w \<in> set ts"
  then obtain i where i: "i < length ts" "w = ts ! i" by (auto simp: in_set_conv_nth)
  have "workers p ! i \<noteq> Running t" for t
  proof
    assume "workers p ! i = Running t"
    moreover have "i < length (workers p)" using match i(1) by (simp add: workers_match_def)
    ultimately have "Running t \<in> set (workers p)" by (metis nth_mem)
    then have "t \<in> set (running p)" unfolding running_def set_map_filter by force
    then show False using idle by simp
  qed
  then show "w = ([], [])" using match i by (simp add: workers_match_def)
qed

lemma new_pool_workers: "new_pool spawn n m = Inr p \<Longrightarrow> workers p = replicate (threadCount p) Ready \<and> tasks p = [] \<and> \<not> stopping p"
  by (auto simp: new_pool_def result_simps threadCount_def split: list.splits)

lemma serves_start:
  assumes "server_pool spawn config s0 = Inr (p, s)"
  shows "serves (serving_start p s) ([], ingest_start [] (threadCount p) s0)"
proof -
  obtain n m where pool: "new_pool spawn n m = Inr p" and s: "s = server_log Info (''Worker thread pool started: threads='' @
      dec (threadCount p) @ '', queue_capacity='' @ dec (unat (maxQueueSize p))) s0"
    using assms unfolding server_pool_def by (auto simp: result_simps)
  show ?thesis using pool_ok_new [OF pool] new_pool_workers [OF pool]
    by (simp add: serves_def serving_start_def ingest_start_def workers_match_def same_stores_def s server_log_def threadCount_def logged_def)
qed

lemma serving_idle:
  assumes "server_stores config = Inr s0" and "server_pool spawn config s0 = Inr (p, s)"
    and "serving_step\<^sup>*\<^sup>* (serving_start p s) g"
    and "tasks (sg_pool g) = [] \<and> running (sg_pool g) = [] \<or> stop_join (sg_pool g) \<noteq> None"
  shows "stores_of (accepted_snapshots (sg_accepted g))
     ((sg_server g)\<lparr> sv_functors := sg_ran g @ sg_batch g @ sv_functors (sg_server g) \<rparr>)"
proof -
  obtain a where rel: "serves g a" and inv: "feed_inv a"
    using serving.transferred [OF assms(3) serves_start [OF assms(2)]] assms(1) by blast
  have idle: "tasks (sg_pool g) = []" "running (sg_pool g) = []"
    using assms(4) rel join_idle [of "sg_pool g"] by (auto simp: serves_def)
  have "all_done (snd a)" using rel idle match_idle [of "sg_pool g" "sg_tasks g"] by (auto simp: all_done_def serves_def logged_def)
  then have "stores_of (accepted_snapshots (sg_accepted g)) (in_server (snd a))"
    using ingest_done [of _ "snd a"] inv rel by (simp add: feed_inv_def serves_def)
  then show ?thesis using rel by (simp add: stores_of_def serves_def same_stores_def)
qed

text \<open>
  C4: whatever the threads of the server do side by side, when the pool is idle or has been
  stopped and joined, the stores agree with the messages the pool accepted: the history of
  each host is the last 120 of its samples in some order of the messages, its latest record
  is the snapshot of one of them, and the reactor has logged, or has still to log, one line
  for each.
\<close>

theorem server_stores_accepted:
  assumes "server_stores config = Inr s0" and "server_pool spawn config s0 = Inr (p, s)"
    and "serving_step\<^sup>*\<^sup>* (serving_start p s) g"
    and "tasks (sg_pool g) = [] \<and> running (sg_pool g) = [] \<or> stop_join (sg_pool g) \<noteq> None"
    and "ms = accepted_snapshots (sg_accepted g)"
  shows "(\<exists>hs. mset hs = mset ms \<and>
       (\<forall>h. map usage_at (history_get h (sv_history (sg_server g))) = last_n 120 (map usage (of_host h hs)))) \<and>
     (case getLatest h (sv_metrics (sg_server g)) of
        None \<Rightarrow> of_host h ms = [] | Some r \<Rightarrow> sm_metrics r \<in> set (of_host h ms)) \<and>
     mset (sg_ran g @ sg_batch g @ sv_functors (sg_server g)) = mset (map result_text ms)"
  using serving_idle [OF assms(1-4)] unfolding assms(5) by (simp add: stores_of_def)

text \<open>Runs in which the system clock is not set back.\<close>

definition forward_step :: "serving \<Rightarrow> serving \<Rightarrow> bool" where
  "forward_step g g' \<longleftrightarrow> serving_step g g' \<and> ck_systemNs (sg_clocks g) \<le> ck_systemNs (sg_clocks g')"

lemma forward_serving: "forward_step\<^sup>*\<^sup>* g g' \<Longrightarrow> serving_step\<^sup>*\<^sup>* g g'"
  by (induction rule: rtranclp_induct) (auto simp: forward_step_def intro: rtranclp.rtrancl_into_rtrancl)

lemma forwardI: "serving_step g g' \<Longrightarrow> sg_clocks g' = sg_clocks g \<Longrightarrow> forward_step g g'"
  by (simp add: forward_step_def)

text \<open>A worker that does its steps without interference and while no time passes.\<close>

lemma logs_alone:
  assumes "i < length (sg_tasks g)" and "sg_tasks g ! i = (logs, steps)"
  shows "forward_step\<^sup>*\<^sup>* g (g\<lparr> sg_tasks := (sg_tasks g)[i := ([], steps)], sg_server := log_all logs (sg_server g) \<rparr>)"
  using assms
proof (induction logs arbitrary: g)
  case Nil
  then have "(sg_tasks g)[i := ([], steps)] = sg_tasks g" by (metis list_update_id)
  then show ?case by simp
next
  case (Cons e logs)
  show ?case using converse_rtranclp_into_rtranclp [where r = forward_step, OF forwardI [OF worker_logs [OF Cons.prems]]] Cons.prems(1)
      Cons.IH [of "g\<lparr> sg_tasks := (sg_tasks g)[i := (logs, steps)], sg_server := log_all [e] (sg_server g) \<rparr>"] by simp
qed

lemma works_alone:
  assumes "i < length (sg_tasks g)" and "sg_tasks g ! i = (logs, steps)"
  shows "forward_step\<^sup>*\<^sup>* g (g\<lparr> sg_tasks := (sg_tasks g)[i := ([], [])],
    sg_server := run_steps (\<lambda>_. sg_clocks g) steps (log_all logs (sg_server g)) \<rparr>)"
  using assms
proof (induction steps arbitrary: g logs)
  case Nil
  then show ?case using logs_alone by simp
next
  case (Cons st rest)
  let ?g = "g\<lparr> sg_tasks := (sg_tasks g)[i := ([], st # rest)], sg_server := log_all logs (sg_server g) \<rparr>"
  obtain go es s where e: "exec_step (sg_clocks g) st (log_all logs (sg_server g)) = (go, es, s)" using prod_cases3 by blast
  let ?h = "g\<lparr> sg_tasks := (sg_tasks g)[i := (es, if go then rest else [])], sg_server := s \<rparr>"
  have "forward_step ?g ?h" using forwardI [OF worker_works [of i ?g st rest go es s]] Cons.prems(1) e by simp
  then have "forward_step\<^sup>*\<^sup>* g ?h" using logs_alone [OF Cons.prems] by (metis rtranclp.rtrancl_into_rtrancl)
  moreover have "forward_step\<^sup>*\<^sup>* ?h (?h\<lparr> sg_tasks := (sg_tasks ?h)[i := ([], [])],
      sg_server := run_steps (\<lambda>_. sg_clocks g) (if go then rest else []) (log_all es s) \<rparr>)"
    using Cons.IH [of ?h es] logs_alone [of i ?h es "[]"] Cons.prems(1) by (cases go) simp_all
  ultimately show ?case using e by (cases go) (auto intro: rtranclp_trans)
qed

text \<open>A server at rest: its reactor is free, its pool idle and its first worker about to look for a task.\<close>

definition ready :: "serving \<Rightarrow> bool" where
  "ready g \<longleftrightarrow> reactor_free g \<and> tasks (sg_pool g) = [] \<and> \<not> stopping (sg_pool g) \<and> maxQueueSize (sg_pool g) \<noteq> 0 \<and>
     0 < length (workers (sg_pool g)) \<and> length (sg_tasks g) = length (workers (sg_pool g)) \<and> running (sg_pool g) = [] \<and>
     workers (sg_pool g) ! 0 = Ready \<and> sg_tasks g ! 0 = ([], [])"

lemma ready_start:
  assumes "server_pool spawn config s0 = Inr (p, s)"
  shows "ready (serving_start p s)"
proof -
  obtain n k where pool: "new_pool spawn n k = Inr p"
    using assms(1) unfolding server_pool_def by (auto simp: result_simps)
  have "0 < length (workers p)" "tasks p = []" "running p = []" "\<not> stopping p"
    using pool_new_empty [OF pool] new_pool_workers [OF pool] by blast+
  moreover from this(1) have "workers p ! 0 = Ready" using new_pool_workers [OF pool] by (metis nth_replicate threadCount_def)
  moreover have "maxQueueSize p \<noteq> 0" using pool by (auto simp: new_pool_def result_simps split: list.splits)
  ultimately show ?thesis
    by (simp add: ready_def serving_start_def reactor_free_def threadCount_def)
qed

text \<open>A message that is taken at once: its steps are about to begin.\<close>

lemma ready_takes:
  assumes "ready g"
  shows "\<exists>p q. forward_step\<^sup>*\<^sup>* g (g\<lparr> sg_accepted := sg_accepted g @ [(name, message)], sg_pool := p,
       sg_tasks := (sg_tasks g)[0 := start_task (name, message)] \<rparr>) \<and>
     pool_step p (Finish 0 (name, message) Returned) q \<and> tasks q = [] \<and> \<not> stopping q \<and>
     maxQueueSize q = maxQueueSize (sg_pool g) \<and> workers q = workers (sg_pool g)"
proof -
  let ?p = "sg_pool g"
  have p: "tasks ?p = []" "\<not> stopping ?p" "maxQueueSize ?p \<noteq> 0" "0 < length (workers ?p)" "workers ?p ! 0 = Ready"
    "length (sg_tasks g) = length (workers ?p)" "reactor_free g" using assms(1) by (simp_all add: ready_def)
  define p1 where "p1 = ?p\<lparr> tasks := [(name, message)], notify_one_due := Suc (notify_one_due ?p) \<rparr>"
  define p2 where "p2 = p1\<lparr> workers := (workers p1)[0 := Running (name, message)], tasks := [] \<rparr>"
  define p3 where "p3 = p2\<lparr> workers := (workers p2)[0 := Ready], pool_log := pool_log p2 @ task_log Returned \<rparr>"
  have submitted: "trySubmit (Some (name, message)) ?p = (True, p1)"
    using p by (simp add: trySubmit_def p1_def unat_eq_zero word_le_nat_alt)
  define g1 where "g1 = g\<lparr> sg_pool := p1, sg_accepted := sg_accepted g @ [(name, message)] \<rparr>"
  have "serving_step g (g\<lparr> sg_pool := p1, sg_rlog := [],
      sg_accepted := sg_accepted g @ (if True then [(name, message)] else []),
      sg_dropped := sg_dropped g @ (if True then [] else [(name, message)]) \<rparr>)" (is "serving_step g ?h")
    using p(7) by (rule message_arrives) (simp_all add: submitted message_callback_def)
  moreover have "?h = g1" using p(7) by (cases g) (simp add: g1_def reactor_free_def)
  ultimately have 1: "forward_step g g1" using forwardI [of g g1] by (simp only:) (simp add: g1_def)
  have "pool_step p1 (Turn 0 (Running (name, message))) p2"
    unfolding p2_def by (rule turn) (use p in \<open>simp_all add: p1_def worker_turn_def\<close>)
  from forwardI [OF worker_takes [of g1]] this
  have 2: "forward_step g1 (g1\<lparr> sg_pool := p2, sg_tasks := (sg_tasks g1)[0 := start_task (name, message)] \<rparr>)"
    by (simp add: g1_def)
  have "pool_step p2 (Finish 0 (name, message) Returned) p3"
    unfolding p3_def by (rule finish) (use p in \<open>simp_all add: p2_def p1_def\<close>)
  moreover have "workers p3 = workers ?p" using list_update_id [of "workers ?p" 0] p(5) by (simp add: p3_def p2_def p1_def)
  moreover have "tasks p3 = []" "\<not> stopping p3" "maxQueueSize p3 = maxQueueSize ?p"
    using p(2) by (simp_all add: p3_def p2_def p1_def)
  moreover have "forward_step\<^sup>*\<^sup>* g (g\<lparr> sg_accepted := sg_accepted g @ [(name, message)], sg_pool := p2,
      sg_tasks := (sg_tasks g)[0 := start_task (name, message)] \<rparr>)"
    using converse_rtranclp_into_rtranclp [where r = forward_step, OF 1 r_into_rtranclp [where r = forward_step, OF 2]]
    by (simp add: g1_def)
  ultimately show ?thesis by blast
qed

lemma ready_serves:
  assumes "ready g"
  shows "\<exists>g'. forward_step\<^sup>*\<^sup>* g g' \<and> ready g' \<and> sg_accepted g' = sg_accepted g @ [(name, message)] \<and> sg_clocks g' = sg_clocks g \<and>
     sg_server g' = worker_task (\<lambda>_. sg_clocks g) (name, message) (sg_server g)"
proof -
  obtain p q where takes: "forward_step\<^sup>*\<^sup>* g (g\<lparr> sg_accepted := sg_accepted g @ [(name, message)], sg_pool := p,
       sg_tasks := (sg_tasks g)[0 := start_task (name, message)] \<rparr>)"
    (is "forward_step\<^sup>*\<^sup>* g ?g1")
    and ends: "pool_step p (Finish 0 (name, message) Returned) q" and q: "tasks q = []" "\<not> stopping q"
     "maxQueueSize q = maxQueueSize (sg_pool g)" "workers q = workers (sg_pool g)"
    using ready_takes [OF assms] by blast
  obtain logs steps where start: "start_task (name, message) = (logs, steps)" by fastforce
  have size: "0 < length (sg_tasks ?g1)" "sg_tasks ?g1 ! 0 = (logs, steps)" using assms(1) start by (simp_all add: ready_def)
  let ?g2 = "?g1\<lparr> sg_tasks := (sg_tasks ?g1)[0 := ([], [])],
    sg_server := run_steps (\<lambda>_. sg_clocks ?g1) steps (log_all logs (sg_server ?g1)) \<rparr>"
  have "forward_step ?g2 (?g2\<lparr> sg_pool := q \<rparr>)" using forwardI [OF worker_ends [of ?g2 0 "(name, message)" q]] ends size by simp
  then have "forward_step\<^sup>*\<^sup>* g (?g2\<lparr> sg_pool := q \<rparr>)"
    using takes works_alone [OF size] by (meson rtranclp.rtrancl_into_rtrancl rtranclp_trans)
  moreover have "ready (?g2\<lparr> sg_pool := q \<rparr>)"
    using assms(1) q by (simp add: ready_def reactor_free_def running_def)
  ultimately show ?thesis by (intro exI [of _ "?g2\<lparr> sg_pool := q \<rparr>"]) (simp add: worker_task_def start)
qed

lemma serves_one:
  assumes "server_pool spawn config s0 = Inr (p, s)"
  shows "\<exists>g. serving_step\<^sup>*\<^sup>* (serving_start p s) g \<and> tasks (sg_pool g) = [] \<and> running (sg_pool g) = [] \<and>
     sg_accepted g = [(name, message)]"
  using ready_serves [OF ready_start [OF assms], of name message] forward_serving by (force simp: ready_def serving_start_def)

text \<open>The default configuration, and its four workers.\<close>

lemma demo_pool: "\<exists>p s. server_pool (\<lambda>_. None) [] s0 = Inr (p :: (string \<times> string) pool, s)"
  by (simp add: server_pool_def config_getInt_def config_get_def new_pool_def max_threads_def result_simps map_filter_def)

theorem server_stores_accepted_witness:
  "\<exists>s0 p s g. server_stores [] = Inr s0 \<and> server_pool (\<lambda>_. None) [] s0 = Inr (p, s) \<and>
     serving_step\<^sup>*\<^sup>* (serving_start p s) g \<and> sg_accepted g = [(''a'', serialize demo_metrics)] \<and>
     map_option sm_metrics (getLatest ''web-1'' (sv_metrics (sg_server g))) = Some (rounded demo_metrics)"
proof -
  obtain s0 where s0: "server_stores [] = Inr s0" using demo_stores by blast
  obtain p :: "(string \<times> string) pool" and s where p: "server_pool (\<lambda>_. None) [] s0 = Inr (p, s)" using demo_pool by blast
  obtain g where g: "serving_step\<^sup>*\<^sup>* (serving_start p s) g" "tasks (sg_pool g) = [] \<and> running (sg_pool g) = []"
    "sg_accepted g = [(''a'', serialize demo_metrics)]"
    using serves_one [OF p, of "''a''"] by blast
  have acc: "[rounded demo_metrics] = accepted_snapshots (sg_accepted g)"
    by (simp add: g(3) accepted_snapshots_Cons roundtrip_metrics [OF demo_sendable])
       (simp add: accepted_snapshots_def map_filter_simps)
  have "hostname (rounded demo_metrics) = ''web-1''" by (simp add: rounded_def demo_metrics_def default_metrics_def)
  then have "map_option sm_metrics (getLatest ''web-1'' (sv_metrics (sg_server g))) = Some (rounded demo_metrics)"
    using server_stores_accepted [OF s0 p g(1) _ acc, of "''web-1''"] g(2)
    by (simp add: of_host_def split: option.splits)
  then show ?thesis using s0 p g by blast
qed

end
