(* ===== verification/Timer_Scan.thy ===== *)
theory Timer_Scan
  imports Server_System
begin

text \<open>
  The scan of the timer, from \<open>src/server/TcpServer.cpp\<close>: what it tracks and logs on a quiet
  server, and what it does when it overlaps the work on a message, on a clock that all
  threads read.
\<close>

section \<open>The timer\<close>

lemma timer_scan_Cons: "timer_scan now (r # hosts) s = timer_scan now hosts (timer_scan now [r] s)"
  by (simp split: prod.split)

lemma timer_scan_tracker:
  assumes "distinct (map (\<lambda>r. hostname (sm_metrics r)) hosts)"
  shows "um_find (sv_tracker (timer_scan now hosts s)) h =
     (case find (\<lambda>r. hostname (sm_metrics r) = h) hosts of
        None \<Rightarrow> um_find (sv_tracker s) h | Some r \<Rightarrow> Some (getStatus (now r) r))"
  using assms
proof (induction hosts arbitrary: s)
  case (Cons r hosts)
  have step: "sv_tracker (timer_scan now [r] s) = snd (tracker_update (hostname (sm_metrics r)) (getStatus (now r) r) (sv_tracker s))"
    by (simp add: scan_host_def log_all_def split: prod.split)
  have "find (\<lambda>r. hostname (sm_metrics r) = h) hosts = None" if "hostname (sm_metrics r) = h"
    using Cons.prems that by (auto simp: find_None_iff image_iff)
  then show ?case using Cons unfolding timer_scan_Cons [of now r hosts]
    by (auto simp: step tracker_find simp del: timer_scan.simps split: option.split)
qed simp

lemma find_getAll:
  assumes "store_ok st"
  shows "find (\<lambda>r. hostname (sm_metrics r) = h) (getAll st) = getLatest h st"
proof (cases "getLatest h st")
  case None
  have "hostname (sm_metrics r) \<noteq> h" if "r \<in> set (getAll st)" for r
    using getAll_iff [OF assms, of r] that None by auto
  then show ?thesis using None by (simp add: find_None_iff)
next
  case (Some r)
  then have r: "hostname (sm_metrics r) = h" using assms by (simp add: store_ok_def getLatest_def)
  then have "r \<in> set (getAll st)" using getAll_iff [OF assms, of r] Some by simp
  then obtain r' where r': "find (\<lambda>r. hostname (sm_metrics r) = h) (getAll st) = Some r'"
    using r by (cases "find (\<lambda>r. hostname (sm_metrics r) = h) (getAll st)") (auto simp: find_None_iff)
  then have "r' \<in> set (getAll st)" "hostname (sm_metrics r') = h" by (auto simp: find_Some_iff)
  then show ?thesis using getAll_iff [OF assms, of r'] r' Some by simp
qed

lemma distinct_getAll: "store_ok st \<Longrightarrow> distinct (map (\<lambda>r. hostname (sm_metrics r)) (getAll st))"
  by (simp add: getAll_hosts) (simp add: store_ok_def um_ok_def)

text \<open>The entry of a record whose status is not the one that was tracked.\<close>

definition status_entry :: "(StoredMetrics \<Rightarrow> int) \<Rightarrow> state_tracker \<Rightarrow> StoredMetrics \<Rightarrow> log_entry" where
  "status_entry now st r = (Warning, ''Host status changed: host='' @ hostname (sm_metrics r) @ '', '' @
     statusToString (case um_find st (hostname (sm_metrics r)) of None \<Rightarrow> Offline | Some status \<Rightarrow> status) @ '' -> '' @
     statusToString (getStatus (now r) r))"

definition moved :: "(StoredMetrics \<Rightarrow> int) \<Rightarrow> state_tracker \<Rightarrow> StoredMetrics \<Rightarrow> bool" where
  "moved now st r \<longleftrightarrow> um_find st (hostname (sm_metrics r)) \<noteq> Some (getStatus (now r) r)"

lemma timer_scan_one:
  "timer_scan now [r] s =
     s\<lparr> sv_tracker := snd (tracker_update (hostname (sm_metrics r)) (getStatus (now r) r) (sv_tracker s)),
        sv_log := sv_log s @ (if moved now (sv_tracker s) r then [status_entry now (sv_tracker s) r] else []) \<rparr>"
  by (auto simp: scan_host_def log_all_def tracker_update_def moved_def status_entry_def split: option.split)

lemma timer_scan_log:
  assumes "distinct (map (\<lambda>r. hostname (sm_metrics r)) hosts)"
  shows "sv_log (timer_scan now hosts s) =
     sv_log s @ map (status_entry now (sv_tracker s)) (filter (moved now (sv_tracker s)) hosts)"
  using assms
proof (induction hosts arbitrary: s)
  case (Cons r hosts)
  let ?s = "timer_scan now [r] s"
  note split = timer_scan_Cons [of now r hosts s]
  have "um_find (sv_tracker ?s) (hostname (sm_metrics x)) = um_find (sv_tracker s) (hostname (sm_metrics x))" if "x \<in> set hosts" for x
    using Cons.prems that by (auto simp: timer_scan_one tracker_find image_iff simp del: timer_scan.simps)
  then have "filter (moved now (sv_tracker ?s)) hosts = filter (moved now (sv_tracker s)) hosts"
    "map (status_entry now (sv_tracker ?s)) (filter (moved now (sv_tracker s)) hosts) =
     map (status_entry now (sv_tracker s)) (filter (moved now (sv_tracker s)) hosts)"
    by (auto simp: moved_def status_entry_def intro!: filter_cong simp del: timer_scan.simps)
  moreover have "sv_log (timer_scan now hosts ?s) =
      sv_log ?s @ map (status_entry now (sv_tracker ?s)) (filter (moved now (sv_tracker ?s)) hosts)"
    using Cons by simp
  ultimately show ?case unfolding split by (simp add: timer_scan_one del: timer_scan.simps)
qed simp

text \<open>
  C17: the timer of a quiet server: afterwards each stored host is tracked with the status of the
  age of its record, online below six seconds, stale below sixteen and offline from then on,
  the others as before, and one warning is logged for each host whose status changed.
\<close>

theorem timer_reports_status:
  assumes "store_ok (sv_metrics s)"
  shows "um_find (sv_tracker (timer_callback now s)) h =
       (case getLatest h (sv_metrics s) of
          None \<Rightarrow> um_find (sv_tracker s) h
        | Some r \<Rightarrow> Some (if now r - updatedAt r < 6000000000 then Online
                         else if now r - updatedAt r < 16000000000 then Stale else Offline)) \<and>
     sv_log (timer_callback now s) =
       sv_log s @ map (status_entry now (sv_tracker s)) (filter (moved now (sv_tracker s)) (getAll (sv_metrics s)))"
  using timer_scan_tracker [OF distinct_getAll [OF assms]] timer_scan_log [OF distinct_getAll [OF assms]] find_getAll [OF assms]
  by (simp add: timer_callback_def getStatus_eq split: option.split)

theorem timer_reports_status_witness:
  "\<exists>s. server_stores [] = Inr s \<and>
     sv_log (timer_callback (\<lambda>_. 7000000000) (s\<lparr> sv_metrics := [(''web-1'', \<lparr> sm_metrics = demo_metrics, updatedAt = 0 \<rparr>)],
       sv_tracker := [(''web-1'', Online)] \<rparr>)) =
     sv_log s @ [(Warning, ''Host status changed: host=web-1, ONLINE -> STALE'')]"
proof -
  obtain s where s: "server_stores [] = Inr s" using demo_stores by blast
  let ?r = "\<lparr> sm_metrics = demo_metrics, updatedAt = 0 \<rparr>"
  let ?s = "s\<lparr> sv_metrics := [(''web-1'', ?r)], sv_tracker := [(''web-1'', Online)] \<rparr>"
  have host: "hostname demo_metrics = ''web-1''" by (simp add: demo_metrics_def default_metrics_def)
  have "store_ok (sv_metrics ?s)" by (auto simp: store_ok_def um_ok_def um_find_def host)
  moreover have "moved (\<lambda>_. 7000000000) (sv_tracker ?s) ?r"
    "status_entry (\<lambda>_. 7000000000) (sv_tracker ?s) ?r = (Warning, ''Host status changed: host=web-1, ONLINE -> STALE'')"
    by (simp_all add: moved_def status_entry_def host um_find_def getStatus_eq)
  moreover have "getAll (sv_metrics ?s) = [?r]" by (simp add: getAll_def um_values_def)
  ultimately have "sv_log (timer_callback (\<lambda>_. 7000000000) ?s) =
      sv_log s @ [(Warning, ''Host status changed: host=web-1, ONLINE -> STALE'')]"
    using timer_reports_status [of ?s "\<lambda>_. 7000000000"] by simp
  with s show ?thesis by blast
qed

section \<open>A scan that overlaps a message\<close>

lemma store_ok_exec:
  "exec_step ck st s = (go, logs, s') \<Longrightarrow> store_ok (sv_metrics s) \<Longrightarrow> store_ok (sv_metrics s')"
  by (cases st) (auto intro: store_ok_update split: prod.splits sum.splits)

lemma log_all_fields [simp]: "sv_metrics (log_all logs s) = sv_metrics s" "sv_tracker (log_all logs s) = sv_tracker s"
  "sv_functors (log_all logs s) = sv_functors s" "sv_log (log_all logs s) = sv_log s @ logs"
  by (simp_all add: log_all_def)

lemma scan_host_metrics: "scan_host now host s = (logs, s') \<Longrightarrow> sv_metrics s' = sv_metrics s"
  by (auto simp: scan_host_def split: prod.splits)

lemma scan_metrics [simp]: "sv_metrics (timer_scan now hosts s) = sv_metrics s"
  by (induction hosts arbitrary: s) (auto simp: scan_host_metrics split: prod.split)

interpretation serving_store: invariant_system
  "\<lambda>g. \<exists>spawn config s0 p s. server_stores config = Inr s0 \<and> server_pool spawn config s0 = Inr (p, s) \<and> g = serving_start p s"
  serving_step "\<lambda>g. store_ok (sv_metrics (sg_server g))"
proof unfold_locales
  fix g assume "\<exists>spawn config s0 p s. server_stores config = Inr s0 \<and> server_pool spawn config s0 = Inr (p, s) \<and> g = serving_start p s"
  then show "store_ok (sv_metrics (sg_server g))"
    by (auto simp: server_stores_def server_pool_def serving_start_def result_simps server_log_def)
next
  fix g g' assume "serving_step g g'" "store_ok (sv_metrics (sg_server g))"
  then show "store_ok (sv_metrics (sg_server g'))"
    by cases (auto simp: scan_host_metrics server_log_def store_ok_exec)
qed

lemma scan_alone:
  assumes "sg_scan g = hosts" and "sg_rlog g = []"
  shows "forward_step\<^sup>*\<^sup>* g (g\<lparr> sg_scan := [], sg_server := timer_scan (\<lambda>_. ck_systemNs (sg_clocks g)) hosts (sg_server g) \<rparr>)"
  using assms
proof (induction hosts arbitrary: g)
  case Nil
  then have "g\<lparr> sg_scan := [] \<rparr> = g" by (cases g) simp
  then show ?case by simp
next
  case (Cons host hosts)
  obtain logs s where look: "scan_host (ck_systemNs (sg_clocks g)) host (sg_server g) = (logs, s)" by fastforce
  let ?g = "g\<lparr> sg_server := s, sg_rlog := logs, sg_scan := hosts \<rparr>"
  let ?h = "g\<lparr> sg_scan := hosts, sg_server := log_all logs s, sg_rlog := [] \<rparr>"
  have 1: "forward_step g ?g" using forwardI [OF scan_looks [OF Cons.prems(2,1) look]] by simp
  have "logs = [] \<or> (\<exists>e. logs = [e])" using look by (auto simp: scan_host_def split: prod.splits if_splits)
  moreover have "?g = ?h" if "logs = []" by (cases g) (simp add: that)
  moreover have "forward_step ?g ?h" if "logs = [e]" for e
    using forwardI [OF reactor_logs [of ?g e "[]"]] by (cases g) (simp add: that)
  ultimately have 2: "forward_step\<^sup>*\<^sup>* ?g ?h" by (metis r_into_rtranclp rtranclp.rtrancl_refl)
  have 3: "forward_step\<^sup>*\<^sup>* ?h (?h\<lparr> sg_scan := [], sg_server := timer_scan (\<lambda>_. ck_systemNs (sg_clocks ?h)) hosts (sg_server ?h) \<rparr>)"
    using Cons.IH [of ?h] by simp
  have "?h\<lparr> sg_scan := [], sg_server := timer_scan (\<lambda>_. ck_systemNs (sg_clocks ?h)) hosts (sg_server ?h) \<rparr> =
      g\<lparr> sg_scan := [], sg_server := timer_scan (\<lambda>_. ck_systemNs (sg_clocks g)) (host # hosts) (sg_server g) \<rparr>"
    using look Cons.prems(2) by (cases g) simp
  with converse_rtranclp_into_rtranclp [where r = forward_step, OF 1 rtranclp_trans [OF 2 3]] show ?case by (simp only:)
qed

lemma task_stores:
  assumes "deserialize message = Inr m"
  shows "getLatest (hostname m) (sv_metrics (worker_task ck (name, message) s)) =
      Some \<lparr> sm_metrics = m, updatedAt = ck_systemNs (ck (StoreMetrics m)) \<rparr>"
    and "um_find (sv_tracker (worker_task ck (name, message) s)) (hostname m) = Some Online"
proof -
  have "hostname m \<noteq> []" using deserialize_InrI_valid [OF assms] by (simp add: valid_metrics_def)
  then show "getLatest (hostname m) (sv_metrics (worker_task ck (name, message) s)) =
      Some \<lparr> sm_metrics = m, updatedAt = ck_systemNs (ck (StoreMetrics m)) \<rparr>"
    and "um_find (sv_tracker (worker_task ck (name, message) s)) (hostname m) = Some Online"
    using assms fun_cong [OF tracker_find [of "hostname m" Online "sv_tracker s"], of "hostname m"]
    by (auto simp: worker_task_def start_task_def store_update_def getLatest_def um_simps split: prod.splits)
qed

text \<open>The clocks sixteen seconds after the first ones.\<close>

definition later_clocks :: clocks where
  "later_clocks = \<lparr> ck_systemMs = 16000, ck_systemNs = 16000000000, ck_steadyNs = 16000000000 \<rparr>"

text \<open>
  What a scan over the hosts of an older store logs and tracks, when the host was online.
\<close>

lemma old_scan_offline:
  assumes "store_ok st" and "getLatest h st = Some r" and "updatedAt r + 16000000000 \<le> now" and "um_find (sv_tracker s) h = Some Online"
  shows "um_find (sv_tracker (timer_scan (\<lambda>_. now) (getAll st) s)) h = Some Offline"
    and "(Warning, ''Host status changed: host='' @ h @ '', ONLINE -> OFFLINE'') \<in> set (sv_log (timer_scan (\<lambda>_. now) (getAll st) s))"
proof -
  have old: "getStatus now r = Offline" using assms(3) by (simp add: getStatus_eq)
  show "um_find (sv_tracker (timer_scan (\<lambda>_. now) (getAll st) s)) h = Some Offline"
    using timer_scan_tracker [OF distinct_getAll [OF assms(1)]] find_getAll [OF assms(1), of h] assms(2) old by simp
  have h: "hostname (sm_metrics r) = h" using assms(1,2) by (simp add: store_ok_def getLatest_def)
  then have "r \<in> set (getAll st)" using getAll_iff [OF assms(1), of r] assms(2) by simp
  moreover have "moved (\<lambda>_. now) (sv_tracker s) r"
    "status_entry (\<lambda>_. now) (sv_tracker s) r = (Warning, ''Host status changed: host='' @ h @ '', ONLINE -> OFFLINE'')"
    using assms(4) by (simp_all add: moved_def status_entry_def old h)
  ultimately show "(Warning, ''Host status changed: host='' @ h @ '', ONLINE -> OFFLINE'') \<in> set (sv_log (timer_scan (\<lambda>_. now) (getAll st) s))"
    unfolding timer_scan_log [OF distinct_getAll [OF assms(1)]] by force
qed

text \<open>
  C28: a scan that overlaps the work on a message: with a clock all threads read and that is not
  set back, the server can reach a state in which the scan of the timer holds the record of
  the first message of a host while the second one is taken and not yet stored, and from
  there, with nothing more arriving, a state at rest in which the host is online by the age
  of its record, that of the second message, and tracked and logged as offline.
\<close>

theorem overlapping_scan_marks_offline:
  assumes "server_stores config = Inr s0" and "server_pool spawn config s0 = Inr (p, s)"
    and "deserialize msg1 = Inr m1" and "deserialize msg2 = Inr m2" and "hostname m1 = hostname m2"
  shows "\<exists>g r g'. forward_step\<^sup>*\<^sup>* (serving_start p s) g \<and> sg_accepted g = [(c, msg1), (c, msg2)] \<and>
     r \<in> set (sg_scan g) \<and> sm_metrics r = m1 \<and> getLatest (hostname m2) (sv_metrics (sg_server g)) = Some r \<and>
     (\<exists>w \<in> set (sg_tasks g). StoreMetrics m2 \<in> set (snd w)) \<and>
     forward_step\<^sup>*\<^sup>* g g' \<and> sg_accepted g' = [(c, msg1), (c, msg2)] \<and> reactor_free g' \<and>
     tasks (sg_pool g') = [] \<and> running (sg_pool g') = [] \<and>
     map_option sm_metrics (getLatest (hostname m2) (sv_metrics (sg_server g'))) = Some m2 \<and>
     getStatusOf (ck_systemNs (sg_clocks g')) (hostname m2) (sv_metrics (sg_server g')) = Some Online \<and>
     um_find (sv_tracker (sg_server g')) (hostname m2) = Some Offline \<and>
     (Warning, ''Host status changed: host='' @ hostname m2 @ '', ONLINE -> OFFLINE'') \<in> set (sv_log (sg_server g'))"
proof -
  obtain g1 where g1: "forward_step\<^sup>*\<^sup>* (serving_start p s) g1" "ready g1" "sg_accepted g1 = [(c, msg1)]" "sg_clocks g1 = first_clocks"
    "sg_server g1 = worker_task (\<lambda>_. first_clocks) (c, msg1) s"
    using ready_serves [OF ready_start [OF assms(2)], of c msg1] by (auto simp: serving_start_def)
  define g2 where "g2 = g1\<lparr> sg_clocks := later_clocks \<rparr>"
  have 2: "forward_step g1 g2"
    using time_passes [of g1 later_clocks] g1(4) by (simp add: forward_step_def g2_def clocks_move_def first_clocks_def later_clocks_def)
  have ready: "ready g2" using g1(2) by (simp add: g2_def ready_def reactor_free_def)
  define r where "r = \<lparr> sm_metrics = m1, updatedAt = 0 \<rparr>"
  have old: "getLatest (hostname m2) (sv_metrics (sg_server g1)) = Some r"
    using task_stores(1) [OF assms(3)] by (simp add: g1(5) assms(5) [symmetric] r_def first_clocks_def)
  obtain p3 q where 3: "forward_step\<^sup>*\<^sup>* g2 (g2\<lparr> sg_accepted := sg_accepted g2 @ [(c, msg2)], sg_pool := p3,
      sg_tasks := (sg_tasks g2)[0 := start_task (c, msg2)] \<rparr>)" (is "forward_step\<^sup>*\<^sup>* g2 ?g3")
    and q: "pool_step p3 (Finish 0 (c, msg2) Returned) q" "tasks q = []" "workers q = workers (sg_pool g2)"
    using ready_takes [OF ready, of c msg2] by blast
  have free: "sg_scan g1 = []" "sg_batch g1 = []" "sg_rlog g1 = []" "0 < length (sg_tasks g1)" "running (sg_pool g1) = []"
    using g1(2) by (simp_all add: ready_def reactor_free_def)
  define hosts where "hosts = getAll (sv_metrics (sg_server g1))"
  define g where "g = ?g3\<lparr> sg_scan := hosts \<rparr>"
  have 4: "forward_step ?g3 g"
    using forwardI [OF scan_begins [of ?g3]] by (simp add: reactor_free_def free g_def g2_def hosts_def)
  obtain logs steps where start: "start_task (c, msg2) = (logs, steps)" by fastforce
  have at0: "0 < length (sg_tasks g)" "sg_tasks g ! 0 = (logs, steps)" using free(4) start by (simp_all add: g_def g2_def)
  have "(logs, steps) \<in> set (sg_tasks g)" using at0 by (metis nth_mem)
  moreover have "StoreMetrics m2 \<in> set steps" using start assms(4) by (auto simp: start_task_def)
  ultimately have taken: "\<exists>w \<in> set (sg_tasks g). StoreMetrics m2 \<in> set (snd w)" by force
  define g5 where "g5 = g\<lparr> sg_tasks := (sg_tasks g)[0 := ([], [])], sg_server := worker_task (\<lambda>_. later_clocks) (c, msg2) (sg_server g) \<rparr>"
  have 5: "forward_step\<^sup>*\<^sup>* g g5" using works_alone [OF at0] by (simp add: g5_def worker_task_def start g_def g2_def)
  define g6 where "g6 = g5\<lparr> sg_scan := [], sg_server := timer_scan (\<lambda>_. ck_systemNs (sg_clocks g5)) hosts (sg_server g5) \<rparr>"
  have 6: "forward_step\<^sup>*\<^sup>* g5 g6" unfolding g6_def by (rule scan_alone) (simp_all add: g5_def g_def g2_def free)
  define g' where "g' = g6\<lparr> sg_pool := q \<rparr>"
  have 7: "forward_step g6 g'"
    using forwardI [OF worker_ends [of g6 0 "(c, msg2)" q]] q(1) at0(1) by (simp add: g'_def g6_def g5_def g_def)
  have before: "forward_step\<^sup>*\<^sup>* (serving_start p s) g"
    using g1(1) 2 3 4 by (meson rtranclp.rtrancl_into_rtrancl rtranclp_trans)
  have after: "forward_step\<^sup>*\<^sup>* g g'" using 5 6 7 by (meson rtranclp.rtrancl_into_rtrancl rtranclp_trans)
  have ok: "store_ok (sv_metrics (sg_server g1))"
    using serving_store.reached [of "serving_start p s" g1] assms(1,2) forward_serving [OF g1(1)] by blast
  have now: "ck_systemNs (sg_clocks g5) = 16000000000" "updatedAt r + 16000000000 \<le> 16000000000"
    by (simp_all add: g5_def g_def g2_def later_clocks_def r_def)
  have "um_find (sv_tracker (sg_server g5)) (hostname m2) = Some Online" using task_stores(2) [OF assms(4)] by (simp add: g5_def)
  note scan = old_scan_offline [OF ok old now(2) this, folded hosts_def]
  have server: "sg_server g' = timer_scan (\<lambda>_. 16000000000) hosts (sg_server g5)" by (simp add: g'_def g6_def now(1))
  have latest: "getLatest (hostname m2) (sv_metrics (sg_server g')) = Some \<lparr> sm_metrics = m2, updatedAt = 16000000000 \<rparr>"
    using task_stores(1) [OF assms(4)] by (simp add: server g5_def later_clocks_def)
  have online: "getStatusOf (ck_systemNs (sg_clocks g')) (hostname m2) (sv_metrics (sg_server g')) = Some Online"
    using latest by (simp add: getStatusOf_def getStatus_eq) (simp add: g'_def g6_def now(1))
  have r: "r \<in> set (sg_scan g)" "sm_metrics r = m1"
    using getAll_iff [OF ok, of r] old by (simp_all add: g_def hosts_def r_def assms(5))
  have stored: "getLatest (hostname m2) (sv_metrics (sg_server g)) = Some r" using old by (simp add: g_def g2_def)
  have m2: "map_option sm_metrics (getLatest (hostname m2) (sv_metrics (sg_server g'))) = Some m2" by (simp add: latest)
  have "sg_accepted g = [(c, msg1), (c, msg2)]" "sg_accepted g' = [(c, msg1), (c, msg2)]" "reactor_free g'"
    "tasks (sg_pool g') = []" "running (sg_pool g') = []"
    using free q(2,3) by (simp_all add: g'_def g6_def g5_def g_def g2_def g1(3) reactor_free_def running_def)
  with before after r stored taken m2 online scan [folded server] show ?thesis by blast
qed

theorem overlapping_scan_marks_offline_witness:
  "\<exists>s0 p s g. server_stores [] = Inr s0 \<and> server_pool (\<lambda>_. None) [] s0 = Inr (p, s) \<and> forward_step\<^sup>*\<^sup>* (serving_start p s) g \<and>
     getStatusOf (ck_systemNs (sg_clocks g)) ''web-1'' (sv_metrics (sg_server g)) = Some Online \<and>
     um_find (sv_tracker (sg_server g)) ''web-1'' = Some Offline"
proof -
  have hosts: "hostname (rounded demo_metrics) = ''web-1''" "hostname (rounded demo_later) = ''web-1''"
    by (simp_all add: rounded_def demo_later_def demo_metrics_def default_metrics_def)
  obtain s0 where s0: "server_stores [] = Inr s0" using demo_stores by blast
  obtain p :: "(string \<times> string) pool" and s where p: "server_pool (\<lambda>_. None) [] s0 = Inr (p, s)" using demo_pool by blast
  show ?thesis
    using overlapping_scan_marks_offline [OF s0 p roundtrip_metrics [OF demo_sendable] roundtrip_metrics [OF demo_later_sendable]]
      s0 p unfolding hosts by (meson rtranclp_trans)
qed

end
