(* ===== verification/Server_Stop.thy ===== *)
theory Server_Stop
  imports Server_System
begin

text \<open>
  The end of the server, from \<open>src/server/TcpServer.cpp\<close> and \<open>src/thread/ThreadPool.cpp\<close>: once the
  pool has been told to stop, its threads finish the messages that were accepted in boundedly
  many steps, the entries they still log included, and its joins return with every one of them in the stores.
\<close>

section \<open>A bound\<close>

text \<open>
  A step leaves at most three entries to log, one for each rule of the alerts, and a task has
  at most five steps, so a task costs less than the step of the pool that takes it pays.
\<close>

definition thread_cost :: "thread \<Rightarrow> nat" where
  "thread_cost w = length (fst w) + 4 * length (snd w)"

definition serving_cost :: "serving \<Rightarrow> nat" where
  "serving_cost g = 21 * pool_cost (sg_pool g) + sum_list (map thread_cost (sg_tasks g))"

lemma start_task_cost: "thread_cost (start_task t) \<le> 20"
  by (auto simp: start_task_def thread_cost_def split: prod.splits sum.splits)

lemma evaluate_length: "length (evaluate m ct mt) \<le> 3"
  by (simp add: evaluate_defs)

lemma exec_step_entries:
  assumes "exec_step ck st s = (go, logs, s')"
  shows "length logs \<le> 3"
proof (cases st)
  case (UpdateAlerts m)
  obtain am fired es where upd: "alert_update (ck_steadyNs ck) m (sv_alerts s) = (am, fired, es)" using prod_cases3 by blast
  have "length (List.map_filter f xs) \<le> length xs" for f :: "Alert \<Rightarrow> ManagedAlert option" and xs
    by (simp add: List.map_filter_def)
  then have "length fired \<le> 3"
    using alert_update_find(2) [OF upd] evaluate_length [of m "am_cpuThreshold (sv_alerts s)" "am_memoryThreshold (sv_alerts s)"]
    by (metis order_trans)
  then have "length (firing_logs fired) \<le> 3" by (simp add: firing_logs_def le_trans [OF length_filter_le])
  then show ?thesis using assms UpdateAlerts by (auto simp: upd)
qed (use assms in \<open>auto split: prod.splits sum.splits\<close>)

lemma steps_upd:
  fixes f :: "'a \<Rightarrow> nat"
  shows "i < length ts \<Longrightarrow> sum_list (map f (ts[i := w])) + f (ts ! i) = sum_list (map f ts) + f w"
proof (induction ts arbitrary: i)
  case (Cons t ts)
  then show ?case by (cases i) auto
qed simp

lemma steps_upd_le:
  fixes f :: "'a \<Rightarrow> nat"
  shows "sum_list (map f (ts[i := w])) \<le> sum_list (map f ts) + f w"
  using steps_upd [of i ts f w] by (cases "i < length ts") (auto simp: list_update_beyond)

text \<open>The moves of a worker cost less than they pay.\<close>

lemma worker_takes_cost:
  assumes "pool_cost p < pool_cost (sg_pool g)"
  shows "serving_cost (g\<lparr> sg_pool := p, sg_tasks := (sg_tasks g)[i := start_task t] \<rparr>) < serving_cost g"
  using assms start_task_cost [of t] steps_upd_le [of thread_cost "sg_tasks g" i "start_task t"] by (simp add: serving_cost_def)

lemma worker_logs_cost:
  assumes "i < length (sg_tasks g)" and "sg_tasks g ! i = (e # logs, steps)"
  shows "serving_cost (g\<lparr> sg_tasks := (sg_tasks g)[i := (logs, steps)], sg_server := s \<rparr>) < serving_cost g"
  using steps_upd [OF assms(1), of thread_cost "(logs, steps)"] by (simp add: serving_cost_def assms(2) thread_cost_def)

lemma worker_works_cost:
  assumes "i < length (sg_tasks g)" and "sg_tasks g ! i = ([], st # rest)" and "exec_step ck st s = (go, logs, s')"
  shows "serving_cost (g\<lparr> sg_tasks := (sg_tasks g)[i := (logs, if go then rest else [])], sg_server := s' \<rparr>) < serving_cost g"
  using steps_upd [OF assms(1), of thread_cost "(logs, if go then rest else [])"] exec_step_entries [OF assms(3)]
  by (cases go) (simp_all add: serving_cost_def assms(2) thread_cost_def)

lemma submit_stopping: "stopping p \<Longrightarrow> trySubmit t p = (ok, p') \<Longrightarrow> \<not> ok \<and> p' = p"
  by (auto simp: trySubmit_def split: option.splits)

lemma turn_not_asleep: "pool_step p (Turn i Asleep) p' \<Longrightarrow> \<not> stopping p"
  by (erule pool_step.cases) (auto simp: worker_turn_def split: if_splits)

lemma stopping_pool_only:
  assumes "pool_step p e p'" and "pool_only e" and "stopping p"
  shows "pool_cost p' < pool_cost p \<or> p' = p"
proof (cases "e = StopBegin")
  case True
  then show ?thesis using assms(1,3) by (auto elim: pool_step.cases simp: stop_begin_def)
next
  case False
  then have "pool_internal e \<or> (\<exists>i. e = Wake i)"
    using assms(2) by (cases e rule: pool_only.cases) (auto simp: pool_internal_def)
  then show ?thesis using internal_cost [OF assms(1,3)] by blast
qed

lemma serving_cost_step:
  assumes "serving_step g g'" and "stopping (sg_pool g)"
  shows "serving_cost g' < serving_cost g \<or> sg_pool g' = sg_pool g \<and> sg_tasks g' = sg_tasks g"
  using assms(1)
proof cases
  case (message_arrives name message ok p logs)
  obtain ok' p' where "trySubmit (Some (name, message)) (sg_pool g) = (ok', p')" by fastforce
  moreover from submit_stopping [OF assms(2) this] have "p = sg_pool g"
    using message_arrives(4) \<open>trySubmit (Some (name, message)) (sg_pool g) = (ok', p')\<close> by (simp add: message_callback_def)
  ultimately show ?thesis by (simp add: message_arrives(1))
next
  case (worker_takes i t p)
  then show ?thesis using worker_takes_cost internal_cost [OF worker_takes(2) assms(2)] by (simp add: pool_internal_def)
next
  case (worker_logs i e logs steps)
  then show ?thesis using worker_logs_cost by blast
next
  case (worker_works i st rest go logs s)
  then show ?thesis using worker_works_cost by blast
next
  case (worker_ends i t p)
  have "pool_cost p < pool_cost (sg_pool g)"
    using internal_cost [OF worker_ends(2) assms(2)] by (simp add: pool_internal_def)
  then show ?thesis by (simp add: serving_cost_def worker_ends(1))
next
  case (pool_moves e p)
  then show ?thesis using stopping_pool_only [OF pool_moves(2,3) assms(2)] by (auto simp: serving_cost_def)
qed simp_all

section \<open>Progress\<close>

lemma serving_progress:
  assumes "serves g a" and "stopping (sg_pool g)" and "stop_join (sg_pool g) = None"
  shows "\<exists>g'. serving_step g g' \<and> serving_cost g' < serving_cost g \<and> stopping (sg_pool g') \<and> sg_accepted g' = sg_accepted g"
proof -
  have ok: "pool_ok (sg_pool g)" and match: "workers_match (sg_pool g) (sg_tasks g)" using assms(1) by (simp_all add: serves_def)
  obtain e p where e: "pool_internal e" "pool_step (sg_pool g) e p" using stop_not_joined [OF ok assms(2,3)] by blast
  have less: "pool_cost p < pool_cost (sg_pool g)" "stopping p" using internal_cost [OF e(2) assms(2)] e(1) by blast+
  have moves: ?thesis if "pool_only e"
    using pool_moves [OF e(2) that] less by (intro exI [of _ "g\<lparr> sg_pool := p \<rparr>"]) (simp add: serving_cost_def)
  consider "pool_only e" | i t where "e = Turn i (Running t)" | i t out where "e = Finish i t out" | i where "e = Turn i Ready"
    using e(1) by (cases e rule: pool_only.cases) (auto simp: pool_internal_def)
  then show ?thesis
  proof cases
    case (2 i t)
    have "serving_step g (g\<lparr> sg_pool := p, sg_tasks := (sg_tasks g)[i := start_task t] \<rparr>)" (is "serving_step g ?g")
      using worker_takes [OF e(2) [unfolded 2]] .
    then show ?thesis using less worker_takes_cost [OF less(1)] by (intro exI [of _ ?g]) simp
  next
    case (3 i t out)
    then have i: "i < length (workers (sg_pool g))" "workers (sg_pool g) ! i = Running t" using e(2) by (auto elim: finishE)
    have size: "i < length (sg_tasks g)" using match i(1) by (simp add: workers_match_def)
    consider "sg_tasks g ! i = ([], [])" | entry logs steps where "sg_tasks g ! i = (entry # logs, steps)"
      | st rest where "sg_tasks g ! i = ([], st # rest)" by (metis list.exhaust surj_pair)
    then show ?thesis
    proof cases
      case 1
      have "pool_step (sg_pool g) (Finish i t Returned)
          ((sg_pool g)\<lparr> workers := (workers (sg_pool g))[i := Ready], pool_log := pool_log (sg_pool g) @ task_log Returned \<rparr>)"
        (is "pool_step _ _ ?p") using i by (rule pool_step.finish)
      moreover from internal_cost [OF this assms(2)] have "pool_cost ?p < pool_cost (sg_pool g)" "stopping ?p"
        by (simp_all add: pool_internal_def)
      ultimately show ?thesis using worker_ends [OF _ 1, of t ?p]
        by (intro exI [of _ "g\<lparr> sg_pool := ?p \<rparr>"]) (simp add: serving_cost_def)
    next
      case (2 entry logs steps)
      from worker_logs [OF size 2] worker_logs_cost [OF size 2] show ?thesis using assms(2)
        by (intro exI [of _ "g\<lparr> sg_tasks := (sg_tasks g)[i := (logs, steps)], sg_server := log_all [entry] (sg_server g) \<rparr>"]) simp
    next
      case (3 st rest)
      obtain go logs s where go: "exec_step (sg_clocks g) st (sg_server g) = (go, logs, s)" using prod_cases3 by blast
      from worker_works [OF size 3 go] worker_works_cost [OF size 3 go] show ?thesis using assms(2)
        by (intro exI [of _ "g\<lparr> sg_tasks := (sg_tasks g)[i := (logs, if go then rest else [])], sg_server := s \<rparr>"]) simp
    qed
  next
    case (4 i)
    then have False using e(2) by (auto elim!: pool_step.cases simp: worker_turn_def split: if_splits)
    then show ?thesis ..
  qed (rule moves)
qed

lemma serving_stops:
  assumes "serves g a" and "stopping (sg_pool g)"
  shows "\<exists>g'. serving_step\<^sup>*\<^sup>* g g' \<and> stop_join (sg_pool g') \<noteq> None \<and> sg_accepted g' = sg_accepted g"
  using assms
proof (induction "serving_cost g" arbitrary: g a rule: less_induct)
  case less
  show ?case
  proof (cases "stop_join (sg_pool g) = None")
    case True
    obtain g1 where g1: "serving_step g g1" "serving_cost g1 < serving_cost g" "stopping (sg_pool g1)" "sg_accepted g1 = sg_accepted g"
      using serving_progress [OF less.prems True] by blast
    obtain a1 where "serves g1 a1" using serves_matches [OF g1(1) less.prems(1)] by blast
    then obtain g2 where "serving_step\<^sup>*\<^sup>* g1 g2" "stop_join (sg_pool g2) \<noteq> None" "sg_accepted g2 = sg_accepted g1"
      using less.hyps [OF g1(2)] g1(3) by blast
    then show ?thesis using g1 by (metis converse_rtranclp_into_rtranclp)
  qed blast
qed

text \<open>
  C5: a stop that has begun comes to its end and loses nothing: every step of the serving server
  either brings the pool closer to it or leaves the pool and its tasks as they are, and from
  every reachable state the joins can be reached, with nothing more accepted; then each host
  of an accepted message has a record, and the record is the snapshot of one of its messages.
\<close>

theorem stop_stores_accepted:
  assumes "server_stores config = Inr s0" and "server_pool spawn config s0 = Inr (p, s)"
    and "serving_step\<^sup>*\<^sup>* (serving_start p s) g" and "stopping (sg_pool g)" and "ms = accepted_snapshots (sg_accepted g)"
  shows "(\<forall>g'. serving_step g g' \<longrightarrow> serving_cost g' < serving_cost g \<or> sg_pool g' = sg_pool g \<and> sg_tasks g' = sg_tasks g) \<and>
     (\<exists>g'. serving_step\<^sup>*\<^sup>* g g' \<and> stop_join (sg_pool g') \<noteq> None \<and> sg_accepted g' = sg_accepted g \<and>
       (\<forall>h. case getLatest h (sv_metrics (sg_server g')) of
          None \<Rightarrow> of_host h ms = [] | Some r \<Rightarrow> sm_metrics r \<in> set (of_host h ms)))"
proof
  show "\<forall>g'. serving_step g g' \<longrightarrow> serving_cost g' < serving_cost g \<or> sg_pool g' = sg_pool g \<and> sg_tasks g' = sg_tasks g"
    using serving_cost_step assms(4) by blast
  obtain a where "serves g a" using serving.simulates [OF assms(3) serves_start [OF assms(2)]] by blast
  then obtain g' where g': "serving_step\<^sup>*\<^sup>* g g'" "stop_join (sg_pool g') \<noteq> None" "sg_accepted g' = sg_accepted g"
    using serving_stops assms(4) by blast
  have "serving_step\<^sup>*\<^sup>* (serving_start p s) g'" using assms(3) g'(1) by (rule rtranclp_trans)
  from serving_idle [OF assms(1,2) this] g' show "\<exists>g'. serving_step\<^sup>*\<^sup>* g g' \<and> stop_join (sg_pool g') \<noteq> None \<and> sg_accepted g' = sg_accepted g \<and>
       (\<forall>h. case getLatest h (sv_metrics (sg_server g')) of
          None \<Rightarrow> of_host h ms = [] | Some r \<Rightarrow> sm_metrics r \<in> set (of_host h ms))"
    unfolding assms(5) by (intro exI [of _ g']) (simp add: stores_of_def)
qed

text \<open>A stop while a message waits in the queue.\<close>

theorem stop_stores_accepted_witness:
  "\<exists>s0 p s g g'. server_stores [] = Inr s0 \<and> server_pool (\<lambda>_. None) [] s0 = Inr (p, s) \<and>
     serving_step\<^sup>*\<^sup>* (serving_start p s) g \<and> tasks (sg_pool g) = [(''a'', serialize demo_metrics)] \<and> stopping (sg_pool g) \<and>
     serving_step\<^sup>*\<^sup>* g g' \<and> map_option sm_metrics (getLatest ''web-1'' (sv_metrics (sg_server g'))) = Some (rounded demo_metrics)"
proof -
  obtain s0 where s0: "server_stores [] = Inr s0" using demo_stores by blast
  obtain p :: "(string \<times> string) pool" and s where p: "server_pool (\<lambda>_. None) [] s0 = Inr (p, s)" using demo_pool by blast
  define m where "m = (''a'', serialize demo_metrics)"
  have ready: "reactor_free (serving_start p s)" "tasks p = []" "\<not> stopping p" "maxQueueSize p \<noteq> 0"
    using ready_start [OF p] by (auto simp: ready_def serving_start_def)
  define p1 where "p1 = p\<lparr> tasks := [m], notify_one_due := Suc (notify_one_due p) \<rparr>"
  have submitted: "trySubmit (Some m) p = (True, p1)"
    using ready by (simp add: trySubmit_def p1_def unat_eq_zero word_le_nat_alt)
  have "serving_step (serving_start p s) ((serving_start p s)\<lparr> sg_pool := p1, sg_rlog := [],
      sg_accepted := sg_accepted (serving_start p s) @ (if True then [(fst m, snd m)] else []),
      sg_dropped := sg_dropped (serving_start p s) @ (if True then [] else [(fst m, snd m)]) \<rparr>)"
    using ready(1) by (rule message_arrives) (simp_all add: submitted message_callback_def serving_start_def)
  then have 1: "serving_step (serving_start p s) ((serving_start p s)\<lparr> sg_pool := p1, sg_accepted := [m] \<rparr>)"
    (is "serving_step _ ?g1") by (simp add: serving_start_def)
  define g where "g = ?g1\<lparr> sg_pool := stop_begin p1 \<rparr>"
  have 2: "serving_step ?g1 g" unfolding g_def by (rule pool_moves [of _ StopBegin]) (simp_all add: pool_step.stop_begin)
  have reach: "serving_step\<^sup>*\<^sup>* (serving_start p s) g"
    using 1 2 by (meson converse_rtranclp_into_rtranclp r_into_rtranclp)
  have g: "stopping (sg_pool g)" "tasks (sg_pool g) = [m]" "sg_accepted g = [m]"
    by (simp_all add: g_def stop_begin_def p1_def)
  have acc: "[rounded demo_metrics] = accepted_snapshots (sg_accepted g)"
    by (simp add: g(3) m_def accepted_snapshots_Cons roundtrip_metrics [OF demo_sendable])
       (simp add: accepted_snapshots_def map_filter_simps)
  have host: "hostname (rounded demo_metrics) = ''web-1''" by (simp add: rounded_def demo_metrics_def default_metrics_def)
  obtain g' where g': "serving_step\<^sup>*\<^sup>* g g'" "\<forall>h. case getLatest h (sv_metrics (sg_server g')) of
      None \<Rightarrow> of_host h [rounded demo_metrics] = [] | Some r \<Rightarrow> sm_metrics r \<in> set (of_host h [rounded demo_metrics])"
    using stop_stores_accepted [OF s0 p reach g(1) acc] by blast
  have "map_option sm_metrics (getLatest ''web-1'' (sv_metrics (sg_server g'))) = Some (rounded demo_metrics)"
    using g'(2) [rule_format, of "''web-1''"] by (simp add: of_host_def host split: option.splits)
  then show ?thesis using s0 p reach g g'(1) unfolding m_def by blast
qed

end
