(* ===== verification/Server_Log.thy ===== *)
theory Server_Log
  imports Timer_Scan
begin

text \<open>
  No message of a client is lost in silence: what the log of the serving server,
  \<open>src/server/TcpServer.cpp\<close>, says of the messages the pool refused and of those the deserializer
  rejected.  A thread calls the logger when it holds no lock of a store or of the pool, so the
  warnings of different workers come in any order, and a worker may have taken a message
  whose warning is not yet written.
\<close>

section \<open>Entries\<close>

definition drop_entry :: "string \<times> string \<Rightarrow> log_entry" where
  "drop_entry t = (Warning, ''Worker queue full, drop metrics from '' @ fst t)"

definition reject_entry :: "string \<times> string \<Rightarrow> log_entry option" where
  "reject_entry t = (case deserialize (snd t) of
     Inl e \<Rightarrow> Some (Warning, ''Invalid metrics from '' @ fst t @ '': '' @ what e) | Inr m \<Rightarrow> None)"

definition is_drop :: "log_entry \<Rightarrow> bool" where
  "is_drop e \<longleftrightarrow> fst e = Warning \<and> starts_with ''Worker queue full'' (snd e)"

definition is_reject :: "log_entry \<Rightarrow> bool" where
  "is_reject e \<longleftrightarrow> fst e = Warning \<and> starts_with ''Invalid metrics from '' (snd e)"

text \<open>Entries of neither kind do not change what the log says of messages.\<close>

definition quiet :: "log_entry list \<Rightarrow> bool" where
  "quiet es \<longleftrightarrow> (\<forall>e \<in> set es. \<not> is_drop e \<and> \<not> is_reject e)"

lemma quiet_filter: "quiet es \<Longrightarrow> filter is_drop es = [] \<and> filter is_reject es = []"
  by (auto simp: quiet_def filter_empty_conv)

lemma quiet_Nil [simp]: "quiet []"
  by (simp add: quiet_def)

lemma quiet_append [simp]: "quiet (xs @ ys) \<longleftrightarrow> quiet xs \<and> quiet ys"
  by (auto simp: quiet_def)

lemma quiet_level [simp]: "level \<noteq> Warning \<Longrightarrow> quiet [(level, msg)]"
  by (simp add: quiet_def is_drop_def is_reject_def)

lemma quiet_status: "quiet [status_entry now st r]"
  by (simp add: quiet_def is_drop_def is_reject_def status_entry_def)

lemma quiet_firing: "quiet (firing_logs alerts)"
  by (auto simp: firing_logs_def quiet_def is_drop_def is_reject_def)

lemma quiet_resolve: "quiet (resolve_logs keys alerts)"
  by (auto simp: resolve_logs_def quiet_def is_drop_def is_reject_def)

lemma quiet_alerts: "alert_update now m am = (am', res, logs) \<Longrightarrow> quiet logs"
  by (auto simp: alert_update_def quiet_resolve Let_def split: prod.splits)

lemma exec_log: "exec_step ck st s = (go, logs, s') \<Longrightarrow> quiet logs \<and> (\<exists>es. sv_log s' = sv_log s @ es \<and> quiet es)"
  by (cases st) (auto simp: quiet_alerts quiet_firing quiet_level split: prod.splits sum.splits if_splits)

lemma scan_log: "scan_host now host s = (logs, s') \<Longrightarrow> quiet logs \<and> sv_log s' = sv_log s"
  by (auto simp: scan_host_def quiet_def is_drop_def is_reject_def split: prod.splits if_splits)

section \<open>The invariant\<close>

text \<open>
  The entries the workers have still to write.  Those of the reactor come after the ones in the
  log; those of different workers come in any order.
\<close>

definition pending_logs :: "thread list \<Rightarrow> log_entry list" where
  "pending_logs ts = concat (map fst ts)"

definition log_inv :: "serving \<Rightarrow> bool" where
  "log_inv g \<longleftrightarrow> (\<exists>a. serves g a) \<and>
     filter is_drop (sv_log (sg_server g) @ sg_rlog g) = map drop_entry (sg_dropped g) \<and>
     filter is_drop (pending_logs (sg_tasks g)) = [] \<and> filter is_reject (sg_rlog g) = [] \<and>
     (\<exists>took. sg_accepted g = took @ tasks (sg_pool g) \<and>
        mset (filter is_reject (sv_log (sg_server g) @ pending_logs (sg_tasks g))) = mset (List.map_filter reject_entry took))"

lemma pending_upd:
  "i < length ts \<Longrightarrow> mset (pending_logs (ts[i := w])) + mset (fst (ts ! i)) = mset (pending_logs ts) + mset (fst w)"
proof (induction ts arbitrary: i)
  case (Cons t ts)
  then show ?case by (cases i) (auto simp: pending_logs_def add.assoc add.commute)
qed simp

lemma pending_filter:
  assumes "i < length ts"
  shows "mset (filter P (pending_logs (ts[i := w]))) + mset (filter P (fst (ts ! i))) =
     mset (filter P (pending_logs ts)) + mset (filter P (fst w))"
  using arg_cong [OF pending_upd [OF assms, of w], of "filter_mset P"] by simp

lemma pending_quiet:
  assumes "i < length ts" and "filter P (fst w) = filter P (fst (ts ! i))"
  shows "mset (filter P (pending_logs (ts[i := w]))) = mset (filter P (pending_logs ts))"
  using pending_filter [OF assms(1), of P w] assms(2) by simp

text \<open>Steps that write or leave entries of neither kind.\<close>

lemma log_inv_quiet:
  assumes "log_inv g" and "\<exists>a. serves g' a" and "sv_log (sg_server g') = sv_log (sg_server g) @ es" and "quiet es"
    and "filter is_drop (sg_rlog g') = filter is_drop (sg_rlog g)" and "filter is_reject (sg_rlog g') = []"
    and "\<And>P. P \<in> {is_drop, is_reject} \<Longrightarrow>
      mset (filter P (pending_logs (sg_tasks g'))) = mset (filter P (pending_logs (sg_tasks g)))"
    and "tasks (sg_pool g') = tasks (sg_pool g)" and "sg_accepted g' = sg_accepted g" and "sg_dropped g' = sg_dropped g"
  shows "log_inv g'"
proof -
  have "mset (filter is_drop (pending_logs (sg_tasks g'))) = {#}"
    using assms(1) assms(7) [of is_drop] by (simp add: log_inv_def del: mset_filter)
  then have "filter is_drop (pending_logs (sg_tasks g')) = []" by (simp del: mset_filter)
  then show ?thesis using assms(1-6,8-) assms(7) [of is_reject] quiet_filter [OF assms(4)]
    by (auto simp: log_inv_def simp del: mset_filter)
qed

lemma start_task_log:
  "fst (start_task t) = List.map_filter reject_entry [t] \<and> filter is_drop (fst (start_task t)) = [] \<and>
     filter is_reject (fst (start_task t)) = fst (start_task t)"
  by (auto simp: start_task_def reject_entry_def map_filter_simps is_drop_def is_reject_def split: prod.splits sum.splits)

lemma step_started:
  assumes "pool_step p e p'" and "accepted [e] = []"
  shows "tasks p = started [e] @ tasks p'"
  using step_order [OF assms(1)] assms(2) by simp

lemma log_inv_step:
  assumes step: "serving_step g g'" and inv: "log_inv g"
  shows "log_inv g'"
proof -
  obtain a where a: "serves g a" using inv by (auto simp: log_inv_def)
  have match: "workers_match (sg_pool g) (sg_tasks g)" using a by (simp add: serves_def)
  have serves': "\<exists>a. serves g' a" using serves_matches [OF step a] by blast
  have rlog: "filter is_reject (sg_rlog g) = []" using inv by (simp add: log_inv_def)
  note quietly = log_inv_quiet [OF inv serves']
  from step show ?thesis
  proof cases
    case (message_arrives name message ok p logs)
    have free: "sg_rlog g = []" using message_arrives(2) by (simp add: reactor_free_def)
    show ?thesis
    proof (cases ok)
      case True
      then have "logs = []" "tasks p = tasks (sg_pool g) @ [(name, message)]"
        using message_arrives(3,4) by (auto simp: message_callback_def trySubmit_def split: if_splits)
      then show ?thesis using inv serves' True free by (auto simp: log_inv_def message_arrives(1) simp del: mset_filter)
    next
      case False
      then have "logs = [drop_entry (name, message)]" "tasks p = tasks (sg_pool g)"
        using message_arrives(3,4) by (auto simp: message_callback_def trySubmit_def drop_entry_def split: if_splits)
      moreover have "is_drop (drop_entry (name, message))" "\<not> is_reject (drop_entry (name, message))"
        by (simp_all add: drop_entry_def is_drop_def is_reject_def)
      ultimately show ?thesis using inv serves' False free by (auto simp: log_inv_def message_arrives(1) simp del: mset_filter)
    qed
  next
    case (worker_takes i t p)
    have queue: "tasks (sg_pool g) = t # tasks p" using step_started [OF worker_takes(2)] by simp
    from worker_takes(2) have i: "i < length (workers (sg_pool g))" "workers (sg_pool g) ! i = Ready" by (elim turn_runsE; simp)+
    then have size: "i < length (sg_tasks g)" "sg_tasks g ! i = ([], [])" using match by (auto simp: workers_match_def)
    obtain took where took: "sg_accepted g = took @ tasks (sg_pool g)"
      "mset (filter is_reject (sv_log (sg_server g) @ pending_logs (sg_tasks g))) = mset (List.map_filter reject_entry took)"
      using inv by (auto simp: log_inv_def)
    have logs: "filter is_reject (fst (start_task t)) = List.map_filter reject_entry [t]" "filter is_drop (fst (start_task t)) = []"
      using start_task_log [of t] by metis+
    have "mset (filter is_reject (sv_log (sg_server g) @ pending_logs ((sg_tasks g)[i := start_task t]))) =
        mset (List.map_filter reject_entry (took @ [t]))"
      unfolding filter_append map_filter_append mset_append took(2) [unfolded filter_append mset_append, symmetric] logs(1) [symmetric]
      using pending_filter [OF size(1), of is_reject "start_task t"] size(2)
      by (simp add: add.assoc del: mset_filter)
    moreover have "filter is_drop (pending_logs ((sg_tasks g)[i := start_task t])) = []"
      using pending_quiet [OF size(1), of is_drop "start_task t"] size(2) logs(2) inv by (simp add: log_inv_def del: mset_filter)
    moreover have "sg_accepted g = (took @ [t]) @ tasks p" using took(1) queue by simp
    ultimately show ?thesis using inv serves' unfolding log_inv_def worker_takes(1)
      by (intro conjI exI [of _ "took @ [t]"]) (simp_all del: map_filter_append filter_append append_assoc mset_filter mset_append)
  next
    case (worker_logs i e logs steps)
    have pending: "mset (filter P (pending_logs (sg_tasks g))) =
        mset (filter P [e]) + mset (filter P (pending_logs ((sg_tasks g)[i := (logs, steps)])))" for P
      using pending_filter [OF worker_logs(2), of P "(logs, steps)"] worker_logs(3) by (simp add: add.commute split: if_splits)
    have "filter is_drop (pending_logs (sg_tasks g)) = []" using inv by (simp add: log_inv_def)
    with pending [of is_drop] have drop: "filter is_drop [e] = []" "filter is_drop (pending_logs ((sg_tasks g)[i := (logs, steps)])) = []"
      by (simp_all del: mset_filter split: if_splits)
    show ?thesis using inv serves' drop pending [of is_reject] unfolding log_inv_def worker_logs(1)
      by (auto simp: add.assoc log_all_def simp del: mset_filter split: if_splits)
  next
    case (worker_works i st rest go logs s)
    from exec_log [OF worker_works(4)] obtain es where es: "quiet logs" "sv_log s = sv_log (sg_server g) @ es" "quiet es" by blast
    have "mset (filter P (pending_logs ((sg_tasks g)[i := (logs, if go then rest else [])]))) = mset (filter P (pending_logs (sg_tasks g)))"
      if "P \<in> {is_drop, is_reject}" for P
      using pending_quiet [OF worker_works(2)] worker_works(3) quiet_filter [OF es(1)] that by auto
    then show ?thesis using quietly [of es] es rlog by (simp add: worker_works(1) del: mset_filter)
  next
    case (worker_ends i t p)
    have "tasks p = tasks (sg_pool g)" using worker_ends(2) by (auto elim: finishE)
    then show ?thesis using quietly [of "[]"] rlog by (simp add: worker_ends(1))
  next
    case (pool_moves e p)
    have "tasks p = tasks (sg_pool g)" using step_order [OF pool_moves(2)] pool_only_quiet [OF pool_moves(2,3)] by simp
    then show ?thesis using quietly [of "[]"] rlog by (simp add: pool_moves(1))
  next
    case scan_begins
    then show ?thesis using quietly [of "[]"] rlog by simp
  next
    case (scan_looks host hosts logs s)
    then show ?thesis using quietly [of "[]"] quiet_filter scan_log [OF scan_looks(4)] by simp
  next
    case (reactor_logs e logs)
    have "\<not> is_reject e" "filter is_reject logs = []" using rlog reactor_logs(2) by (auto split: if_splits)
    then show ?thesis using inv serves' reactor_logs(2) by (auto simp: log_inv_def reactor_logs(1) simp del: mset_filter)
  next
    case functors_taken
    then show ?thesis using quietly [of "[]"] rlog by simp
  next
    case (functor_runs line lines)
    then show ?thesis using quietly [of "[(Info, line)]"] rlog by (simp add: server_log_def)
  next
    case (time_passes ck)
    then show ?thesis using quietly [of "[]"] rlog by simp
  qed
qed

lemma log_inv_start:
  assumes "server_stores config = Inr s0" and "server_pool spawn config s0 = Inr (p, s)"
  shows "log_inv (serving_start p s)"
proof -
  have "sv_log s0 = []" using assms(1) by (auto simp: server_stores_def result_simps)
  moreover obtain n k where pool: "new_pool spawn n k = Inr p" and "\<exists>msg. s = server_log Info msg s0"
    using assms(2) unfolding server_pool_def by (auto simp: result_simps)
  ultimately obtain msg where "sv_log s = [(Info, msg)]" by (auto simp: server_log_def)
  moreover have "pending_logs (replicate n ([], [])) = []" for n by (induction n) (simp_all add: pending_logs_def)
  ultimately show ?thesis using new_pool_workers [OF pool] quiet_filter [OF quiet_level [of Info msg]] serves_start [OF assms(2)]
    by (auto simp: log_inv_def serving_start_def intro!: exI [of _ "[]"])
qed

interpretation server_logs: invariant_system
  "\<lambda>g. \<exists>spawn config s0 p s. server_stores config = Inr s0 \<and> server_pool spawn config s0 = Inr (p, s) \<and> g = serving_start p s"
  serving_step log_inv
  using log_inv_start log_inv_step by unfold_locales blast+

lemma log_inv_idle:
  assumes "log_inv g" and "tasks (sg_pool g) = [] \<and> running (sg_pool g) = [] \<or> stop_join (sg_pool g) \<noteq> None"
  shows "mset (filter is_reject (sv_log (sg_server g))) = mset (List.map_filter reject_entry (sg_accepted g))"
proof -
  obtain a where a: "serves g a" using assms(1) by (auto simp: log_inv_def)
  then have idle: "tasks (sg_pool g) = []" "running (sg_pool g) = []"
    using assms(2) join_idle [of "sg_pool g"] by (auto simp: serves_def)
  have "\<forall>w \<in> set (sg_tasks g). w = ([], [])" using match_idle [of "sg_pool g" "sg_tasks g"] a idle(2) by (auto simp: serves_def)
  then have "pending_logs (sg_tasks g) = []" by (auto simp: pending_logs_def)
  then show ?thesis using assms(1) idle(1) by (auto simp: log_inv_def simp del: mset_filter)
qed

text \<open>
  C18: no message is lost in silence.  At any moment the warnings of a full queue that are in the
  log, or that the reactor is about to write, are those of the messages the pool refused, in
  their order.  Once the pool is idle, or stopped and joined, the warnings of invalid metrics
  in the log are, in some order, those of the accepted messages the deserializer rejects,
  one for each and with its reason; at any moment there are no others than these.
\<close>

theorem losses_are_logged:
  assumes "server_stores config = Inr s0" and "server_pool spawn config s0 = Inr (p, s)"
    and "serving_step\<^sup>*\<^sup>* (serving_start p s) g"
    and "rejects = concat (map (\<lambda>(name, message). case deserialize message of
         Inl e \<Rightarrow> [(Warning, ''Invalid metrics from '' @ name @ '': '' @ what e)] | Inr m \<Rightarrow> []) (sg_accepted g))"
  shows "filter is_drop (sv_log (sg_server g) @ sg_rlog g) =
       map (\<lambda>(name, _). (Warning, ''Worker queue full, drop metrics from '' @ name)) (sg_dropped g) \<and>
     mset (filter is_reject (sv_log (sg_server g))) \<subseteq># mset rejects \<and>
     (tasks (sg_pool g) = [] \<and> running (sg_pool g) = [] \<or> stop_join (sg_pool g) \<noteq> None \<longrightarrow>
       mset (filter is_reject (sv_log (sg_server g))) = mset rejects)"
proof -
  have inv: "log_inv g" using server_logs.reached [of "serving_start p s" g] assms(1-3) by blast
  have "List.map_filter reject_entry ts = concat (map (\<lambda>(name, message). case deserialize message of
      Inl e \<Rightarrow> [(Warning, ''Invalid metrics from '' @ name @ '': '' @ what e)] | Inr m \<Rightarrow> []) ts)" for ts
    by (induction ts) (auto simp: map_filter_simps reject_entry_def split: sum.split)
  then have rejects: "rejects = List.map_filter reject_entry (sg_accepted g)" by (simp add: assms(4))
  obtain took where took: "sg_accepted g = took @ tasks (sg_pool g)"
    "mset (filter is_reject (sv_log (sg_server g) @ pending_logs (sg_tasks g))) = mset (List.map_filter reject_entry took)"
    using inv by (auto simp: log_inv_def)
  have "mset (filter is_reject (sv_log (sg_server g))) \<subseteq># mset (List.map_filter reject_entry took)"
    unfolding took(2) [symmetric] filter_append mset_append by (rule mset_subset_eq_add_left)
  also have "\<dots> \<subseteq># mset rejects"
    unfolding rejects took(1) map_filter_append mset_append by (rule mset_subset_eq_add_left)
  finally have "mset (filter is_reject (sv_log (sg_server g))) \<subseteq># mset rejects" .
  moreover have "map drop_entry (sg_dropped g) = map (\<lambda>(name, _). (Warning, ''Worker queue full, drop metrics from '' @ name)) (sg_dropped g)"
    by (simp add: drop_entry_def split_beta)
  then have "filter is_drop (sv_log (sg_server g) @ sg_rlog g) =
      map (\<lambda>(name, _). (Warning, ''Worker queue full, drop metrics from '' @ name)) (sg_dropped g)"
    using inv by (simp only: log_inv_def)
  ultimately show ?thesis using log_inv_idle [OF inv, folded rejects] by blast
qed

text \<open>A message without any line is accepted and rejected with a warning.\<close>

theorem losses_are_logged_witness:
  "\<exists>s0 p s g. server_stores [] = Inr s0 \<and> server_pool (\<lambda>_. None) [] s0 = Inr (p, s) \<and>
     serving_step\<^sup>*\<^sup>* (serving_start p s) g \<and> sg_accepted g = [(''a'', [])] \<and>
     (\<exists>e. deserialize [] = Inl e \<and> filter is_reject (sv_log (sg_server g)) = [(Warning, ''Invalid metrics from a: '' @ what e)])"
proof -
  obtain s0 where s0: "server_stores [] = Inr s0" using demo_stores by blast
  obtain p :: "(string \<times> string) pool" and s where p: "server_pool (\<lambda>_. None) [] s0 = Inr (p, s)" using demo_pool by blast
  obtain g where g: "serving_step\<^sup>*\<^sup>* (serving_start p s) g" "tasks (sg_pool g) = []" "running (sg_pool g) = []" "sg_accepted g = [(''a'', [])]"
    using serves_one [OF p, of "''a''" "[]"] by blast
  have bad: "isl (deserialize [])" by code_simp
  obtain e where e: "deserialize [] = Inl e" by (cases "deserialize []") (use bad in auto)
  show ?thesis using losses_are_logged [OF s0 p g(1) refl] s0 p g e by (auto simp del: mset_filter)
qed

end
