(* ===== verification/Input_Stream.thy ===== *)
theory Input_Stream
  imports Num_Text
begin

text \<open>
  Formatted extraction, \<open>in >> x\<close>, from an \<open>std::istream\<close>, as the collectors use it on the
  files of \<open>/proc\<close>: words, characters, unsigned and signed integers and doubles.  A stream is
  its unread characters and whether it is still good; an extraction from a failed stream, or
  one that finds nothing after the white space, leaves the variable as it was, and a number
  that is not there makes it 0.
\<close>

record istream =
  is_rest :: string
  is_good :: bool

definition open_stream :: "string \<Rightarrow> istream" where
  "open_stream s = \<lparr> is_rest = s, is_good = True \<rparr>"

text \<open>
  The frame of every extraction: \<open>read\<close> gets the characters after the white space, of which
  there is at least one, and returns the value, whether it succeeded, and the rest.
\<close>

definition extraction :: "(string \<Rightarrow> 'a \<times> bool \<times> string) \<Rightarrow> 'a \<Rightarrow> istream \<Rightarrow> 'a \<times> istream" where
  "extraction read old st =
     (if \<not> is_good st then (old, st)
      else let s = dropWhile is_space (is_rest st)
           in if s = [] then (old, \<lparr> is_rest = [], is_good = False \<rparr>)
              else let (v, ok, r) = read s in (v, \<lparr> is_rest = r, is_good = ok \<rparr>))"

definition read_word :: "string \<Rightarrow> istream \<Rightarrow> string \<times> istream" where
  "read_word = extraction (\<lambda>s. (takeWhile (\<lambda>c. \<not> is_space c) s, True, dropWhile (\<lambda>c. \<not> is_space c) s))"

definition read_char :: "char \<Rightarrow> istream \<Rightarrow> char \<times> istream" where
  "read_char = extraction (\<lambda>s. (hd s, True, tl s))"

text \<open>
  Decimal integers: a sign and digits.  A value out of range fails with the nearest bound; the
  negation of an unsigned number is taken modulo \<open>2 ^ 64\<close>.
\<close>

definition read_u64 :: "u64 \<Rightarrow> istream \<Rightarrow> u64 \<times> istream" where
  "read_u64 = extraction (\<lambda>s.
     let (neg, r) = take_sign s; ds = takeWhile is_digit r; n = digits_val ds
     in if ds = [] then (0, False, r)
        else if n \<ge> 2 ^ 64 then (-1, False, dropWhile is_digit r)
        else (if neg then - word_of_nat n else word_of_nat n, True, dropWhile is_digit r))"

definition read_signed :: "nat \<Rightarrow> int \<Rightarrow> istream \<Rightarrow> int \<times> istream" where
  "read_signed w = extraction (\<lambda>s.
     let (neg, r) = take_sign s; ds = takeWhile is_digit r;
         i = (if neg then - int (digits_val ds) else int (digits_val ds))
     in if ds = [] then (0, False, r)
        else if i < - (2 ^ (w - 1)) then (- (2 ^ (w - 1)), False, dropWhile is_digit r)
        else if i \<ge> 2 ^ (w - 1) then (2 ^ (w - 1) - 1, False, dropWhile is_digit r)
        else (i, True, dropWhile is_digit r))"

text \<open>An \<open>unsigned int\<close> in base 16, with an optional \<open>0x\<close>.\<close>

definition read_hex_u32 :: "u32 \<Rightarrow> istream \<Rightarrow> u32 \<times> istream" where
  "read_hex_u32 = extraction (\<lambda>s.
     let (neg, r) = take_sign s;
         r = (if starts_with ''0x'' r \<or> starts_with ''0X'' r then drop 2 r else r);
         ds = takeWhile is_hex_digit r; n = foldl (\<lambda>a c. 16 * a + hex_val c) 0 ds
     in if ds = [] then (0, False, r)
        else if n \<ge> 2 ^ 32 then (-1, False, dropWhile is_hex_digit r)
        else (if neg then - word_of_nat n else word_of_nat n, True, dropWhile is_hex_digit r))"

text \<open>
  A double: the longest decimal text with at most one point and one exponent is taken, and
  fails as a whole when its mantissa or its exponent has no digits, or when it is out of range.
\<close>

definition take_exponent :: "string \<Rightarrow> string \<times> string" where
  "take_exponent s = (case s of
     c # r \<Rightarrow>
       (if c = CHR ''e'' \<or> c = CHR ''E''
        then let sg = (case r of x # _ \<Rightarrow> if x = CHR ''+'' \<or> x = CHR ''-'' then [x] else [] | [] \<Rightarrow> []);
                 r' = drop (length sg) r
             in (c # sg @ takeWhile is_digit r', dropWhile is_digit r')
        else ([], s))
   | [] \<Rightarrow> ([], []))"

definition double_result :: "bool \<Rightarrow> string \<Rightarrow> string \<Rightarrow> string \<Rightarrow> string \<Rightarrow> double \<times> bool \<times> string" where
  "double_result neg ip fp ex rest =
     (case scan_exponent CHR ''e'' ex of
        (e, left) \<Rightarrow>
          let d = round_double neg (of_nat (digits_val (ip @ fp)) / 10 ^ length fp * 10 powi e)
          in if left \<noteq> [] then (d_zero, False, rest)
             else if d_isfinite d then (d, True, rest)
             else (DFin neg (rnd_mag (dbl_limit - pow2 970)), False, rest))"

definition read_double :: "double \<Rightarrow> istream \<Rightarrow> double \<times> istream" where
  "read_double = extraction (\<lambda>s.
     let (neg, r) = take_sign s; (ip, fp, r') = scan_mantissa is_digit r
     in if ip = [] \<and> fp = [] then (d_zero, False, r')
        else case take_exponent r' of (ex, rest) \<Rightarrow> double_result neg ip fp ex rest)"

section \<open>Reading what was written\<close>

lemma extraction_good:
  "is_good st \<Longrightarrow> dropWhile is_space (is_rest st) = s \<Longrightarrow> s \<noteq> [] \<Longrightarrow>
   extraction read old st = (let (v, ok, r) = read s in (v, \<lparr> is_rest = r, is_good = ok \<rparr>))"
  by (auto simp: extraction_def Let_def)

lemma drop_spaces:
  "list_all is_space sp \<Longrightarrow> w \<noteq> [] \<Longrightarrow> \<not> is_space (hd w) \<Longrightarrow> dropWhile is_space (sp @ w @ s) = w @ s"
  by (cases w) (auto simp: list_all_iff dropWhile_append)

lemma read_word_word:
  assumes "list_all is_space sp" and "w \<noteq> []" and "\<forall>c \<in> set w. \<not> is_space c" and "rest = [] \<or> is_space (hd rest)"
  shows "read_word old (open_stream (sp @ w @ rest)) = (w, open_stream rest)"
proof -
  have "dropWhile is_space (sp @ w @ rest) = w @ rest" using assms by (intro drop_spaces) auto
  then show ?thesis
    using assms takeWhile_digits [of w "\<lambda>c. \<not> is_space c" rest]
    by (simp add: read_word_def extraction_good [where s = "w @ rest"] open_stream_def)
qed

lemma read_u64_dec:
  assumes "list_all is_space sp" and "rest = [] \<or> is_space (hd rest)"
  shows "read_u64 old (open_stream (sp @ dec (unat n) @ rest)) = (n, open_stream rest)"
proof -
  have digits: "\<forall>c \<in> set (dec (unat n)). is_digit c" by (auto dest: dec_digits)
  have "\<not> is_space (hd (dec (unat n)))"
    using is_digit_not_special digits by (metis dec_neq_Nil hd_in_set)
  then have "dropWhile is_space (sp @ dec (unat n) @ rest) = dec (unat n) @ rest"
    using assms by (intro drop_spaces) auto
  moreover have "rest = [] \<or> \<not> is_digit (hd rest)" using assms(2) is_digit_not_special by blast
  moreover have "unat n < 2 ^ LENGTH(64)" by (rule unsigned_less)
  ultimately show ?thesis
    using takeWhile_digits [of "dec (unat n)" is_digit rest] digits
    by (simp add: read_u64_def extraction_good [where s = "dec (unat n) @ rest"] open_stream_def take_sign_digits
        Let_def)
qed

lemma read_signed_number:
  assumes "dropWhile is_space s = t" and "t \<noteq> []" and "take_sign t = (neg, ds @ r)"
    and "takeWhile is_digit (ds @ r) = ds" and "dropWhile is_digit (ds @ r) = r" and "ds \<noteq> []"
    and "(if neg then - int (digits_val ds) else int (digits_val ds)) = i"
    and "- (2 ^ (w - 1)) \<le> i" and "i < 2 ^ (w - 1)"
  shows "read_signed w old (open_stream s) = (i, open_stream r)"
  using assms(1-6,8,9) unfolding assms(7) [symmetric]
  by (cases neg) (simp_all add: read_signed_def extraction_good [where s = t] open_stream_def Let_def not_less)

lemma read_signed_dec:
  assumes "list_all is_space sp" and "rest = [] \<or> is_space (hd rest)"
    and "- (2 ^ (w - 1)) \<le> i" and "i < 2 ^ (w - 1)"
  shows "read_signed w old (open_stream (sp @ dec_int i @ rest)) = (i, open_stream rest)"
proof -
  have digits: "\<forall>c \<in> set (dec n). is_digit c" for n by (auto dest: dec_digits)
  then have hd_dec: "is_digit (hd (dec n))" for n by (metis dec_neq_Nil hd_in_set)
  have "dec_int i \<noteq> [] \<and> \<not> is_space (hd (dec_int i))"
    using hd_dec is_digit_not_special by (auto simp: dec_int_def is_space_def)
  then have "dropWhile is_space (sp @ dec_int i @ rest) = dec_int i @ rest"
    using assms(1) by (intro drop_spaces) auto
  moreover have stop: "rest = [] \<or> \<not> is_digit (hd rest)" using assms(2) is_digit_not_special by blast
  moreover obtain m where "dec_int i = (if i < 0 then ''-'' @ dec m else dec m)" and m: "(if i < 0 then - int m else int m) = i"
    by (cases "i < 0") (auto simp: dec_int_def intro: that [of "nat (- i)"] that [of "nat i"])
  moreover from this have "take_sign (dec_int i @ rest) = (i < 0, dec m @ rest)"
    using take_sign_digits [of "dec m" rest] digits by (simp add: take_sign_def)
  moreover have "takeWhile is_digit (dec m @ rest) = dec m" "dropWhile is_digit (dec m @ rest) = rest"
    using takeWhile_digits [of "dec m" is_digit rest] digits stop by blast+
  ultimately show ?thesis
    using assms(3,4) \<open>dec_int i \<noteq> [] \<and> \<not> is_space (hd (dec_int i))\<close>
    by (intro read_signed_number [where ds = "dec m" and t = "dec_int i @ rest" and neg = "i < 0"]) (simp_all split: if_splits)
qed

end
