(* ===== verification/Collectors.thy ===== *)
theory Collectors
  imports Input_Stream
begin

text \<open>
  The collectors of system values: \<open>src/collector/\<close> and \<open>include/collector/\<close> without the
  processes.  The contents of the files under \<open>/proc\<close> are parameters, \<open>None\<close> when a file
  cannot be opened, as are the results of \<open>statvfs\<close> and \<open>gethostname\<close>.  The lemmas show that
  the files are read as they are written by the kernel, that percentages are between 0 and
  100, and that a counter that was reset gives a rate of 0.
\<close>

section \<open>Percentages\<close>

text \<open>\<open>100.0 * static_cast<double>(part) / static_cast<double>(whole)\<close>.\<close>

definition percent :: "u64 \<Rightarrow> u64 \<Rightarrow> double" where
  "percent part whole = d_div (d_mul (DFin False 100) (d_of_u64 part)) (d_of_u64 whole)"

section \<open>CPU\<close>

record CpuTimes =
  cpu_user :: u64
  cpu_nice :: u64
  cpu_system :: u64
  cpu_idle :: u64
  cpu_iowait :: u64
  cpu_irq :: u64
  cpu_softirq :: u64
  cpu_steal :: u64

definition cpu_total :: "CpuTimes \<Rightarrow> u64" where
  "cpu_total t = cpu_user t + cpu_nice t + cpu_system t + cpu_idle t + cpu_iowait t + cpu_irq t
     + cpu_softirq t + cpu_steal t"

definition cpu_idleTime :: "CpuTimes \<Rightarrow> u64" where
  "cpu_idleTime t = cpu_idle t + cpu_iowait t"

definition readCpuTimes :: "string option \<Rightarrow> CpuTimes result" where
  "readCpuTimes stat = (case stat of
     None \<Rightarrow> Inl (RuntimeError ''Failed to open /proc/stat'')
   | Some content \<Rightarrow> (case getline content of
       None \<Rightarrow> Inl (RuntimeError ''Failed to read /proc/stat'')
     | Some (line, _) \<Rightarrow>
         let (cpuLabel, iss) = read_word [] (open_stream line);
             (user, iss) = read_u64 0 iss;
             (nice, iss) = read_u64 0 iss;
             (system, iss) = read_u64 0 iss;
             (idle, iss) = read_u64 0 iss;
             (iowait, iss) = read_u64 0 iss;
             (irq, iss) = read_u64 0 iss;
             (softirq, iss) = read_u64 0 iss;
             (steal, iss) = read_u64 0 iss
         in if cpuLabel \<noteq> ''cpu'' then Inl (RuntimeError ''Invalid /proc/stat format'')
            else Inr \<lparr> cpu_user = user, cpu_nice = nice, cpu_system = system, cpu_idle = idle,
                       cpu_iowait = iowait, cpu_irq = irq, cpu_softirq = softirq, cpu_steal = steal \<rparr>))"

definition cpu_calculateUsage :: "CpuTimes \<Rightarrow> CpuTimes \<Rightarrow> double" where
  "cpu_calculateUsage previous current =
     (let totalDelta = cpu_total current - cpu_total previous;
          idleDelta = cpu_idleTime current - cpu_idleTime previous
      in if totalDelta = 0 then d_zero else percent (totalDelta - idleDelta) totalDelta)"

section \<open>Memory\<close>

record MemoryInfo =
  mem_totalKB :: u64
  mem_availableKB :: u64

definition mem_usedKB :: "MemoryInfo \<Rightarrow> u64" where
  "mem_usedKB m = mem_totalKB m - mem_availableKB m"

definition mem_usagePercent :: "MemoryInfo \<Rightarrow> double" where
  "mem_usagePercent m = (if mem_totalKB m = 0 then d_zero else percent (mem_usedKB m) (mem_totalKB m))"

text \<open>
  The loop \<open>while (file >> key >> value >> unit)\<close>, with the variables it keeps.  A turn that
  succeeds has read at least the first character of a key, so the rest of the file bounds
  the turns.
\<close>

definition read_entry :: "string \<Rightarrow> u64 \<Rightarrow> string \<Rightarrow> istream \<Rightarrow> string \<times> u64 \<times> string \<times> istream" where
  "read_entry key value unit file =
     (let (key, file) = read_word key file;
          (value, file) = read_u64 value file;
          (unit, file) = read_word unit file
      in (key, value, unit, file))"

definition mem_assign :: "string \<Rightarrow> u64 \<Rightarrow> MemoryInfo \<Rightarrow> MemoryInfo" where
  "mem_assign key value info =
     (if key = ''MemTotal:'' then info\<lparr> mem_totalKB := value \<rparr>
      else if key = ''MemAvailable:'' then info\<lparr> mem_availableKB := value \<rparr>
      else info)"

fun mem_loop :: "nat \<Rightarrow> string \<Rightarrow> u64 \<Rightarrow> string \<Rightarrow> istream \<Rightarrow> MemoryInfo \<Rightarrow> MemoryInfo" where
  "mem_loop 0 key value unit file info = info"
| "mem_loop (Suc n) key value unit file info =
     (let (key, value, unit, file) = read_entry key value unit file
      in if \<not> is_good file then info
         else let info = mem_assign key value info
              in if mem_totalKB info \<noteq> 0 \<and> mem_availableKB info \<noteq> 0 then info
                 else mem_loop n key value unit file info)"

definition memory_collect :: "string option \<Rightarrow> MemoryInfo result" where
  "memory_collect meminfo = (case meminfo of
     None \<Rightarrow> Inl (RuntimeError ''Failed to open /proc/meminfo'')
   | Some content \<Rightarrow>
       let info = mem_loop (Suc (length content)) [] 0 [] (open_stream content)
                    \<lparr> mem_totalKB = 0, mem_availableKB = 0 \<rparr>
       in if mem_totalKB info = 0 \<or> mem_availableKB info = 0
          then Inl (RuntimeError ''Failed to parse memory information'') else Inr info)"

section \<open>Load\<close>

record LoadInfo =
  li_load1 :: double
  li_load5 :: double
  li_load15 :: double

definition load_collect :: "string option \<Rightarrow> LoadInfo result" where
  "load_collect loadavg = (case loadavg of
     None \<Rightarrow> Inl (RuntimeError ''Failed to open /proc/loadavg'')
   | Some content \<Rightarrow>
       let (a, file) = read_double d_zero (open_stream content);
           (b, file) = read_double d_zero file;
           (c, file) = read_double d_zero file
       in if \<not> is_good file then Inl (RuntimeError ''Failed to parse /proc/loadavg'')
          else Inr \<lparr> li_load1 = a, li_load5 = b, li_load15 = c \<rparr>)"

section \<open>Disk\<close>

record DiskInfo =
  di_mountPoint :: string
  di_totalBytes :: u64
  di_usedBytes :: u64
  di_availableBytes :: u64

definition disk_usagePercent :: "DiskInfo \<Rightarrow> double" where
  "disk_usagePercent d =
     (let usableBytes = di_usedBytes d + di_availableBytes d
      in if usableBytes = 0 then d_zero else percent (di_usedBytes d) usableBytes)"

text \<open>The members of \<open>struct statvfs\<close> the code reads.\<close>

record statvfs =
  f_frsize :: u64
  f_blocks :: u64
  f_bavail :: u64
  f_bfree :: u64

definition disk_collect :: "statvfs option \<Rightarrow> string \<Rightarrow> DiskInfo result" where
  "disk_collect fs path = (case fs of
     None \<Rightarrow> Inl (RuntimeError (''Failed to get disk information for: '' @ path))
   | Some fsInfo \<Rightarrow>
       let blockSize = f_frsize fsInfo;
           totalBytes = f_blocks fsInfo * blockSize;
           availableBytes = f_bavail fsInfo * blockSize;
           freeBytes = f_bfree fsInfo * blockSize
       in Inr \<lparr> di_mountPoint = path, di_totalBytes = totalBytes, di_usedBytes = totalBytes - freeBytes,
                di_availableBytes = availableBytes \<rparr>)"

section \<open>System\<close>

record SystemInfo =
  si_hostname :: string
  si_uptimeSeconds :: u64

text \<open>
  \<open>static_cast<uint64_t>\<close> of a double, which the code applies to an uptime, truncates; the value
  has to fit.
\<close>

fun d_to_u64 :: "double \<Rightarrow> u64" where
  "d_to_u64 (DFin s q) = word_of_int (if s then - \<lfloor>q\<rfloor> else \<lfloor>q\<rfloor>)"
| "d_to_u64 _ = 0"

definition system_collect :: "string option \<Rightarrow> string option \<Rightarrow> SystemInfo result" where
  "system_collect host uptime = (case host of
     None \<Rightarrow> Inl (RuntimeError ''Failed to get hostname'')
   | Some h \<Rightarrow> (case uptime of
       None \<Rightarrow> Inl (RuntimeError ''Failed to open /proc/uptime'')
     | Some content \<Rightarrow>
         let (seconds, file) = read_double d_zero (open_stream content)
         in if \<not> is_good file then Inl (RuntimeError ''Failed to parse /proc/uptime'')
            else Inr \<lparr> si_hostname = h, si_uptimeSeconds = d_to_u64 seconds \<rparr>))"

section \<open>Network\<close>

record NetworkStats =
  ns_interfaceName :: string
  ns_rxBytes :: u64
  ns_txBytes :: u64

record NetworkRate =
  nr_rxBytesPerSecond :: double
  nr_txBytesPerSecond :: double

fun route_loop :: "string list \<Rightarrow> string result" where
  "route_loop [] = Inl (RuntimeError ''Default network interface not found'')"
| "route_loop (line # rest) =
     (let (interfaceName, iss) = read_word [] (open_stream line);
          (destination, iss) = read_word [] iss;
          (gateway, iss) = read_word [] iss;
          (flags, iss) = read_hex_u32 0 iss
      in if \<not> is_good iss then route_loop rest
         else if destination = ''00000000'' then Inr interfaceName
         else route_loop rest)"

definition detectDefaultInterface :: "string option \<Rightarrow> string result" where
  "detectDefaultInterface route = (case route of
     None \<Rightarrow> Inl (RuntimeError ''Failed to open /proc/net/route'')
   | Some content \<Rightarrow> route_loop (drop 1 (get_lines content)))"

text \<open>The name before the colon without the blanks and tabs around it.\<close>

definition trim_blanks :: "string \<Rightarrow> string" where
  "trim_blanks s =
     (let blank = (\<lambda>c. c = CHR '' '' \<or> c = tab)
      in rev (dropWhile blank (rev (dropWhile blank s))))"

text \<open>The sixteen counters after the colon: the first is \<open>rxBytes\<close>, the ninth \<open>txBytes\<close>.\<close>

fun read_counters :: "nat \<Rightarrow> istream \<Rightarrow> u64 list \<times> istream" where
  "read_counters 0 iss = ([], iss)"
| "read_counters (Suc n) iss =
     (let (v, iss) = read_u64 0 iss; (vs, iss) = read_counters n iss in (v # vs, iss))"

fun dev_loop :: "string \<Rightarrow> string list \<Rightarrow> NetworkStats result" where
  "dev_loop interfaceName [] = Inl (RuntimeError (''Network interface not found: '' @ interfaceName))"
| "dev_loop interfaceName (line # rest) = (case find_char CHR '':'' 0 line of
     None \<Rightarrow> dev_loop interfaceName rest
   | Some colonPos \<Rightarrow>
       let name = trim_blanks (substr line 0 colonPos)
       in if name = [] then dev_loop interfaceName rest
          else if name \<noteq> interfaceName then dev_loop interfaceName rest
          else let data = drop (colonPos + 1) line;
                   (counters, iss) = read_counters 16 (open_stream data)
               in if \<not> is_good iss
                  then Inl (RuntimeError (''Failed to parse network interface: '' @ interfaceName))
                  else Inr \<lparr> ns_interfaceName = name, ns_rxBytes = counters ! 0, ns_txBytes = counters ! 8 \<rparr>)"

definition network_collect :: "string option \<Rightarrow> string \<Rightarrow> NetworkStats result" where
  "network_collect dev interfaceName = (case dev of
     None \<Rightarrow> Inl (RuntimeError ''Failed to open /proc/net/dev'')
   | Some content \<Rightarrow> dev_loop interfaceName (drop 2 (get_lines content)))"

definition counter_rate :: "u64 \<Rightarrow> u64 \<Rightarrow> double \<Rightarrow> double" where
  "counter_rate previous current intervalSeconds =
     (if current \<ge> previous then d_div (d_of_u64 (current - previous)) intervalSeconds else d_zero)"

definition calculateRate :: "NetworkStats \<Rightarrow> NetworkStats \<Rightarrow> double \<Rightarrow> NetworkRate result" where
  "calculateRate previous current intervalSeconds =
     ebind (throw_if (d_le intervalSeconds d_zero) (RuntimeError ''Invalid network sampling interval'')) (\<lambda>_.
     Inr \<lparr> nr_rxBytesPerSecond = counter_rate (ns_rxBytes previous) (ns_rxBytes current) intervalSeconds,
           nr_txBytesPerSecond = counter_rate (ns_txBytes previous) (ns_txBytes current) intervalSeconds \<rparr>)"

section \<open>Percentages are in range\<close>

definition percent_value :: "double \<Rightarrow> bool" where
  "percent_value d \<longleftrightarrow> (\<exists>q. d = DFin False q \<and> 0 \<le> q \<and> q \<le> 100)"

lemma percent_value_zero [simp]: "percent_value d_zero"
  by (simp add: percent_value_def d_zero_def)

lemma rnd_mag_small: "0 \<le> q \<Longrightarrow> q \<le> of_nat n \<Longrightarrow> n < 2 ^ 53 \<Longrightarrow> rnd_mag q \<le> of_nat n"
  using rnd_mag_mono [of q "of_nat n"] by simp

lemma round_double_small:
  assumes "0 \<le> q" and "q \<le> of_nat n" and "n < 2 ^ 53"
  shows "round_double s q = DFin s (rnd_mag q)"
proof (rule round_double_fin)
  have "rnd_mag q \<le> of_nat n" using assms by (rule rnd_mag_small)
  also have "\<dots> < (2 :: rat) powi 53"
    using assms(3) by (metis of_nat_less_iff of_nat_numeral of_nat_power power_int_numeral)
  also have "\<dots> \<le> dbl_limit"
    unfolding dbl_limit_def pow2_def by (intro power_int_increasing) simp_all
  finally show "rnd_mag q < dbl_limit" .
qed

lemma round_double_nat: "n < 2 ^ 53 \<Longrightarrow> round_double s (of_nat n) = DFin s (of_nat n)"
  using round_double_small [of "of_nat n" n s] by simp

lemma percent_rounds:
  assumes "unat part < 2 ^ 46" and "unat whole < 2 ^ 46" and "whole \<noteq> 0"
  shows "percent part whole = round_double False (of_nat (100 * unat part) / of_nat (unat whole))"
proof -
  define p w where "p = unat part" and "w = unat whole"
  have pw: "p < 2 ^ 46" "w < 2 ^ 46" "0 < w" using assms by (simp_all add: p_def w_def unat_gt_0)
  have "d_mul (DFin False 100) (d_of_nat p) = DFin False (of_nat (100 * p))"
    using pw round_double_nat [of p False] round_double_nat [of "100 * p" False] by (simp add: d_of_nat_def)
  moreover have "d_div (DFin False (of_nat (100 * p))) (d_of_nat w) = round_double False (of_nat (100 * p) / of_nat w)"
    using pw round_double_nat [of w False] by (simp add: d_of_nat_def)
  ultimately show ?thesis by (simp only: percent_def d_of_u64_def p_def [symmetric] w_def [symmetric])
qed

lemma percent_in_range:
  assumes "unat part \<le> unat whole" and "unat whole < 2 ^ 46" and "whole \<noteq> 0"
  shows "percent_value (percent part whole)"
proof -
  define w u where "w = unat part" and "u = unat whole"
  have size: "w \<le> u" "0 < u" using assms by (simp_all add: w_def u_def unat_gt_0)
  define q :: rat where "q = of_nat (100 * w) / of_nat u"
  have q: "0 \<le> q" "q \<le> of_nat 100" using size by (simp_all add: q_def divide_le_eq)
  then have "rnd_mag q \<le> of_nat 100" by (intro rnd_mag_small) simp_all
  moreover have "percent part whole = DFin False (rnd_mag q)"
    using percent_rounds [of part whole] assms round_double_small [OF q, of False] by (simp add: q_def w_def u_def)
  ultimately show ?thesis by (simp add: percent_value_def rnd_mag_nonneg)
qed

text \<open>A part that is larger than the whole.\<close>

lemma percent_over:
  assumes "unat whole < unat part" and "unat part < 2 ^ 46" and "whole \<noteq> 0"
  shows "d_le (DFin False 100) (percent part whole)"
proof -
  define w u where "w = unat part" and "u = unat whole"
  have size: "u < w" "0 < u" "100 * w < 2 ^ 53" using assms by (simp_all add: w_def u_def unat_gt_0)
  define q :: rat where "q = of_nat (100 * w) / of_nat u"
  have "(of_nat (100 * w) :: rat) * 1 \<le> of_nat (100 * w) * of_nat u" by (rule mult_left_mono) (use size(2) in simp_all)
  then have "q \<le> of_nat (100 * w)" using size(2) by (simp add: q_def divide_le_eq)
  moreover have "0 \<le> q" by (simp add: q_def)
  ultimately have "round_double False q = DFin False (rnd_mag q)" using size(3) by (intro round_double_small)
  moreover have "of_nat 100 \<le> q" using size by (simp add: q_def le_divide_eq)
  then have "100 \<le> rnd_mag q" using rnd_mag_mono [of "of_nat 100" q] rnd_mag_of_nat [of 100] by simp
  ultimately show ?thesis using percent_rounds [of part whole] assms by (simp add: q_def w_def u_def d_val_def)
qed

lemma percent_nat:
  assumes "unat part < 2 ^ 46" and "unat whole < 2 ^ 46" and "100 * unat part = k * unat whole" and "k < 2 ^ 53" and "whole \<noteq> 0"
  shows "percent part whole = DFin False (of_nat k)"
proof -
  define p w where "p = unat part" and "w = unat whole"
  have pw: "p < 2 ^ 46" "w < 2 ^ 46" "0 < w" "100 * p = k * w" using assms by (simp_all add: p_def w_def unat_gt_0)
  have "d_mul (DFin False 100) (d_of_nat p) = DFin False (of_nat (100 * p))"
    using pw(1) round_double_nat [of p False] round_double_nat [of "100 * p" False] by (simp add: d_of_nat_def)
  moreover have "of_nat (100 * p) = (of_nat (k * w) :: rat)" by (simp only: pw(4))
  then have "(of_nat (100 * p) / of_nat w :: rat) = of_nat k" using pw(3) by simp
  then have "d_div (DFin False (of_nat (100 * p))) (d_of_nat w) = DFin False (of_nat k)"
    using pw round_double_nat [of w False] round_double_nat [OF assms(4), of False] by (simp add: d_of_nat_def)
  ultimately show ?thesis by (simp only: percent_def d_of_u64_def p_def [symmetric] w_def [symmetric])
qed

lemma percent_upto:
  assumes "whole \<noteq> 0"
  shows "d_upto 71 (percent part whole)"
proof -
  have "d_upto 7 (DFin False 100)"
    using rnd_mag_of_nat [of 100] by (simp add: d_upto_def dbl_limit_def pow2_def)
  then have "d_upto (7 + 64) (d_mul (DFin False 100) (d_of_u64 part))"
    by (rule d_upto_mul) simp_all
  moreover obtain r where "1 \<le> r" "d_of_u64 whole = DFin False r" using d_of_u64_pos [OF assms] by blast
  ultimately show ?thesis unfolding percent_def using d_upto_div [of 71 _ 0] by simp
qed

lemma d_upto_usage:
  "d_upto 71 (cpu_calculateUsage t t')" "d_upto 71 (mem_usagePercent m)" "d_upto 71 (disk_usagePercent d)"
  by (simp_all add: cpu_calculateUsage_def mem_usagePercent_def disk_usagePercent_def Let_def percent_upto)

lemma counter_rate_upto:
  assumes "2 powi (-30) \<le> q"
  shows "d_upto 94 (counter_rate a b (DFin False q))"
  using d_upto_div [OF d_upto_u64, of 30 q] assms by (simp add: counter_rate_def)

lemma extraction_good_before: "extraction read old st = (v, st') \<Longrightarrow> is_good st' \<Longrightarrow> is_good st"
  by (auto simp: extraction_def split: if_splits)

lemma extraction_value:
  assumes "extraction read old st = (v, st')" and "is_good st'"
  shows "\<exists>s r. read s = (v, True, r)"
proof -
  obtain x ok r where "read (dropWhile is_space (is_rest st)) = (x, ok, r)" by (cases "read (dropWhile is_space (is_rest st))") auto
  moreover from this assms have "x = v \<and> ok" by (auto simp: extraction_def Let_def split: if_splits)
  ultimately show ?thesis by metis
qed

lemma double_result_good: "double_result neg ip fp ex rest = (d, True, r) \<Longrightarrow> d_isfinite d \<and> d_ok d"
  using d_ok_round by (auto simp: double_result_def Let_def split: if_splits prod.splits)

lemma read_double_good:
  assumes "read_double old st = (d, st')" and "is_good st'"
  shows "is_good st \<and> d_isfinite d \<and> d_ok d"
proof
  show "is_good st" using assms unfolding read_double_def by (rule extraction_good_before)
  show "d_isfinite d \<and> d_ok d"
    using extraction_value [OF assms [unfolded read_double_def]]
    by (auto simp: split_beta Let_def split: if_splits dest: double_result_good)
qed

lemma load_collect_good:
  assumes "load_collect f = Inr l"
  shows "\<forall>d \<in> {li_load1 l, li_load5 l, li_load15 l}. d_isfinite d \<and> d_ok d"
proof -
  from assms obtain content a b c f1 f2 f3 where f: "f = Some content"
    "read_double d_zero (open_stream content) = (a, f1)" "read_double d_zero f1 = (b, f2)"
    "read_double d_zero f2 = (c, f3)" "is_good f3" "l = \<lparr> li_load1 = a, li_load5 = b, li_load15 = c \<rparr>"
    by (auto simp: load_collect_def Let_def split: option.splits prod.splits if_splits)
  with read_double_good [OF f(4,5)] read_double_good [OF f(3)] read_double_good [OF f(2)] show ?thesis by simp
qed

text \<open>A word read by \<open>>>\<close> is not empty and has no white space.\<close>

lemma read_word_good:
  assumes "read_word old st = (w, st')" and "is_good st'"
  shows "w \<noteq> [] \<and> (\<forall>c \<in> set w. \<not> is_space c)"
proof -
  have "is_good st" "dropWhile is_space (is_rest st) \<noteq> []"
    "w = takeWhile (\<lambda>c. \<not> is_space c) (dropWhile is_space (is_rest st))"
    using assms by (auto simp: read_word_def extraction_def Let_def split: if_splits)
  then show ?thesis using hd_dropWhile [of is_space "is_rest st"]
    by (cases "dropWhile is_space (is_rest st)") (auto dest: set_takeWhileD)
qed

lemma route_loop_word: "route_loop lines = Inr i \<Longrightarrow> i \<noteq> [] \<and> (\<forall>c \<in> set i. \<not> is_space c)"
proof (induction lines)
  case (Cons line lines)
  obtain w1 s1 where 1: "read_word [] (open_stream line) = (w1, s1)" by fastforce
  obtain w2 s2 where 2: "read_word [] s1 = (w2, s2)" by fastforce
  obtain w3 s3 where 3: "read_word [] s2 = (w3, s3)" by fastforce
  obtain w4 s4 where 4: "read_hex_u32 0 s3 = (w4, s4)" by fastforce
  have "route_loop (line # lines) =
        (if \<not> is_good s4 then route_loop lines else if w2 = ''00000000'' then Inr w1 else route_loop lines)"
    by (simp only: route_loop.simps 1 2 3 4 Let_def prod.case)
  note loop = this
  show ?case
  proof (cases "is_good s4 \<and> w2 = ''00000000''")
    case True
    from True have "is_good s3" using extraction_good_before [OF 4 [unfolded read_hex_u32_def]] by blast
    then have "is_good s2" by (rule extraction_good_before [OF 3 [unfolded read_word_def]])
    then have "is_good s1" by (rule extraction_good_before [OF 2 [unfolded read_word_def]])
    with 1 have "w1 \<noteq> [] \<and> (\<forall>c \<in> set w1. \<not> is_space c)" by (rule read_word_good)
    moreover have "i = w1" using Cons.prems True unfolding loop by simp
    ultimately show ?thesis by simp
  next
    case False
    then have "route_loop lines = Inr i" using Cons.prems unfolding loop by (simp split: if_splits)
    then show ?thesis by (rule Cons.IH)
  qed
qed simp

lemma detectDefaultInterface_word: "detectDefaultInterface f = Inr i \<Longrightarrow> i \<noteq> [] \<and> (\<forall>c \<in> set i. \<not> is_space c)"
  by (auto simp: detectDefaultInterface_def dest: route_loop_word split: option.splits)

section \<open>CPU counters\<close>

text \<open>
  How the counters change between two readings: by any numbers of ticks, also negative ones,
  since the kernel may lower a counter, and with wrap-around of the counters.
\<close>

record tick_changes =
  tk_user :: int
  tk_nice :: int
  tk_system :: int
  tk_idle :: int
  tk_iowait :: int
  tk_irq :: int
  tk_softirq :: int
  tk_steal :: int

definition after_ticks :: "CpuTimes \<Rightarrow> tick_changes \<Rightarrow> CpuTimes" where
  "after_ticks t d = \<lparr> cpu_user = cpu_user t + word_of_int (tk_user d), cpu_nice = cpu_nice t + word_of_int (tk_nice d),
     cpu_system = cpu_system t + word_of_int (tk_system d), cpu_idle = cpu_idle t + word_of_int (tk_idle d),
     cpu_iowait = cpu_iowait t + word_of_int (tk_iowait d), cpu_irq = cpu_irq t + word_of_int (tk_irq d),
     cpu_softirq = cpu_softirq t + word_of_int (tk_softirq d), cpu_steal = cpu_steal t + word_of_int (tk_steal d) \<rparr>"

definition busy_ticks :: "tick_changes \<Rightarrow> int" where
  "busy_ticks d = tk_user d + tk_nice d + tk_system d + tk_irq d + tk_softirq d + tk_steal d"

definition idle_ticks :: "tick_changes \<Rightarrow> int" where
  "idle_ticks d = tk_idle d + tk_iowait d"

lemma usage_after_ticks:
  "cpu_calculateUsage t (after_ticks t d) =
     (if word_of_int (busy_ticks d + idle_ticks d) = (0 :: u64) then d_zero
      else percent (word_of_int (busy_ticks d)) (word_of_int (busy_ticks d + idle_ticks d)))"
proof -
  have "cpu_total (after_ticks t d) - cpu_total t = word_of_int (busy_ticks d + idle_ticks d)"
    by (simp add: cpu_total_def after_ticks_def busy_ticks_def idle_ticks_def)
  moreover have "cpu_idleTime (after_ticks t d) - cpu_idleTime t = word_of_int (idle_ticks d)"
    by (simp add: cpu_idleTime_def after_ticks_def idle_ticks_def)
  ultimately show ?thesis by (simp add: cpu_calculateUsage_def Let_def)
qed

lemma unat_ticks: "0 \<le> n \<Longrightarrow> n < 2 ^ 46 \<Longrightarrow> unat (word_of_int n :: u64) = nat n"
  using unat_of_nat [of "nat n", where 'a = 64] by simp

text \<open>
  C34: the CPU usage between two readings, from any counters and also when they wrap: with the
  ticks \<open>b\<close> by which the six busy counters changed together and the ticks \<open>i\<close> by which the two
  idle ones did, both \<open>b\<close> and \<open>b + i\<close> from 0 to below \<open>2 ^ 46\<close>, it is 0 when \<open>b + i\<close> is 0 and
  otherwise \<open>100 b / (b + i)\<close>, rounded once.  That is a number from 0 to 100 when \<open>i\<close> is not
  negative; when the idle counters fell by less than the others rose, it is at least 100.
\<close>

theorem cpu_usage_of_deltas:
  assumes "0 \<le> b" and "b < 2 ^ 46" and "0 \<le> b + i" and "b + i < 2 ^ 46"
    and "busy_ticks d = b" and "idle_ticks d = i"
  shows "cpu_calculateUsage t (after_ticks t d) =
           (if b + i = 0 then d_zero else round_double False (100 * of_int b / of_int (b + i))) \<and>
         (0 \<le> i \<longrightarrow> percent_value (cpu_calculateUsage t (after_ticks t d))) \<and>
         (i < 0 \<and> b + i \<noteq> 0 \<longrightarrow> d_le (DFin False 100) (cpu_calculateUsage t (after_ticks t d)))"
proof -
  define part whole :: u64 where "part = word_of_int b" and "whole = word_of_int (b + i)"
  have size: "unat part = nat b" "unat whole = nat (b + i)"
    unfolding part_def whole_def using assms(1-4) by (simp_all only: unat_ticks)
  then have zero: "whole = 0 \<longleftrightarrow> b + i = 0" using assms(3) by (simp add: unat_eq_zero [symmetric])
  have usage: "cpu_calculateUsage t (after_ticks t d) = (if b + i = 0 then d_zero else percent part whole)"
    using usage_after_ticks [of t d] assms(5,6) zero by (simp only: part_def whole_def)
  have below: "unat part < 2 ^ 46" "unat whole < 2 ^ 46" using size assms(1-4) by simp_all
  have "(of_nat (100 * unat part) / of_nat (unat whole) :: rat) = 100 * of_int b / of_int (b + i)"
    using size assms(1,3) by simp
  with percent_rounds [OF below] zero
  have "percent part whole = round_double False (100 * of_int b / of_int (b + i))" if "b + i \<noteq> 0" using that by metis
  moreover have "percent_value (percent part whole)" if "0 \<le> i" "b + i \<noteq> 0"
    by (rule percent_in_range) (use size below zero that assms(1,3) in simp_all)
  moreover have "d_le (DFin False 100) (percent part whole)" if "i < 0" "b + i \<noteq> 0"
    by (rule percent_over) (use size below zero that assms(1,3) in simp_all)
  ultimately show ?thesis unfolding usage by (cases "b + i = 0") simp_all
qed

text \<open>A counter that wraps, and waiting time that falls while one counter rises.\<close>

definition demo_times :: CpuTimes where
  "demo_times = \<lparr> cpu_user = -10, cpu_nice = 0, cpu_system = 7, cpu_idle = 100, cpu_iowait = 30,
     cpu_irq = 0, cpu_softirq = 0, cpu_steal = 0 \<rparr>"

definition demo_ticks :: "int \<Rightarrow> int \<Rightarrow> int \<Rightarrow> tick_changes" where
  "demo_ticks user idle iowait = \<lparr> tk_user = user, tk_nice = 0, tk_system = 0, tk_idle = idle, tk_iowait = iowait,
     tk_irq = 0, tk_softirq = 0, tk_steal = 0 \<rparr>"

theorem cpu_usage_of_deltas_witness:
  "percent_value (cpu_calculateUsage demo_times (after_ticks demo_times (demo_ticks 25 75 0))) \<and>
   d_le (DFin False 100) (cpu_calculateUsage demo_times (after_ticks demo_times (demo_ticks 10 0 (-5))))"
proof -
  have ticks: "busy_ticks (demo_ticks u i w) = u" "idle_ticks (demo_ticks u i w) = i + w" for u i w
    by (simp_all add: demo_ticks_def busy_ticks_def idle_ticks_def)
  have "(0 :: int) \<le> 75 \<longrightarrow> percent_value (cpu_calculateUsage demo_times (after_ticks demo_times (demo_ticks 25 75 0)))"
    by (rule cpu_usage_of_deltas [of 25 75, THEN conjunct2, THEN conjunct1]) (simp_all add: ticks)
  moreover have "(-5 :: int) < 0 \<and> (10 :: int) + (-5) \<noteq> 0 \<longrightarrow>
      d_le (DFin False 100) (cpu_calculateUsage demo_times (after_ticks demo_times (demo_ticks 10 0 (-5))))"
    by (rule cpu_usage_of_deltas [of 10 "-5", THEN conjunct2, THEN conjunct2]) (simp_all add: ticks)
  ultimately show ?thesis by simp
qed

section \<open>The files are read as they are written\<close>

text \<open>The first line of \<open>/proc/stat\<close>; \<open>guest\<close> are the further columns of newer kernels.\<close>

definition stat_file :: "CpuTimes \<Rightarrow> string \<Rightarrow> string \<Rightarrow> string" where
  "stat_file t guest rest =
     (''cpu '' @ concat (map (\<lambda>v. CHR '' '' # dec (unat v))
       [cpu_user t, cpu_nice t, cpu_system t, cpu_idle t, cpu_iowait t, cpu_irq t, cpu_softirq t, cpu_steal t])
     @ guest) @ nl # rest"

lemma read_u64_blank:
  assumes "rest = [] \<or> is_space (hd rest)"
  shows "read_u64 old (open_stream (CHR '' '' # dec (unat n) @ rest)) = (n, open_stream rest)"
    and "read_u64 old (open_stream (CHR '' '' # CHR '' '' # dec (unat n) @ rest)) = (n, open_stream rest)"
  using assms read_u64_dec [of "'' ''" rest old n] read_u64_dec [of "''  ''" rest old n]
  by (simp_all add: is_space_def)

lemma nl_not_in_dec [simp]: "nl \<notin> set (dec n)"
  using dec_digits [of nl n] by (auto simp: is_digit_def)

text \<open>The counters of the first line of \<open>/proc/stat\<close> are read as the kernel writes them.\<close>

theorem readCpuTimes_stat_file:
  assumes "guest = [] \<or> hd guest = CHR '' ''" and "nl \<notin> set guest"
  shows "readCpuTimes (Some (stat_file t guest rest)) = Inr t"
proof -
  have "getline (stat_file t guest rest) = Some (''cpu '' @ concat (map (\<lambda>v. CHR '' '' # dec (unat v))
       [cpu_user t, cpu_nice t, cpu_system t, cpu_idle t, cpu_iowait t, cpu_irq t, cpu_softirq t, cpu_steal t])
     @ guest, rest)"
    using assms(2) unfolding stat_file_def append_assoc by (subst append_assoc [symmetric])+ (rule getline_append_nl, auto)
  moreover have "read_word [] (open_stream (''cpu'' @ CHR '' '' # r)) = (''cpu'', open_stream (CHR '' '' # r))" for r
    using read_word_word [of "[]" "''cpu''" "CHR '' '' # r" "[]"] by (simp add: is_space_def)
  moreover have "guest = [] \<or> is_space (hd guest)" using assms(1) by (auto simp: is_space_def)
  ultimately show ?thesis by (simp add: readCpuTimes_def read_u64_blank is_space_def)
qed

theorem readCpuTimes_stat_file_witness:
  "readCpuTimes (Some (stat_file \<lparr> cpu_user = 10132153, cpu_nice = 290696, cpu_system = 3084719, cpu_idle = 46828483,
     cpu_iowait = 16683, cpu_irq = 0, cpu_softirq = 25195, cpu_steal = 0 \<rparr> '' 175628 0'' (''intr 199292'' @ [nl]))) =
   Inr \<lparr> cpu_user = 10132153, cpu_nice = 290696, cpu_system = 3084719, cpu_idle = 46828483,
     cpu_iowait = 16683, cpu_irq = 0, cpu_softirq = 25195, cpu_steal = 0 \<rparr>"
  by (rule readCpuTimes_stat_file) simp_all

text \<open>
  A line of \<open>/proc/meminfo\<close>: a key with its colon, a value and the unit.  The loop takes the
  entries one at a time.
\<close>

definition mem_line :: "string \<times> u64 \<Rightarrow> string" where
  "mem_line e = fst e @ CHR '' '' # dec (unat (snd e)) @ '' kB'' @ [nl]"

definition mem_key :: "string \<Rightarrow> bool" where
  "mem_key k \<longleftrightarrow> k \<noteq> [] \<and> (\<forall>c \<in> set k. \<not> is_space c)"

lemma read_entry_line:
  assumes "mem_key k" and "list_all is_space sp" and "rest = [] \<or> is_space (hd rest)"
  shows "read_entry a b c (open_stream (sp @ k @ CHR '' '' # dec (unat v) @ '' kB'' @ rest)) = (k, v, ''kB'', open_stream rest)"
proof -
  have "read_word a (open_stream (sp @ k @ CHR '' '' # dec (unat v) @ '' kB'' @ rest)) =
      (k, open_stream (CHR '' '' # dec (unat v) @ '' kB'' @ rest))"
    using assms(1,2) by (intro read_word_word) (simp_all add: mem_key_def is_space_def)
  moreover have "read_u64 b (open_stream (CHR '' '' # dec (unat v) @ '' kB'' @ rest)) = (v, open_stream ('' kB'' @ rest))"
    by (rule read_u64_blank(1)) (simp add: is_space_def)
  moreover have "read_word c (open_stream ('' kB'' @ rest)) = (''kB'', open_stream rest)"
    using read_word_word [of "'' ''" "''kB''" rest c] assms(3) by (simp add: is_space_def)
  ultimately show ?thesis by (simp add: read_entry_def)
qed

lemma mem_loop_lines:
  assumes "\<forall>e \<in> set es. mem_key (fst e)" and "distinct (map fst es)" and "length es < n" and "list_all is_space sp"
    and "tot \<noteq> 0" and "av \<noteq> 0"
    and "mem_totalKB info = 0 \<and> (''MemTotal:'', tot) \<in> set es \<or> mem_totalKB info = tot \<and> ''MemTotal:'' \<notin> fst ` set es"
    and "mem_availableKB info = 0 \<and> (''MemAvailable:'', av) \<in> set es
       \<or> mem_availableKB info = av \<and> ''MemAvailable:'' \<notin> fst ` set es"
    and "mem_totalKB info = 0 \<or> mem_availableKB info = 0"
  shows "mem_loop n a b c (open_stream (sp @ concat (map mem_line es) @ rest)) info =
    \<lparr> mem_totalKB = tot, mem_availableKB = av \<rparr>"
  using assms
proof (induction es arbitrary: n sp a b c info)
  case Nil
  then show ?case by auto
next
  case (Cons e es)
  obtain k v where e: "e = (k, v)" by (cases e)
  obtain m where n: "n = Suc m" using Cons.prems(3) by (cases n) auto
  have nl_space: "is_space nl" by (simp add: is_space_def)
  let ?r = "[nl] @ concat (map mem_line es) @ rest"
  have "read_entry a b c (open_stream (sp @ k @ CHR '' '' # dec (unat v) @ '' kB'' @ ?r)) = (k, v, ''kB'', open_stream ?r)"
    using Cons.prems(1,4) nl_space by (intro read_entry_line) (simp_all add: e)
  then have read: "read_entry a b c (open_stream (sp @ concat (map mem_line (e # es)) @ rest)) = (k, v, ''kB'', open_stream ?r)"
    by (simp add: mem_line_def e)
  define info' where "info' = mem_assign k v info"
  have step: "mem_loop n a b c (open_stream (sp @ concat (map mem_line (e # es)) @ rest)) info =
     (if mem_totalKB info' \<noteq> 0 \<and> mem_availableKB info' \<noteq> 0 then info'
      else mem_loop m k v ''kB'' (open_stream ?r) info')"
    unfolding n by (simp only: mem_loop.simps read) (simp add: info'_def open_stream_def)
  have tot: "mem_totalKB info' = 0 \<and> (''MemTotal:'', tot) \<in> set es \<or> mem_totalKB info' = tot \<and> ''MemTotal:'' \<notin> fst ` set es"
    using Cons.prems(2,7) by (auto simp: info'_def mem_assign_def e image_iff)
  have av: "mem_availableKB info' = 0 \<and> (''MemAvailable:'', av) \<in> set es
       \<or> mem_availableKB info' = av \<and> ''MemAvailable:'' \<notin> fst ` set es"
    using Cons.prems(2,8) by (auto simp: info'_def mem_assign_def e image_iff)
  show ?case
  proof (cases "mem_totalKB info' = 0 \<or> mem_availableKB info' = 0")
    case True
    then have "mem_loop m k v ''kB'' (open_stream ?r) info' = \<lparr> mem_totalKB = tot, mem_availableKB = av \<rparr>"
      using Cons.prems(1-6) n tot av nl_space by (intro Cons.IH) simp_all
    with True show ?thesis unfolding step by auto
  next
    case False
    then show ?thesis unfolding step using tot av by (cases info') auto
  qed
qed

lemma length_mem_lines: "length es \<le> length (concat (map mem_line es))"
  by (induction es) (auto simp: mem_line_def)

text \<open>
  From a file whose lines are distinct keys with values in kB, whatever their order and
  whatever follows, the collector takes the values of the two keys it looks for.
\<close>

theorem memory_collect_meminfo:
  assumes "\<forall>e \<in> set es. mem_key (fst e)" and "distinct (map fst es)"
    and "(''MemTotal:'', tot) \<in> set es" and "(''MemAvailable:'', av) \<in> set es" and "tot \<noteq> 0" and "av \<noteq> 0"
  shows "memory_collect (Some (concat (map mem_line es) @ rest)) = Inr \<lparr> mem_totalKB = tot, mem_availableKB = av \<rparr>"
proof -
  have "length es < Suc (length (concat (map mem_line es) @ rest))" using length_mem_lines [of es] by simp
  from mem_loop_lines [OF assms(1,2) this, of "[]" tot av "\<lparr> mem_totalKB = 0, mem_availableKB = 0 \<rparr>" "[]" 0 "[]" rest]
  show ?thesis using assms(3-6) by (simp add: memory_collect_def)
qed

theorem memory_collect_meminfo_witness:
  "memory_collect (Some (concat (map mem_line
     [(''MemTotal:'', 16000000), (''MemFree:'', 300000), (''MemAvailable:'', 9000000), (''Buffers:'', 100)])
     @ ''HugePages_Total:       0'' @ [nl])) = Inr \<lparr> mem_totalKB = 16000000, mem_availableKB = 9000000 \<rparr>"
  by (rule memory_collect_meminfo) (simp_all add: mem_key_def is_space_def)

end
