(* ===== verification/Process_Collector.thy ===== *)
theory Process_Collector
  imports Collectors Hash_Map "HOL-Library.Multiset"
begin

text \<open>
  The processes: \<open>src/collector/ProcessCollector.cpp\<close>.  The directory \<open>/proc\<close> and the three
  files of a process are parameters.  \<open>std::sort\<close> leaves the order of equal elements open, so
  it is a parameter with its contract, \<open>sorts\<close>.  The lemmas show that the times of a process
  are found whatever its name is, and which processes are reported, with which values and in
  which order.
\<close>

section \<open>Data\<close>

record ProcessSnapshot =
  ps_pid :: int
  ps_name :: string
  ps_userTime :: u64
  ps_systemTime :: u64
  ps_startTime :: u64
  ps_residentMemoryKB :: u64

definition totalCpuTime :: "ProcessSnapshot \<Rightarrow> u64" where
  "totalCpuTime p = ps_userTime p + ps_systemTime p"

record ProcessInfo =
  pi_pid :: int
  pi_name :: string
  pi_cpuUsage :: double
  pi_memoryUsage :: double
  pi_residentMemoryKB :: u64

text \<open>A directory entry, and the contents of the files of a process.\<close>

record proc_entry =
  pe_filename :: string
  pe_is_directory :: bool

record proc_files =
  pf_comm :: "string option"
  pf_stat :: "string option"
  pf_status :: "string option"

section \<open>Reading a process\<close>

definition isPidDirectory :: "proc_entry \<Rightarrow> bool" where
  "isPidDirectory entry \<longleftrightarrow>
     pe_is_directory entry \<and> pe_filename entry \<noteq> [] \<and> list_all is_digit (pe_filename entry)"

definition readProcessName :: "string option \<Rightarrow> string option" where
  "readProcessName comm = (case comm of
     None \<Rightarrow> None
   | Some content \<Rightarrow> (case getline content of
       None \<Rightarrow> None
     | Some (processName, _) \<Rightarrow> if processName \<noteq> [] then Some processName else None))"

text \<open>\<open>line.rfind(c)\<close>: the last position.\<close>

definition rfind_char :: "char \<Rightarrow> string \<Rightarrow> nat option" where
  "rfind_char c s =
     (if c \<in> set s then Some (length s - Suc (length (takeWhile (\<lambda>x. x \<noteq> c) (rev s)))) else None)"

text \<open>
  The columns after the name: the user, the system and the start time, if all twenty could
  be read.
\<close>

definition read_times :: "istream \<Rightarrow> (u64 \<times> u64 \<times> u64) option" where
  "read_times iss =
     (let (state, iss) = read_char CHR 0x00 iss;
          (ppid, iss) = read_signed 32 0 iss;
          (pgrp, iss) = read_signed 32 0 iss;
          (session, iss) = read_signed 32 0 iss;
          (ttyNr, iss) = read_signed 32 0 iss;
          (tpgid, iss) = read_signed 32 0 iss;
          (flags, iss) = read_u64 0 iss;
          (minflt, iss) = read_u64 0 iss;
          (cminflt, iss) = read_u64 0 iss;
          (majflt, iss) = read_u64 0 iss;
          (cmajflt, iss) = read_u64 0 iss;
          (userTime, iss) = read_u64 0 iss;
          (systemTime, iss) = read_u64 0 iss;
          (childUserTime, iss) = read_signed 64 0 iss;
          (childSystemTime, iss) = read_signed 64 0 iss;
          (priority, iss) = read_signed 64 0 iss;
          (niceValue, iss) = read_signed 64 0 iss;
          (numThreads, iss) = read_signed 64 0 iss;
          (itrealValue, iss) = read_signed 64 0 iss;
          (startTime, iss) = read_u64 0 iss
      in if is_good iss then Some (userTime, systemTime, startTime) else None)"

definition readProcessCpuTimes :: "string option \<Rightarrow> (u64 \<times> u64 \<times> u64) option" where
  "readProcessCpuTimes stat = (case stat of
     None \<Rightarrow> None
   | Some content \<Rightarrow> (case getline content of
       None \<Rightarrow> None
     | Some (line, _) \<Rightarrow> (case rfind_char CHR '')'' line of
         None \<Rightarrow> None
       | Some rightParen \<Rightarrow>
           if rightParen + 2 \<ge> length line then None
           else read_times (open_stream (drop (rightParen + 2) line)))))"

fun memory_lines :: "string list \<Rightarrow> u64 option" where
  "memory_lines [] = None"
| "memory_lines (line # rest) =
     (if starts_with ''VmRSS:'' line
      then let (key, iss) = read_word [] (open_stream line);
               (value, iss) = read_u64 0 iss;
               (unit, iss) = read_word [] iss
           in if is_good iss then Some value else None
      else memory_lines rest)"

definition readProcessMemory :: "string option \<Rightarrow> u64 option" where
  "readProcessMemory status = (case status of None \<Rightarrow> None | Some content \<Rightarrow> memory_lines (get_lines content))"

definition snapshot_of :: "(int \<Rightarrow> proc_files) \<Rightarrow> proc_entry \<Rightarrow> ProcessSnapshot option" where
  "snapshot_of files entry =
     (if \<not> isPidDirectory entry then None
      else case stoi (pe_filename entry) of
        Inl _ \<Rightarrow> None
      | Inr pid \<Rightarrow> (case readProcessName (pf_comm (files pid)) of
          None \<Rightarrow> None
        | Some name \<Rightarrow> (case readProcessCpuTimes (pf_stat (files pid)) of
            None \<Rightarrow> None
          | Some (userTime, systemTime, startTime) \<Rightarrow> (case readProcessMemory (pf_status (files pid)) of
              None \<Rightarrow> None
            | Some residentMemoryKB \<Rightarrow>
                Some \<lparr> ps_pid = pid, ps_name = name, ps_userTime = userTime, ps_systemTime = systemTime,
                       ps_startTime = startTime, ps_residentMemoryKB = residentMemoryKB \<rparr>))))"

definition collectSnapshots :: "proc_entry list \<Rightarrow> (int \<Rightarrow> proc_files) \<Rightarrow> ProcessSnapshot list" where
  "collectSnapshots entries files = List.map_filter (snapshot_of files) entries"

section \<open>Usage between two snapshots\<close>

definition process_info :: "u64 \<Rightarrow> u64 \<Rightarrow> u64 \<Rightarrow> ProcessSnapshot \<Rightarrow> ProcessSnapshot \<Rightarrow> ProcessInfo" where
  "process_info totalCpuDelta totalMemoryKB cpuCount previousProcess currentProcess =
     \<lparr> pi_pid = ps_pid currentProcess, pi_name = ps_name currentProcess,
       pi_cpuUsage = d_mul (percent (totalCpuTime currentProcess - totalCpuTime previousProcess) totalCpuDelta)
         (d_of_u64 cpuCount),
       pi_memoryUsage = percent (ps_residentMemoryKB currentProcess) totalMemoryKB,
       pi_residentMemoryKB = ps_residentMemoryKB currentProcess \<rparr>"

definition previous_by_pid :: "ProcessSnapshot list \<Rightarrow> (int, ProcessSnapshot) umap" where
  "previous_by_pid previous = fold (\<lambda>p. um_assign (ps_pid p) p) previous []"

definition usage_of :: "u64 \<Rightarrow> u64 \<Rightarrow> u64 \<Rightarrow> (int, ProcessSnapshot) umap \<Rightarrow> ProcessSnapshot \<Rightarrow> ProcessInfo option" where
  "usage_of totalCpuDelta totalMemoryKB cpuCount previousByPid currentProcess =
     (case um_find previousByPid (ps_pid currentProcess) of
        None \<Rightarrow> None
      | Some previousProcess \<Rightarrow>
          if ps_startTime currentProcess \<noteq> ps_startTime previousProcess then None
          else if totalCpuTime currentProcess < totalCpuTime previousProcess then None
          else Some (process_info totalCpuDelta totalMemoryKB cpuCount previousProcess currentProcess))"

definition by_cpu :: "ProcessInfo \<Rightarrow> ProcessInfo \<Rightarrow> bool" where
  "by_cpu a b \<longleftrightarrow> d_less (pi_cpuUsage b) (pi_cpuUsage a)"

type_synonym 'a sorter = "('a \<Rightarrow> 'a \<Rightarrow> bool) \<Rightarrow> 'a list \<Rightarrow> 'a list"

definition process_calculateUsage :: "ProcessInfo sorter \<Rightarrow> ProcessSnapshot list \<Rightarrow> ProcessSnapshot list \<Rightarrow>
    u64 \<Rightarrow> u64 \<Rightarrow> u64 \<Rightarrow> ProcessInfo list" where
  "process_calculateUsage std_sort previous current totalCpuDelta totalMemoryKB cpuCount =
     (if totalCpuDelta = 0 \<or> totalMemoryKB = 0 \<or> cpuCount = 0 then []
      else std_sort by_cpu
        (List.map_filter (usage_of totalCpuDelta totalMemoryKB cpuCount (previous_by_pid previous)) current))"


section \<open>The times of a process\<close>

definition int_columns :: "int list \<Rightarrow> string" where
  "int_columns is = concat (map (\<lambda>i. CHR '' '' # dec_int i) is)"

definition u64_columns :: "u64 list \<Rightarrow> string" where
  "u64_columns vs = concat (map (\<lambda>v. CHR '' '' # dec (unat v)) vs)"

lemma columns_simps [simp]:
  "int_columns [] = []" "int_columns (i # is) = CHR '' '' # dec_int i @ int_columns is"
  "u64_columns [] = []" "u64_columns (v # vs) = CHR '' '' # dec (unat v) @ u64_columns vs"
  by (simp_all add: int_columns_def u64_columns_def)

lemma read_signed_blank:
  assumes "rest = [] \<or> is_space (hd rest)" and "- (2 ^ (w - 1)) \<le> i" and "i < 2 ^ (w - 1)"
  shows "read_signed w old (open_stream (CHR '' '' # dec_int i @ rest)) = (i, open_stream rest)"
  using assms read_signed_dec [of "'' ''" rest w i old] by (simp add: is_space_def)

text \<open>
  The line of \<open>/proc/<pid>/stat\<close> from the state on: five ids, the flags, four fault counts and
  the two times, the times of the children and four more numbers, the start time.
\<close>

definition stat_columns :: "char \<Rightarrow> int list \<Rightarrow> u64 list \<Rightarrow> u64 \<Rightarrow> u64 \<Rightarrow> int list \<Rightarrow> u64 \<Rightarrow> string \<Rightarrow> string" where
  "stat_columns state ids flags utime stime numbers start rest =
     state # int_columns ids @ u64_columns (flags @ [utime, stime]) @ int_columns numbers @ u64_columns [start] @ rest"

lemma read_times_columns:
  assumes "length ids = 5" and "list_all int32_range ids" and "length flags = 5"
    and "length numbers = 6" and "list_all int64_range numbers"
    and "\<not> is_space state" and "rest = [] \<or> is_space (hd rest)"
  shows "read_times (open_stream (stat_columns state ids flags utime stime numbers start rest)) = Some (utime, stime, start)"
proof -
  obtain i1 i2 i3 i4 i5 where ids: "ids = [i1, i2, i3, i4, i5]"
    using assms(1) by (auto simp: length_Suc_conv eval_nat_numeral)
  obtain f1 f2 f3 f4 f5 where flags: "flags = [f1, f2, f3, f4, f5]"
    using assms(3) by (auto simp: length_Suc_conv eval_nat_numeral)
  obtain n1 n2 n3 n4 n5 n6 where numbers: "numbers = [n1, n2, n3, n4, n5, n6]"
    using assms(4) by (auto simp: length_Suc_conv eval_nat_numeral)
  have char: "read_char old (open_stream (state # r)) = (state, open_stream r)" for old r
    using assms(6) by (simp add: read_char_def extraction_def open_stream_def)
  have sp: "is_space CHR '' ''" by (simp add: is_space_def)
  show ?thesis
    using assms(2,5,7)
    by (simp add: stat_columns_def ids flags numbers read_times_def char sp read_signed_blank read_u64_blank(1)
        int32_range_def int64_range_def) (simp add: open_stream_def)
qed

lemma rfind_char_last: "c \<notin> set t \<Longrightarrow> rfind_char c (a @ c # t) = Some (length a)"
  by (simp add: rfind_char_def takeWhile_append)

lemma drop_exact: "length u = n \<Longrightarrow> drop n (u @ t) = t"
  by simp

lemma columns_chars: "c \<in> set (int_columns is) \<union> set (u64_columns vs) \<Longrightarrow> is_digit c \<or> c = CHR ''-'' \<or> c = CHR '' ''"
  by (auto simp: int_columns_def u64_columns_def dec_int_def dest: dec_digits split: if_splits)

lemma columns_free:
  assumes "\<not> is_digit c" and "c \<noteq> CHR ''-''" and "c \<noteq> CHR '' ''"
  shows "c \<notin> set (int_columns is)" and "c \<notin> set (u64_columns vs)"
  using assms columns_chars by blast+

lemma stat_columns_free:
  assumes "\<not> is_digit c" and "c \<noteq> CHR ''-''" and "c \<noteq> CHR '' ''" and "c \<noteq> state" and "c \<notin> set rest"
  shows "c \<notin> set (stat_columns state ids flags utime stime numbers start rest)"
  using assms columns_free [of c] by (simp add: stat_columns_def del: columns_simps)

text \<open>
  C40: the times of a process are found whatever its name is, with spaces and parentheses in
  it, because the columns are counted from the last closing parenthesis of the line.
\<close>

theorem readProcessCpuTimes_line:
  assumes "nl \<notin> set comm"
    and "length ids = 5" and "list_all int32_range ids" and "length flags = 5"
    and "length numbers = 6" and "list_all int64_range numbers"
    and "state \<in> {CHR ''R'', CHR ''S'', CHR ''D'', CHR ''Z'', CHR ''T'', CHR ''I''}"
    and "rest = [] \<or> hd rest = CHR '' ''" and "nl \<notin> set rest" and "CHR '')'' \<notin> set rest"
  shows "readProcessCpuTimes (Some (dec pid @ '' ('' @ comm @ '') '' @
      stat_columns state ids flags utime stime numbers start rest @ nl # below)) = Some (utime, stime, start)"
proof -
  let ?cols = "stat_columns state ids flags utime stime numbers start rest"
  have state: "\<not> is_space state" "state \<noteq> nl" "state \<noteq> CHR '')''"
    using assms(7) by (auto simp: is_space_def)
  have free: "nl \<notin> set ?cols" "CHR '')'' \<notin> set ?cols"
    using assms(9,10) state by (intro stat_columns_free; simp add: is_digit_def; fail)+
  define line where "line = (dec pid @ '' ('' @ comm) @ CHR '')'' # CHR '' '' # ?cols"
  have "getline (line @ nl # below) = Some (line, below)"
    using assms(1) free(1) by (intro getline_append_nl) (auto simp: line_def)
  moreover have "rfind_char CHR '')'' line = Some (length (dec pid @ '' ('' @ comm))"
    unfolding line_def using free(2) by (intro rfind_char_last) simp
  moreover have "length (dec pid @ '' ('' @ comm) + 2 < length line"
    by (simp add: line_def stat_columns_def)
  moreover have "drop (length (dec pid @ '' ('' @ comm) + 2) ((dec pid @ '' ('' @ comm @ '') '') @ ?cols) = ?cols"
    by (rule drop_exact) simp
  then have "drop (length (dec pid @ '' ('' @ comm) + 2) line = ?cols" by (simp only: line_def append.simps append_assoc)
  moreover have "read_times (open_stream ?cols) = Some (utime, stime, start)"
    using assms(2-6,8) state(1) by (intro read_times_columns) (auto simp: is_space_def)
  ultimately have "readProcessCpuTimes (Some (line @ nl # below)) = Some (utime, stime, start)"
    by (simp only: readProcessCpuTimes_def option.case prod.case not_le [symmetric] if_False)
  then show ?thesis by (simp add: line_def)
qed

theorem readProcessCpuTimes_line_witness:
  "readProcessCpuTimes (Some (dec 4711 @ '' ('' @ ''a) R (b'' @ '') '' @
      stat_columns CHR ''S'' [1, 4711, 4711, 0, -1] [4194560, 100, 0, 3, 0] 250 130 [0, 0, 20, 0, 1, 0] 88100 '' 1024 7''
      @ nl # [])) = Some (250, 130, 88100)"
  by (rule readProcessCpuTimes_line) (simp_all add: int32_range_def int64_range_def)

section \<open>Which processes are reported\<close>

text \<open>
  What \<open>std::sort\<close> promises: for a comparison that is a strict weak order on the elements,
  the same elements, none of which comes before an earlier one.
\<close>

definition strict_weak :: "('a \<Rightarrow> 'a \<Rightarrow> bool) \<Rightarrow> 'a set \<Rightarrow> bool" where
  "strict_weak prior A \<longleftrightarrow> (\<forall>a \<in> A. \<not> prior a a) \<and>
     (\<forall>a \<in> A. \<forall>b \<in> A. \<forall>c \<in> A. prior a b \<longrightarrow> prior b c \<longrightarrow> prior a c) \<and>
     (\<forall>a \<in> A. \<forall>b \<in> A. \<forall>c \<in> A. \<not> prior a b \<longrightarrow> \<not> prior b c \<longrightarrow> \<not> prior a c)"

definition sorts :: "'a sorter \<Rightarrow> bool" where
  "sorts std_sort \<longleftrightarrow> (\<forall>prior xs. strict_weak prior (set xs) \<longrightarrow>
     mset (std_sort prior xs) = mset xs \<and> sorted_wrt (\<lambda>a b. \<not> prior b a) (std_sort prior xs))"

definition usage_ok :: "ProcessInfo \<Rightarrow> bool" where
  "usage_ok i \<longleftrightarrow> d_upto 135 (pi_cpuUsage i) \<and> d_upto 71 (pi_memoryUsage i)"

lemma usage_ok_info: "cpu \<noteq> 0 \<Longrightarrow> mem \<noteq> 0 \<Longrightarrow> usage_ok (process_info cpu mem n p c)"
  using d_upto_mul [of 71 "percent (totalCpuTime c - totalCpuTime p) cpu" 64 "d_of_u64 n"]
  by (simp add: usage_ok_def process_info_def percent_upto)

lemma strict_weak_by_cpu: "\<forall>i \<in> A. usage_ok i \<Longrightarrow> strict_weak by_cpu A"
  unfolding strict_weak_def by_cpu_def usage_ok_def d_upto_def by (auto simp: d_val_def) (metis d_less.simps(1) d_val_def order.strict_trans not_less order_trans)+

lemma not_by_cpu:
  assumes "usage_ok a" and "usage_ok b" and "\<not> by_cpu b a"
  shows "d_le (pi_cpuUsage b) (pi_cpuUsage a)"
proof -
  obtain p q where "pi_cpuUsage a = DFin False p" "pi_cpuUsage b = DFin False q"
    using assms(1,2) by (auto simp: usage_ok_def d_upto_def)
  with assms(3) show ?thesis by (simp add: by_cpu_def d_val_def)
qed

lemma find_previous:
  "um_find (fold (\<lambda>p. um_assign (ps_pid p) p) ps m) k =
   (let same = filter (\<lambda>p. ps_pid p = k) ps in if same = [] then um_find m k else Some (last same))"
  by (induction ps arbitrary: m) (auto simp: um_simps Let_def)

lemma filter_by_pid:
  assumes "distinct (map ps_pid ps)"
  shows "filter (\<lambda>p. ps_pid p = k) ps = (case um_find (previous_by_pid ps) k of None \<Rightarrow> [] | Some p \<Rightarrow> [p])"
proof -
  have "length (filter (\<lambda>p. ps_pid p = k) ps) \<le> 1" using assms
    by (induction ps) (auto simp: filter_empty_conv image_iff)
  then show ?thesis unfolding previous_by_pid_def find_previous
    by (cases "filter (\<lambda>p. ps_pid p = k) ps") (auto simp: Let_def)
qed

text \<open>
  The reference: the pairs of a current and a previous snapshot of one process, which has the
  same id and start time in both and whose CPU time has not decreased.
\<close>

definition same_process :: "ProcessSnapshot \<times> ProcessSnapshot \<Rightarrow> bool" where
  "same_process cp \<longleftrightarrow> (case cp of (c, p) \<Rightarrow>
     ps_pid p = ps_pid c \<and> ps_startTime c = ps_startTime p \<and> \<not> totalCpuTime c < totalCpuTime p)"

lemma usages_are_join:
  assumes "distinct (map ps_pid previous)"
  shows "List.map_filter (usage_of cpu mem n (previous_by_pid previous)) current =
    map (\<lambda>(c, p). process_info cpu mem n p c) (filter same_process (List.product current previous))"
proof (induction current)
  case (Cons c current)
  have "filter same_process (map (Pair c) previous) =
      map (Pair c) (filter (\<lambda>p. ps_startTime c = ps_startTime p \<and> \<not> totalCpuTime c < totalCpuTime p)
        (filter (\<lambda>p. ps_pid p = ps_pid c) previous))"
    by (simp add: filter_map o_def same_process_def conj_commute conj_left_commute)
  then have "map (\<lambda>(c, p). process_info cpu mem n p c) (filter same_process (map (Pair c) previous)) =
      (case usage_of cpu mem n (previous_by_pid previous) c of None \<Rightarrow> [] | Some i \<Rightarrow> [i])"
    by (simp add: filter_by_pid [OF assms] usage_of_def split: option.split)
  then show ?case using Cons.IH by (simp add: List.map_filter_simps split: option.split)
qed simp

text \<open>
  C21: for any \<open>std::sort\<close>, the reported processes are those of the reference, and each comes
  with a CPU usage, finite and not negative, that no later one exceeds.  Nothing is reported
  when the CPU time, the memory or the number of CPUs is 0.
\<close>

theorem process_calculateUsage_join:
  assumes "sorts std_sort" and "distinct (map ps_pid previous)"
  shows "let r = process_calculateUsage std_sort previous current cpu mem n in
     mset r = (if cpu = 0 \<or> mem = 0 \<or> n = 0 then {#} else
       mset (map (\<lambda>(c, p). process_info cpu mem n p c) (filter same_process (List.product current previous)))) \<and>
     sorted_wrt (\<lambda>a b. d_le (pi_cpuUsage b) (pi_cpuUsage a)) r \<and>
     list_all (\<lambda>i. d_isfinite (pi_cpuUsage i) \<and> d_le d_zero (pi_cpuUsage i)) r"
proof (cases "cpu = 0 \<or> mem = 0 \<or> n = 0")
  case True
  then show ?thesis by (simp add: process_calculateUsage_def)
next
  case False
  define xs where "xs = map (\<lambda>(c, p). process_info cpu mem n p c) (filter same_process (List.product current previous))"
  define r where "r = process_calculateUsage std_sort previous current cpu mem n"
  have r: "r = std_sort by_cpu xs"
    using False by (simp add: r_def xs_def process_calculateUsage_def usages_are_join [OF assms(2)])
  have ok: "\<forall>i \<in> set xs. usage_ok i" using False by (auto simp: xs_def usage_ok_info)
  then have sorted: "mset r = mset xs" "sorted_wrt (\<lambda>a b. \<not> by_cpu b a) r"
    using assms(1) strict_weak_by_cpu by (auto simp: r sorts_def)
  then have ok': "\<forall>i \<in> set r. usage_ok i" using ok by (metis set_mset_mset)
  have "sorted_wrt (\<lambda>a b. d_le (pi_cpuUsage b) (pi_cpuUsage a)) r"
    using sorted(2) by (rule sorted_wrt_mono_rel [rotated]) (use ok' not_by_cpu in blast)
  moreover have "list_all (\<lambda>i. d_isfinite (pi_cpuUsage i) \<and> d_le d_zero (pi_cpuUsage i)) r"
    using ok' by (fastforce simp: list_all_iff usage_ok_def d_upto_def d_zero_def d_val_def)
  ultimately show ?thesis using False sorted(1) by (simp add: Let_def r_def xs_def)
qed

text \<open>What holds of every reported process.\<close>

lemma process_usage_elem:
  assumes "sorts std_sort" and "i \<in> set (process_calculateUsage std_sort previous current cpu mem n)"
  shows "usage_ok i \<and> (\<exists>c \<in> set current. pi_pid i = ps_pid c \<and> pi_name i = ps_name c)"
proof -
  define xs where "xs = List.map_filter (usage_of cpu mem n (previous_by_pid previous)) current"
  have pos: "cpu \<noteq> 0" "mem \<noteq> 0" and i: "i \<in> set (std_sort by_cpu xs)"
    using assms(2) by (auto simp: process_calculateUsage_def xs_def split: if_splits)
  have elem: "\<exists>c \<in> set current. \<exists>p. x = process_info cpu mem n p c" if "x \<in> set xs" for x
    using that by (auto simp: xs_def set_map_filter usage_of_def split: option.splits if_splits)
  then have ok: "\<forall>x \<in> set xs. usage_ok x" using pos usage_ok_info by blast
  then have "mset (std_sort by_cpu xs) = mset xs" using assms(1) strict_weak_by_cpu by (simp add: sorts_def)
  with i have "i \<in> set xs" by (metis set_mset_mset)
  with ok elem show ?thesis by (fastforce simp: process_info_def)
qed

lemma stoi_digits:
  assumes "s \<noteq> []" and "list_all is_digit s" and "stoi s = Inr i"
  shows "0 \<le> i \<and> int32_range i"
proof -
  have "scan_int s = Some (False, digits_val s, length s)"
    using assms(1,2) dropWhile_space_digits [of s "[]"] take_sign_digits [of s "[]"]
    by (simp add: scan_int_def list_all_iff Let_def takeWhile_eq_all_conv [THEN iffD2])
  with assms(3) show ?thesis by (auto simp: stoi_def Let_def split: if_splits)
qed

lemma getline_line: "getline s = Some (line, r) \<Longrightarrow> nl \<notin> set line \<and> set line \<subseteq> set s"
  by (auto simp: getline_def Let_def dest: set_takeWhileD split: if_splits)

lemma collectSnapshots_elem:
  assumes "p \<in> set (collectSnapshots entries files)"
  shows "0 \<le> ps_pid p \<and> int32_range (ps_pid p) \<and> ps_name p \<noteq> [] \<and> nl \<notin> set (ps_name p) \<and>
    (\<exists>content. pf_comm (files (ps_pid p)) = Some content \<and> set (ps_name p) \<subseteq> set content)"
proof -
  from assms obtain e where e: "snapshot_of files e = Some p"
    by (auto simp: collectSnapshots_def set_map_filter)
  then obtain pid where pid: "isPidDirectory e" "stoi (pe_filename e) = Inr pid" "ps_pid p = pid"
    "readProcessName (pf_comm (files pid)) = Some (ps_name p)"
    by (auto simp: snapshot_of_def split: if_splits sum.splits option.splits)
  then have "0 \<le> pid \<and> int32_range pid" using stoi_digits by (auto simp: isPidDirectory_def)
  moreover obtain content line r where "pf_comm (files pid) = Some content" "getline content = Some (line, r)"
    "line \<noteq> []" "ps_name p = line"
    using pid(4) by (auto simp: readProcessName_def split: option.splits if_splits)
  ultimately show ?thesis using pid(3) getline_line by auto
qed

text \<open>Insertion sort keeps the promise.\<close>

fun insert_by :: "('a \<Rightarrow> 'a \<Rightarrow> bool) \<Rightarrow> 'a \<Rightarrow> 'a list \<Rightarrow> 'a list" where
  "insert_by prior x [] = [x]"
| "insert_by prior x (y # ys) = (if prior y x then y # insert_by prior x ys else x # y # ys)"

definition insertion_sort :: "'a sorter" where
  "insertion_sort prior xs = foldr (insert_by prior) xs []"

lemma mset_insert_by [simp]: "mset (insert_by prior x ys) = add_mset x (mset ys)"
  by (induction ys) auto

lemma mset_insertion_sort [simp]: "mset (insertion_sort prior xs) = mset xs"
  by (induction xs) (simp_all add: insertion_sort_def)

lemma set_insert_by [simp]: "set (insert_by prior x ys) = insert x (set ys)"
  by (induction ys) auto

lemma set_insertion_sort [simp]: "set (insertion_sort prior xs) = set xs"
  by (metis mset_insertion_sort set_mset_mset)

lemma strict_weak_asym: "strict_weak prior A \<Longrightarrow> a \<in> A \<Longrightarrow> b \<in> A \<Longrightarrow> prior a b \<Longrightarrow> \<not> prior b a"
  unfolding strict_weak_def by blast

lemma strict_weak_negtrans:
  "strict_weak prior A \<Longrightarrow> a \<in> A \<Longrightarrow> b \<in> A \<Longrightarrow> c \<in> A \<Longrightarrow> \<not> prior a b \<Longrightarrow> \<not> prior b c \<Longrightarrow> \<not> prior a c"
  unfolding strict_weak_def by blast

lemma strict_weak_subset: "strict_weak prior A \<Longrightarrow> B \<subseteq> A \<Longrightarrow> strict_weak prior B"
  unfolding strict_weak_def by blast

lemma sorted_insert_by:
  assumes "strict_weak prior A" and "insert x (set ys) \<subseteq> A" and "sorted_wrt (\<lambda>a b. \<not> prior b a) ys"
  shows "sorted_wrt (\<lambda>a b. \<not> prior b a) (insert_by prior x ys)"
  using assms(2,3)
proof (induction ys)
  case (Cons y ys)
  show ?case
  proof (cases "prior y x")
    case True
    then show ?thesis using Cons strict_weak_asym [OF assms(1), of y x] by simp
  next
    case False
    then have "\<not> prior z x" if "z \<in> set ys" for z
      using Cons.prems that strict_weak_negtrans [OF assms(1), of z y x] by auto
    with False Cons.prems show ?thesis by simp
  qed
qed simp

lemma sorts_insertion_sort: "sorts insertion_sort"
proof -
  have "set ys \<subseteq> set xs \<Longrightarrow> sorted_wrt (\<lambda>a b. \<not> prior b a) (insertion_sort prior ys)"
    if "strict_weak prior (set xs)" for prior :: "'a \<Rightarrow> 'a \<Rightarrow> bool" and xs ys
  proof (induction ys)
    case (Cons y ys)
    then have "sorted_wrt (\<lambda>a b. \<not> prior b a) (insert_by prior y (insertion_sort prior ys))"
      by (intro sorted_insert_by [OF that]) simp_all
    then show ?case by (simp add: insertion_sort_def)
  qed (simp add: insertion_sort_def)
  then show ?thesis by (simp add: sorts_def)
qed

text \<open>A process that goes on and one that is new.\<close>

definition demo_before :: ProcessSnapshot where
  "demo_before = \<lparr> ps_pid = 7, ps_name = ''a'', ps_userTime = 10, ps_systemTime = 1, ps_startTime = 5,
     ps_residentMemoryKB = 9 \<rparr>"

definition demo_after :: "ProcessSnapshot list" where
  "demo_after = [demo_before\<lparr> ps_userTime := 30 \<rparr>, demo_before\<lparr> ps_pid := 8 \<rparr>]"

theorem process_calculateUsage_join_witness:
  "mset (process_calculateUsage insertion_sort [demo_before] demo_after 100 1000 4) =
    {# process_info 100 1000 4 demo_before (hd demo_after) #}"
  using process_calculateUsage_join [OF sorts_insertion_sort, of "[demo_before]" demo_after 100 1000 4]
  by (simp add: Let_def demo_after_def demo_before_def same_process_def totalCpuTime_def)

end
