(* ===== verification/Monitor_Agent.thy ===== *)
theory Monitor_Agent
  imports Process_Collector Wire_Format Tcp_Client Frame_Codec
begin

text \<open>
  The agent: \<open>include/agent/MonitorAgent.h\<close> and \<open>src/agent/MonitorAgent.cpp\<close> without the
  terminal display.  One turn of the loop of \<open>run\<close> samples the host, builds the snapshot,
  serializes and frames it, reconnects when that is due and sends.  What the turn gets from
  its environment, the files, the clock, the socket calls and the flag, is a record.  The
  lemmas show which snapshots can be sent, how the reconnect delays grow, and that the
  server finds whole frames on every connection.
\<close>

section \<open>State\<close>

record agent =
  ag_tcpClient :: tcp_client
  ag_networkInterface :: string
  ag_cpuCount :: u64
  ag_intervalSeconds :: double

text \<open>\<open>route\<close> is the file of the routes, \<open>cpuCount\<close> the result of \<open>sysconf\<close>.\<close>

definition new_agent :: "string option \<Rightarrow> int \<Rightarrow> double \<Rightarrow> string \<Rightarrow> u16 \<Rightarrow> agent result" where
  "new_agent route cpuCount intervalSeconds serverIp serverPort =
     ebind (detectDefaultInterface route) (\<lambda>networkInterface.
     ebind (throw_if (cpuCount \<le> 0) (RuntimeError ''Failed to get logical CPU count'')) (\<lambda>_.
     ebind (throw_if (d_le intervalSeconds d_zero) (InvalidArgument ''Sampling interval must be greater than 0'')) (\<lambda>_.
     Inr \<lparr> ag_tcpClient = new_client serverIp serverPort, ag_networkInterface = networkInterface,
           ag_cpuCount = word_of_int cpuCount, ag_intervalSeconds = intervalSeconds \<rparr>)))"

text \<open>
  The members and the local variables of \<open>run\<close>; times are nanoseconds of the steady clock,
  the reconnect delay is in seconds.
\<close>

record agent_run = agent +
  rn_previousCpu :: CpuTimes
  rn_previousNetwork :: NetworkStats
  rn_previousNetworkTime :: int
  rn_previousProcesses :: "ProcessSnapshot list"
  rn_nextSampleTime :: int
  rn_reconnectDelay :: int
  rn_nextReconnectTime :: int

definition agent_log :: "log_level \<Rightarrow> string \<Rightarrow> agent_run \<Rightarrow> agent_run" where
  "agent_log level msg r = r\<lparr> ag_tcpClient := client_log level msg (ag_tcpClient r) \<rparr>"

text \<open>What one turn of the loop finds.\<close>

record sample =
  sa_running :: bool
  sa_runningAfterSleep :: bool
  sa_stat :: "string option"
  sa_dev :: "string option"
  sa_networkTime :: int
  sa_entries :: "proc_entry list"
  sa_files :: "int \<Rightarrow> proc_files"
  sa_meminfo :: "string option"
  sa_loadavg :: "string option"
  sa_hostname :: "string option"
  sa_uptime :: "string option"
  sa_statvfs :: "statvfs option"
  sa_reconnectNow :: int
  sa_socketFd :: int
  sa_conversion :: int
  sa_connectFailure :: "string option"
  sa_sends :: "send_result list"
  sa_failureTime :: int

section \<open>The snapshot\<close>

definition process_metric :: "ProcessInfo \<Rightarrow> ProcessMetric" where
  "process_metric i = \<lparr> pm_pid = pi_pid i, pm_name = pi_name i, pm_cpuUsagePercent = pi_cpuUsage i,
     pm_memoryUsagePercent = pi_memoryUsage i, pm_residentMemoryKB = pi_residentMemoryKB i \<rparr>"

definition buildMetrics :: "'a agent_scheme \<Rightarrow> double \<Rightarrow> double \<Rightarrow> MemoryInfo \<Rightarrow> LoadInfo \<Rightarrow> SystemInfo \<Rightarrow> DiskInfo \<Rightarrow>
    NetworkRate \<Rightarrow> ProcessInfo list \<Rightarrow> SystemMetrics" where
  "buildMetrics a cpuUsage actualIntervalSeconds memory load systemInfo disk networkRate processes =
     \<lparr> hostname = si_hostname systemInfo, uptimeSeconds = si_uptimeSeconds systemInfo,
       logicalCpuCount = ag_cpuCount a, cpuUsagePercent = cpuUsage,
       memoryTotalKB = mem_totalKB memory, memoryUsedKB = mem_usedKB memory,
       memoryAvailableKB = mem_availableKB memory, memoryUsagePercent = mem_usagePercent memory,
       load1 = li_load1 load, load5 = li_load5 load, load15 = li_load15 load,
       diskMountPoint = di_mountPoint disk, diskTotalBytes = di_totalBytes disk,
       diskUsedBytes = di_usedBytes disk, diskAvailableBytes = di_availableBytes disk,
       diskUsagePercent = disk_usagePercent disk, networkInterface = ag_networkInterface a,
       networkRxBytesPerSecond = nr_rxBytesPerSecond networkRate,
       networkTxBytesPerSecond = nr_txBytesPerSecond networkRate,
       sampleIntervalSeconds = actualIntervalSeconds,
       topProcesses = map process_metric (take 5 processes) \<rparr>"

text \<open>A difference of times as \<open>duration<double>\<close>, and the cast of the interval to nanoseconds.\<close>

definition seconds_of_ns :: "int \<Rightarrow> double" where
  "seconds_of_ns n = d_div (round_double (n < 0) (of_nat (nat \<bar>n\<bar>))) (DFin False 1000000000)"

fun ns_of_seconds :: "double \<Rightarrow> int" where
  "ns_of_seconds d = (case d_mul d (DFin False 1000000000) of
     DFin s q \<Rightarrow> if s then - \<lfloor>q\<rfloor> else \<lfloor>q\<rfloor>
   | _ \<Rightarrow> 0)"

text \<open>The snapshots that become the previous ones at the end of the turn.\<close>

record reading =
  rd_cpu :: CpuTimes
  rd_network :: NetworkStats
  rd_networkTime :: int
  rd_processes :: "ProcessSnapshot list"

definition agent_read :: "'a agent_scheme \<Rightarrow> sample \<Rightarrow> reading result" where
  "agent_read a sa =
     ebind (readCpuTimes (sa_stat sa)) (\<lambda>currentCpu.
     ebind (network_collect (sa_dev sa) (ag_networkInterface a)) (\<lambda>currentNetwork.
     Inr \<lparr> rd_cpu = currentCpu, rd_network = currentNetwork, rd_networkTime = sa_networkTime sa,
           rd_processes = collectSnapshots (sa_entries sa) (sa_files sa) \<rparr>))"

definition agent_metrics :: "ProcessInfo sorter \<Rightarrow> sample \<Rightarrow> reading \<Rightarrow> agent_run \<Rightarrow> SystemMetrics result" where
  "agent_metrics std_sort sa cur r =
     (let actualIntervalSeconds = seconds_of_ns (rd_networkTime cur - rn_previousNetworkTime r);
          cpuUsage = cpu_calculateUsage (rn_previousCpu r) (rd_cpu cur);
          totalCpuDelta = cpu_total (rd_cpu cur) - cpu_total (rn_previousCpu r)
      in ebind (calculateRate (rn_previousNetwork r) (rd_network cur) actualIntervalSeconds) (\<lambda>networkRate.
         ebind (memory_collect (sa_meminfo sa)) (\<lambda>memory.
         ebind (load_collect (sa_loadavg sa)) (\<lambda>load.
         ebind (system_collect (sa_hostname sa) (sa_uptime sa)) (\<lambda>systemInfo.
         ebind (disk_collect (sa_statvfs sa) ''/'') (\<lambda>disk.
         let processes = process_calculateUsage std_sort (rn_previousProcesses r) (rd_processes cur)
               totalCpuDelta (mem_totalKB memory) (ag_cpuCount r)
         in Inr (buildMetrics r cpuUsage actualIntervalSeconds memory load systemInfo disk networkRate processes)))))))"

section \<open>Reconnecting and sending\<close>

definition agent_reconnect :: "sample \<Rightarrow> agent_run \<Rightarrow> agent_run" where
  "agent_reconnect sa r =
     (if \<not> isConnected (ag_tcpClient r) \<and> sa_reconnectNow sa \<ge> rn_nextReconnectTime r
      then let r = agent_log Info ''Attempting to connect to monitoring server'' r;
               (ok, client) = connectToServer (sa_socketFd sa) (sa_conversion sa) (sa_connectFailure sa) (ag_tcpClient r);
               r = r\<lparr> ag_tcpClient := client \<rparr>
           in if ok
              then r\<lparr> rn_reconnectDelay := 1, rn_nextReconnectTime := sa_reconnectNow sa \<rparr>
              else let r = agent_log Warning (''Next monitoring server reconnect attempt in '' @
                         dec_int (rn_reconnectDelay r) @ '' second(s)'') r
                   in r\<lparr> rn_reconnectDelay := min (rn_reconnectDelay r * 2) 30,
                         rn_nextReconnectTime := sa_reconnectNow sa + rn_reconnectDelay r * 1000000000 \<rparr>
      else r)"

definition agent_send :: "sample \<Rightarrow> string \<Rightarrow> agent_run \<Rightarrow> agent_run option" where
  "agent_send sa framedMetrics r =
     (if isConnected (ag_tcpClient r)
      then case sendAll (sa_sends sa) framedMetrics (ag_tcpClient r) of
        None \<Rightarrow> None
      | Some (ok, client) \<Rightarrow>
          let r = r\<lparr> ag_tcpClient := client \<rparr>
          in if ok then Some r
             else Some (agent_log Warning ''Metrics transmission failed; reconnect scheduled in 1 second''
               (r\<lparr> rn_reconnectDelay := 1, rn_nextReconnectTime := sa_failureTime sa + 1000000000 \<rparr>))
      else Some r)"

definition agent_advance :: "reading \<Rightarrow> agent_run \<Rightarrow> agent_run" where
  "agent_advance cur r = r\<lparr> rn_previousCpu := rd_cpu cur, rn_previousNetwork := rd_network cur,
     rn_previousNetworkTime := rd_networkTime cur, rn_previousProcesses := rd_processes cur,
     rn_nextSampleTime := rn_nextSampleTime r + ns_of_seconds (ag_intervalSeconds r) \<rparr>"

section \<open>The loop\<close>

text \<open>
  One turn after the sleep; \<open>None\<close> when a call of \<open>send\<close> has not returned.  An exception ends
  \<open>run\<close>.
\<close>

definition agent_turn :: "ProcessInfo sorter \<Rightarrow> sample \<Rightarrow> agent_run \<Rightarrow> agent_run result option" where
  "agent_turn std_sort sa r =
     (case agent_read r sa of
        Inl e \<Rightarrow> Some (Inl e)
      | Inr cur \<Rightarrow> (case ebind (agent_metrics std_sort sa cur r) (\<lambda>metrics. encode (serialize metrics)) of
          Inl e \<Rightarrow> Some (Inl e)
        | Inr framedMetrics \<Rightarrow>
            map_option (\<lambda>r. Inr (agent_advance cur r)) (agent_send sa framedMetrics (agent_reconnect sa r))))"

text \<open>How far \<open>run\<close> has come: waiting for its next turn, returned, or left by an exception.\<close>

datatype agent_outcome = Waiting agent_run | Stopped agent_run | Threw cxx_exn

definition agent_stop :: "agent_run \<Rightarrow> agent_outcome" where
  "agent_stop r = Stopped (agent_log Info ''LMonitor Agent stopped'' r)"

fun agent_loop :: "ProcessInfo sorter \<Rightarrow> sample list \<Rightarrow> agent_run \<Rightarrow> agent_outcome" where
  "agent_loop std_sort [] r = Waiting r"
| "agent_loop std_sort (sa # rest) r =
     (if \<not> sa_running sa \<or> \<not> sa_runningAfterSleep sa then agent_stop r
      else case agent_turn std_sort sa r of
        None \<Rightarrow> Waiting r
      | Some (Inl e) \<Rightarrow> Threw e
      | Some (Inr r) \<Rightarrow> agent_loop std_sort rest r)"

text \<open>\<open>first\<close> and \<open>now\<close> are the environment and the time before the loop.\<close>

definition agent_start :: "sample \<Rightarrow> int \<Rightarrow> agent \<Rightarrow> agent_run result" where
  "agent_start sa now a =
     ebind (agent_read a sa) (\<lambda>cur.
     Inr (agent_log Info (''LMonitor Agent started: interface='' @ ag_networkInterface a @ '', logical_cpus='' @
         dec (unat (ag_cpuCount a)) @ '', sampling_interval='' @ show_fixed 6 (ag_intervalSeconds a) @ ''s'')
       (agent.extend a \<lparr> rn_previousCpu = rd_cpu cur, rn_previousNetwork = rd_network cur,
          rn_previousNetworkTime = rd_networkTime cur, rn_previousProcesses = rd_processes cur,
          rn_nextSampleTime = now + ns_of_seconds (ag_intervalSeconds a), rn_reconnectDelay = 1,
          rn_nextReconnectTime = sa_reconnectNow sa \<rparr>)))"

definition run_agent :: "ProcessInfo sorter \<Rightarrow> sample \<Rightarrow> int \<Rightarrow> sample list \<Rightarrow> agent \<Rightarrow> agent_outcome" where
  "run_agent std_sort first now samples a =
     (case agent_start first now a of Inl e \<Rightarrow> Threw e | Inr r \<Rightarrow> agent_loop std_sort samples r)"

section \<open>The snapshots that can be sent\<close>

lemma good_upto: "d_upto k d \<Longrightarrow> good_double d"
  by (simp add: good_double_def d_upto_isfinite)

text \<open>An interval of at least \<open>l\<close> and at most \<open>u\<close> nanoseconds lies between the powers of two around them.\<close>

lemma seconds_of_ns_bounds:
  assumes "0 < n" and "n < 2 ^ 63"
  shows "\<exists>q. seconds_of_ns n = DFin False q \<and> good_double (DFin False q) \<and> 2 powi (-30) \<le> q \<and>
     (10000000 \<le> n \<longrightarrow> 2 powi (-7) \<le> q) \<and> (n \<le> 3906250 \<longrightarrow> q \<le> 2 powi (-8))"
proof -
  define a where "a = rnd_mag (of_nat (nat n))"
  have "nat n \<le> 2 ^ 63" using assms by simp
  then have up: "(of_nat (nat n) :: rat) \<le> 2 powi 63"
    by (metis of_nat_le_iff of_nat_numeral of_nat_power power_int_numeral)
  have a: "round_double False (of_nat (nat n)) = DFin False a" "a \<le> 2 powi 63"
    unfolding a_def by (rule round_double_below [OF up] rnd_mag_le_powi [OF up]; simp)+
  have low: "of_nat c \<le> a" if "int c \<le> n" "c < 2 ^ 53" for c
    unfolding a_def using rnd_mag_mono [of "of_nat c" "of_nat (nat n)"] rnd_mag_of_nat [of c] that by simp
  have high: "a \<le> of_nat c" if "n \<le> int c" "c < 2 ^ 53" for c
    unfolding a_def using rnd_mag_mono [of "of_nat (nat n)" "of_nat c"] rnd_mag_of_nat [of c] that by simp
  have one: "1 \<le> a" using low [of 1] assms(1) by simp
  have up2: "a / 1000000000 \<le> 2 powi 63" using a(2) one by (simp add: divide_le_eq)
  define q where "q = rnd_mag (a / 1000000000)"
  have "seconds_of_ns n = round_double False (a / 1000000000)"
    using assms a(1) by (simp add: seconds_of_ns_def)
  then have val: "seconds_of_ns n = DFin False q" unfolding q_def using round_double_below [OF up2] by simp
  have good: "good_double (DFin False q)"
    using d_ok_round [of False "a / 1000000000"] unfolding q_def good_double_def round_double_below [OF up2, simplified] by simp
  have below: "2 powi k \<le> q" if "2 powi k \<le> a / 1000000000" "-1074 \<le> k" "k < 1024" for k
    unfolding q_def using rnd_mag_mono [OF that(1)] rnd_mag_powi [of k] that by simp
  have "2 powi (-30) \<le> q" by (rule below) (use one in \<open>simp_all add: power_int_minus\<close>)
  moreover have "2 powi (-7) \<le> q" if "10000000 \<le> n"
    by (rule below) (use low [of 10000000] that in \<open>simp_all add: power_int_minus\<close>)
  moreover have "q \<le> 2 powi (-8)" if "n \<le> 3906250"
  proof -
    have "a / 1000000000 \<le> 2 powi (-8)" using high [of 3906250] that by (simp add: power_int_minus)
    then show ?thesis unfolding q_def by (rule rnd_mag_le_powi) simp_all
  qed
  ultimately show ?thesis using val good by blast
qed

text \<open>The other direction: without time between the samples the rates throw.\<close>

lemma seconds_of_ns_negative:
  assumes "n \<le> 0" and "- (2 ^ 63) < n"
  shows "d_le (seconds_of_ns n) d_zero"
proof -
  define a where "a = rnd_mag (of_nat (nat \<bar>n\<bar>))"
  have "nat \<bar>n\<bar> \<le> 2 ^ 63" using assms by simp
  then have up: "(of_nat (nat \<bar>n\<bar>) :: rat) \<le> 2 powi 63"
    by (metis of_nat_le_iff of_nat_numeral of_nat_power power_int_numeral)
  have a: "round_double (n < 0) (of_nat (nat \<bar>n\<bar>)) = DFin (n < 0) a" "a \<le> 2 powi 63" "0 \<le> a"
    unfolding a_def using round_double_below [OF up] rnd_mag_le_powi [OF up] rnd_mag_nonneg by simp_all
  have up2: "a / 1000000000 \<le> 2 powi 63" using a(2,3) by (simp add: divide_le_eq)
  have "seconds_of_ns n = DFin (n < 0) (rnd_mag (a / 1000000000))"
    using a(1) round_double_below [OF up2] by (simp add: seconds_of_ns_def)
  moreover have "a = 0" if "n = 0" using that by (simp add: a_def)
  moreover have "0 \<le> rnd_mag (a / 1000000000)" using a(3) by (simp add: rnd_mag_nonneg)
  ultimately show ?thesis using assms(1) by (cases "n = 0") (simp_all add: d_zero_def d_val_def)
qed

lemma printed_interval:
  assumes "2 powi (-7) \<le> q"
  shows "\<not> d_le (fixed_value 2 (DFin False q)) d_zero"
proof -
  have "(2 powi (-7) :: rat) * 10 ^ 2 \<le> q * 10 ^ 2" using assms by (intro mult_right_mono) simp_all
  then have "round_half_even (2 powi (-7) * 10 ^ 2) \<le> round_half_even (q * 10 ^ 2)" by (rule round_half_even_mono)
  moreover have "\<lfloor>25 / 32 :: rat\<rfloor> = 0" by (simp add: floor_eq_iff)
  then have "round_half_even ((2 powi (-7) :: rat) * 10 ^ 2) = 1"
    by (simp add: round_half_even_def power_int_minus Let_def)
  ultimately have "1 \<le> fixed_units 2 q" by (simp add: fixed_units_def)
  then have "(2 powi (-7) :: rat) \<le> of_nat (fixed_units 2 q) / 10 ^ 2"
    by (simp add: power_int_minus)
  then have "2 powi (-7) \<le> rnd_mag (of_nat (fixed_units 2 q) / 10 ^ 2)"
    using rnd_mag_mono rnd_mag_powi [of "-7"] by fastforce
  then show ?thesis using powi2_pos [of "-7"] by (simp add: d_zero_def d_val_def)
qed

lemma printed_zero:
  assumes "0 \<le> q" and "q \<le> 2 powi (-8)"
  shows "d_le (fixed_value 2 (DFin False q)) d_zero"
proof -
  have "q * 10 ^ 2 \<le> (2 powi (-8) :: rat) * 10 ^ 2" using assms(2) by (intro mult_right_mono) simp_all
  then have "round_half_even (q * 10 ^ 2) \<le> round_half_even ((2 powi (-8) :: rat) * 10 ^ 2)" by (rule round_half_even_mono)
  moreover have "\<lfloor>25 / 64 :: rat\<rfloor> = 0" by (simp add: floor_eq_iff)
  then have "round_half_even ((2 powi (-8) :: rat) * 10 ^ 2) = 0"
    by (simp add: round_half_even_def power_int_minus Let_def)
  ultimately have "fixed_units 2 q = 0" by (simp add: fixed_units_def)
  then show ?thesis by (simp add: d_zero_def d_val_def)
qed

lemma line_text_word: "w \<noteq> [] \<and> (\<forall>c \<in> set w. \<not> is_space c) \<Longrightarrow> line_text w"
  using last_in_set [of w] by (auto simp: line_text_def is_space_def)

lemma sendable_process_metric:
  assumes "usage_ok i" and "0 \<le> pi_pid i" and "int32_range (pi_pid i)" and "line_text (pi_name i)"
  shows "sendable_process (process_metric i)"
  using assms good_upto by (auto simp: sendable_process_def process_metric_def usage_ok_def)

text \<open>
  What the kernel and the configuration have to provide for a turn: ten milliseconds since the
  last one, a host name, process names without carriage returns, and a \<open>send\<close> that accepts no
  more than it was given.
\<close>

definition no_cr :: "string option \<Rightarrow> bool" where
  "no_cr content \<longleftrightarrow> (case content of None \<Rightarrow> True | Some s \<Rightarrow> cr \<notin> set s)"

definition agent_frame :: "ProcessInfo sorter \<Rightarrow> sample \<Rightarrow> agent_run \<Rightarrow> string result" where
  "agent_frame std_sort sa r =
     ebind (agent_read r sa) (\<lambda>cur. ebind (agent_metrics std_sort sa cur r) (\<lambda>metrics. encode (serialize metrics)))"

definition good_sample :: "ProcessInfo sorter \<Rightarrow> sample \<Rightarrow> agent_run \<Rightarrow> bool" where
  "good_sample std_sort sa r \<longleftrightarrow>
     10000000 \<le> sa_networkTime sa - rn_previousNetworkTime r \<and> sa_networkTime sa - rn_previousNetworkTime r < 2 ^ 63 \<and>
     (case sa_hostname sa of None \<Rightarrow> False | Some h \<Rightarrow> line_text h) \<and> (\<forall>pid. no_cr (pf_comm (sa_files sa pid))) \<and>
     (case agent_frame std_sort sa r of Inl e \<Rightarrow> True | Inr frame \<Rightarrow> send_within (length frame) (sa_sends sa))"

definition agent_ok :: "string option \<Rightarrow> 'a agent_scheme \<Rightarrow> bool" where
  "agent_ok route a \<longleftrightarrow> detectDefaultInterface route = Inr (ag_networkInterface a) \<and> ag_cpuCount a \<noteq> 0"

lemma process_metric_names:
  assumes "sorts std_sort" and "i \<in> set (process_calculateUsage std_sort previous (collectSnapshots entries files) cpu mem cpus)"
  shows "usage_ok i \<and> 0 \<le> pi_pid i \<and> int32_range (pi_pid i) \<and> pi_name i \<noteq> [] \<and> nl \<notin> set (pi_name i) \<and>
     (\<exists>pid content. pf_comm (files pid) = Some content \<and> set (pi_name i) \<subseteq> set content)"
proof -
  obtain c where c: "usage_ok i" "c \<in> set (collectSnapshots entries files)" "pi_pid i = ps_pid c" "pi_name i = ps_name c"
    using process_usage_elem [OF assms] by blast
  then show ?thesis using collectSnapshots_elem [OF c(2)] by auto
qed

text \<open>What the snapshot of a turn has, whatever was read.\<close>

lemma snapshot_sendable:
  assumes "sorts std_sort" and "agent_ok route r" and dt: "\<bar>sa_networkTime sa - rn_previousNetworkTime r\<bar> < 2 ^ 63"
    and read: "agent_read r sa = Inr cur" and m: "agent_metrics std_sort sa cur r = Inr m"
  shows "sendable m \<longleftrightarrow> line_text (hostname m) \<and> (\<forall>p \<in> set (topProcesses m). last (pm_name p) \<noteq> cr) \<and>
      \<not> d_le (fixed_value 2 (sampleIntervalSeconds m)) d_zero"
    and "10000000 \<le> sa_networkTime sa - rn_previousNetworkTime r \<Longrightarrow> \<not> d_le (fixed_value 2 (sampleIntervalSeconds m)) d_zero"
    and "sa_networkTime sa - rn_previousNetworkTime r \<le> 3906250 \<Longrightarrow> d_le (fixed_value 2 (sampleIntervalSeconds m)) d_zero"
    and "sa_hostname sa = Some (hostname m)" and "length (topProcesses m) \<le> 5"
    and "p \<in> set (topProcesses m) \<Longrightarrow> \<exists>pid content. pf_comm (sa_files sa pid) = Some content \<and> set (pm_name p) \<subseteq> set content"
    and "p \<in> set (topProcesses m) \<Longrightarrow> pm_name p \<noteq> []"
proof -
  define n where "n = sa_networkTime sa - rn_previousNetworkTime r"
  have iface: "detectDefaultInterface route = Inr (ag_networkInterface r)" and cpus: "ag_cpuCount r \<noteq> 0"
    using assms(2) by (simp_all add: agent_ok_def)
  from read have cur: "rd_networkTime cur = sa_networkTime sa" "rd_processes cur = collectSnapshots (sa_entries sa) (sa_files sa)"
    by (auto simp: agent_read_def result_simps)
  obtain rate mem load sys disk cpu procs where
    rate: "calculateRate (rn_previousNetwork r) (rd_network cur) (seconds_of_ns n) = Inr rate"
    and load: "load_collect (sa_loadavg sa) = Inr load"
    and sys: "system_collect (sa_hostname sa) (sa_uptime sa) = Inr sys"
    and disk: "disk_collect (sa_statvfs sa) ''/'' = Inr disk"
    and procs: "procs = process_calculateUsage std_sort (rn_previousProcesses r) (collectSnapshots (sa_entries sa) (sa_files sa)) cpu
      (mem_totalKB mem) (ag_cpuCount r)"
    and m': "m = buildMetrics r (cpu_calculateUsage (rn_previousCpu r) (rd_cpu cur)) (seconds_of_ns n) mem load sys disk rate procs"
    using m by (auto simp: agent_metrics_def result_simps Let_def cur n_def)
  have "\<not> d_le (seconds_of_ns n) d_zero" using rate by (auto simp: calculateRate_def result_simps)
  then have pos: "0 < n" using seconds_of_ns_negative [of n] dt by (force simp: n_def)
  have "n < 2 ^ 63" using dt unfolding n_def by linarith
  then obtain q where q: "seconds_of_ns n = DFin False q" "good_double (DFin False q)" "2 powi (-30) \<le> q"
    "10000000 \<le> n \<longrightarrow> 2 powi (-7) \<le> q" "n \<le> 3906250 \<longrightarrow> q \<le> 2 powi (-8)"
    using seconds_of_ns_bounds [OF pos] by blast
  have rates: "d_upto 94 (nr_rxBytesPerSecond rate)" "d_upto 94 (nr_txBytesPerSecond rate)"
    using rate q(3) by (auto simp: calculateRate_def result_simps q(1) counter_rate_upto)
  have loads: "good_double (li_load1 load)" "good_double (li_load5 load)" "good_double (li_load15 load)"
    using load_collect_good [OF load] by (simp_all add: good_double_def)
  have procs_m: "topProcesses m = map process_metric (take 5 procs)" by (simp add: m' buildMetrics_def)
  note elem = process_metric_names [OF assms(1), of _ "rn_previousProcesses r" "sa_entries sa" "sa_files sa" cpu "mem_totalKB mem" "ag_cpuCount r",
      folded procs]
  have name: "pm_name p \<noteq> [] \<and> (\<exists>pid content. pf_comm (sa_files sa pid) = Some content \<and> set (pm_name p) \<subseteq> set content) \<and>
      (sendable_process p \<longleftrightarrow> last (pm_name p) \<noteq> cr)" if p: "p \<in> set (topProcesses m)" for p
  proof -
    obtain i where i: "i \<in> set procs" "p = process_metric i" using p unfolding procs_m by (auto dest: in_set_takeD)
    note e = elem [OF i(1)]
    have "pm_name p = pi_name i" by (simp add: i(2) process_metric_def)
    moreover have "sendable_process p \<Longrightarrow> line_text (pi_name i)" by (simp add: i(2) sendable_process_def process_metric_def)
    moreover have "line_text (pi_name i) \<Longrightarrow> sendable_process p" unfolding i(2) by (rule sendable_process_metric) (use e in blast)+
    ultimately show ?thesis using e by (auto simp: line_text_def)
  qed
  have texts: "sa_hostname sa = Some (hostname m)" "diskMountPoint m = ''/''"
    using sys disk by (auto simp: m' buildMetrics_def system_collect_def disk_collect_def Let_def split: option.splits prod.splits if_splits)
  have "line_text (ag_networkInterface r)" using detectDefaultInterface_word [OF iface] by (rule line_text_word)
  moreover have "\<forall>d \<in> set (metric_doubles m). good_double d"
    using loads d_upto_usage [THEN good_upto] rates [THEN good_upto] q(1,2)
    by (simp add: m' metric_doubles_def buildMetrics_def)
  moreover have "line_text ''/''" by (simp add: line_text_def)
  moreover have "networkInterface m = ag_networkInterface r" "logicalCpuCount m = ag_cpuCount r"
    by (simp_all add: m' buildMetrics_def)
  moreover show size: "length (topProcesses m) \<le> 5" by (simp add: procs_m)
  ultimately show "sendable m \<longleftrightarrow> line_text (hostname m) \<and> (\<forall>p \<in> set (topProcesses m). last (pm_name p) \<noteq> cr) \<and>
      \<not> d_le (fixed_value 2 (sampleIntervalSeconds m)) d_zero"
    using texts cpus name by (auto simp: sendable_def simp del: fixed_value.simps)
  have interval: "sampleIntervalSeconds m = DFin False q" by (simp add: m' buildMetrics_def q(1))
  show "\<not> d_le (fixed_value 2 (sampleIntervalSeconds m)) d_zero" if "10000000 \<le> sa_networkTime sa - rn_previousNetworkTime r"
    using printed_interval q(4) that unfolding interval n_def by blast
  show "d_le (fixed_value 2 (sampleIntervalSeconds m)) d_zero" if "sa_networkTime sa - rn_previousNetworkTime r \<le> 3906250"
    using printed_zero [of q] q(3,5) that powi2_pos [of "-30"] unfolding interval n_def by linarith
  show "sa_hostname sa = Some (hostname m)" by (rule texts)
  show "\<exists>pid content. pf_comm (sa_files sa pid) = Some content \<and> set (pm_name p) \<subseteq> set content" "pm_name p \<noteq> []"
    if "p \<in> set (topProcesses m)" using name [OF that] by blast+
qed

lemma sendable_snapshot:
  assumes "sorts std_sort" and "agent_ok route r" and "good_sample std_sort sa r"
    and read: "agent_read r sa = Inr cur" and m: "agent_metrics std_sort sa cur r = Inr m"
  shows "sendable m"
proof -
  have "\<bar>sa_networkTime sa - rn_previousNetworkTime r\<bar> < 2 ^ 63" using assms(3) by (simp add: good_sample_def)
  note facts = snapshot_sendable [OF assms(1,2) this read m]
  have "line_text (hostname m)" using assms(3) facts(4) by (simp add: good_sample_def)
  moreover have "last (pm_name p) \<noteq> cr" if p: "p \<in> set (topProcesses m)" for p
  proof -
    obtain pid content where content: "pf_comm (sa_files sa pid) = Some content" "set (pm_name p) \<subseteq> set content"
      using facts(6) [OF p] by blast
    have "no_cr (pf_comm (sa_files sa pid))" using assms(3) by (simp add: good_sample_def)
    then have "cr \<notin> set (pm_name p)" using content by (auto simp: no_cr_def)
    then show ?thesis using last_in_set [OF facts(7) [OF p]] by metis
  qed
  moreover have "10000000 \<le> sa_networkTime sa - rn_previousNetworkTime r" using assms(3) by (simp add: good_sample_def)
  ultimately show ?thesis using facts(1,2) by blast
qed

text \<open>
  C32: which snapshots can be sent: in a turn of an agent whose interface its constructor found
  and whose CPU count is not 0, with sample times less than \<open>2 ^ 63\<close> ns apart and \<open>std::sort\<close> as
  its contract says, when no collector throws, the snapshot is sendable exactly if the host
  name is a text the line format carries, no name of a listed process ends in a carriage
  return, and the interval is not printed as zero.  Ten milliseconds between the samples are
  enough for the interval, 3.9 or less are not.
\<close>

theorem agent_metrics_sendable:
  assumes "sorts std_sort" and "agent_ok route r" and "\<bar>sa_networkTime sa - rn_previousNetworkTime r\<bar> < 2 ^ 63"
    and "agent_read r sa = Inr cur" and "agent_metrics std_sort sa cur r = Inr m"
  shows "(sendable m \<longleftrightarrow> line_text (hostname m) \<and> (\<forall>p \<in> set (topProcesses m). last (pm_name p) \<noteq> cr) \<and>
       \<not> d_le (fixed_value 2 (sampleIntervalSeconds m)) d_zero) \<and>
     (10000000 \<le> sa_networkTime sa - rn_previousNetworkTime r \<longrightarrow> \<not> d_le (fixed_value 2 (sampleIntervalSeconds m)) d_zero) \<and>
     (sa_networkTime sa - rn_previousNetworkTime r \<le> 3906250 \<longrightarrow> \<not> sendable m) \<and>
     sa_hostname sa = Some (hostname m) \<and> length (topProcesses m) \<le> 5"
  using snapshot_sendable(1-5) [OF assms] by blast

section \<open>Reconnecting\<close>

lemma client_of_log [simp]:
  "isConnected (ag_tcpClient (agent_log l s r)) = isConnected (ag_tcpClient r)"
  "cl_stream (ag_tcpClient (agent_log l s r)) = cl_stream (ag_tcpClient r)"
  "rn_reconnectDelay (agent_log l s r) = rn_reconnectDelay r"
  "ag_networkInterface (agent_log l s r) = ag_networkInterface r" "ag_cpuCount (agent_log l s r) = ag_cpuCount r"
  by (simp_all add: agent_log_def)

lemma client_of_advance [simp]:
  "ag_tcpClient (agent_advance cur r) = ag_tcpClient r" "rn_reconnectDelay (agent_advance cur r) = rn_reconnectDelay r"
  "rn_nextReconnectTime (agent_advance cur r) = rn_nextReconnectTime r"
  "ag_networkInterface (agent_advance cur r) = ag_networkInterface r" "ag_cpuCount (agent_advance cur r) = ag_cpuCount r"
  by (simp_all add: agent_advance_def)

lemma agent_turnE:
  assumes "agent_turn std_sort sa r = Some (Inr r')"
  obtains cur m frame r1 where "agent_read r sa = Inr cur" "agent_metrics std_sort sa cur r = Inr m"
    "encode (serialize m) = Inr frame" "agent_send sa frame (agent_reconnect sa r) = Some r1" "r' = agent_advance cur r1"
  using assms by (auto simp: agent_turn_def result_simps split: sum.splits)

text \<open>
  The turns without a connection: \<open>n\<close> attempts have failed, the last at the time \<open>tried\<close>.
\<close>

inductive offline :: "ProcessInfo sorter \<Rightarrow> agent_run \<Rightarrow> nat \<Rightarrow> int \<Rightarrow> agent_run \<Rightarrow> bool" for std_sort r0 where
  offline_start: "offline std_sort r0 0 0 r0"
| offline_wait: "offline std_sort r0 n tried r \<Longrightarrow> sa_reconnectNow sa < rn_nextReconnectTime r \<Longrightarrow>
    agent_turn std_sort sa r = Some (Inr r') \<Longrightarrow> offline std_sort r0 n tried r'"
| offline_fail: "offline std_sort r0 n tried r \<Longrightarrow> sa_reconnectNow sa \<ge> rn_nextReconnectTime r \<Longrightarrow>
    agent_turn std_sort sa r = Some (Inr r') \<Longrightarrow> \<not> isConnected (ag_tcpClient (agent_reconnect sa r)) \<Longrightarrow>
    offline std_sort r0 (Suc n) (sa_reconnectNow sa) r'"

lemma turn_not_connected:
  assumes "agent_turn std_sort sa r = Some (Inr r')" and "\<not> isConnected (ag_tcpClient (agent_reconnect sa r))"
  shows "\<not> isConnected (ag_tcpClient r') \<and> rn_reconnectDelay r' = rn_reconnectDelay (agent_reconnect sa r) \<and>
     rn_nextReconnectTime r' = rn_nextReconnectTime (agent_reconnect sa r)"
  using assms(1) by (rule agent_turnE) (use assms(2) in \<open>auto simp: agent_send_def\<close>)

lemma reconnect_fails:
  assumes "\<not> isConnected (ag_tcpClient r)" and "\<not> isConnected (ag_tcpClient (agent_reconnect sa r))"
  shows "rn_reconnectDelay (agent_reconnect sa r) =
      (if sa_reconnectNow sa < rn_nextReconnectTime r then rn_reconnectDelay r else min (rn_reconnectDelay r * 2) 30) \<and>
    rn_nextReconnectTime (agent_reconnect sa r) =
      (if sa_reconnectNow sa < rn_nextReconnectTime r then rn_nextReconnectTime r
       else sa_reconnectNow sa + rn_reconnectDelay r * 1000000000)"
  using assms
  by (auto simp: agent_reconnect_def Let_def connectToServer_def isConnected_def createSocket_def agent_log_def
      client_log_def client_close_def split: option.splits if_splits)

lemma min_double: "min (min (2 ^ n) 30 * 2) 30 = min (2 ^ Suc n) (30 :: int)"
  by (cases "(2::int) ^ n \<le> 30") (simp_all add: min_def)

lemma offline_delays:
  assumes "offline std_sort r0 n tried r" and "\<not> isConnected (ag_tcpClient r0)" and "rn_reconnectDelay r0 = 1"
  shows "\<not> isConnected (ag_tcpClient r) \<and> rn_reconnectDelay r = min (2 ^ n) 30 \<and>
    (n \<noteq> 0 \<longrightarrow> rn_nextReconnectTime r = tried + min (2 ^ (n - 1)) 30 * 1000000000)"
  using assms
proof (induction rule: offline.induct)
  case (offline_wait n tried r sa r')
  then have "agent_reconnect sa r = r" by (simp add: agent_reconnect_def)
  with offline_wait turn_not_connected [of std_sort sa r r'] show ?case by auto
next
  case (offline_fail n tried r sa r')
  then have "\<not> isConnected (ag_tcpClient r)" and delay: "rn_reconnectDelay r = min (2 ^ n) 30" by auto
  with offline_fail turn_not_connected [of std_sort sa r r'] reconnect_fails [of r sa] show ?case
    by (simp add: min_double del: power_Suc)
qed simp

text \<open>
  C33: after \<open>n\<close> failed attempts in a row the delay is \<open>2 ^ n\<close> seconds, at most 30, and the next
  attempt is not made before the delay of the last one has passed.
\<close>

theorem reconnect_backoff:
  assumes "offline std_sort r0 n tried r" and "\<not> isConnected (ag_tcpClient r0)" and "rn_reconnectDelay r0 = 1" and "n \<noteq> 0"
  shows "rn_reconnectDelay r = min (2 ^ n) 30 \<and>
    rn_nextReconnectTime r = tried + min (2 ^ (n - 1)) 30 * 1000000000 \<and>
    (sa_reconnectNow sa < tried + min (2 ^ (n - 1)) 30 * 1000000000 \<longrightarrow> agent_reconnect sa r = r)"
  using offline_delays [OF assms(1-3)] assms(4) by (simp add: agent_reconnect_def)

section \<open>The stream of a connection\<close>

text \<open>\<open>stream_of ms s\<close>: the bytes are the frames of the snapshots \<open>ms\<close>, all of which can be sent.\<close>

definition stream_of :: "SystemMetrics list \<Rightarrow> string \<Rightarrow> bool" where
  "stream_of ms s \<longleftrightarrow> (\<exists>frames. list_all2 (\<lambda>m f. sendable m \<and> encode (serialize m) = Inr f) ms frames \<and> s = concat frames)"

lemma stream_of_Nil [simp]: "stream_of [] []"
  by (simp add: stream_of_def)

lemma stream_of_snoc:
  assumes "stream_of ms s" and "sendable m" and "encode (serialize m) = Inr f"
  shows "stream_of (ms @ [m]) (s @ f)"
proof -
  from assms(1) obtain fs where "list_all2 (\<lambda>m f. sendable m \<and> encode (serialize m) = Inr f) ms fs" "s = concat fs"
    by (auto simp: stream_of_def)
  then show ?thesis using assms(2,3) unfolding stream_of_def by (intro exI [of _ "fs @ [f]"]) (simp add: list_all2_appendI)
qed

definition whole_frames :: "SystemMetrics list \<Rightarrow> 'a agent_scheme \<Rightarrow> bool" where
  "whole_frames ms a \<longleftrightarrow> (isConnected (ag_tcpClient a) \<longrightarrow> stream_of ms (cl_stream (ag_tcpClient a)))"

lemma connect_fresh:
  "connectToServer fd conv failure c = (ok, c') \<Longrightarrow> \<not> isConnected c \<Longrightarrow> isConnected c' \<Longrightarrow> cl_stream c' = []"
  by (auto simp: connectToServer_def createSocket_def Let_def client_log_def client_close_def isConnected_def
      split: option.splits if_splits)

lemma whole_frames_reconnect:
  "whole_frames ms r \<Longrightarrow> whole_frames (if isConnected (ag_tcpClient r) then ms else []) (agent_reconnect sa r)"
  unfolding whole_frames_def
  by (auto simp: agent_reconnect_def Let_def agent_log_def client_log_def isConnected_def dest!: connect_fresh
      split: prod.splits if_splits)

lemma agent_reconnect_agent [simp]:
  "ag_networkInterface (agent_reconnect sa r) = ag_networkInterface r" "ag_cpuCount (agent_reconnect sa r) = ag_cpuCount r"
  by (auto simp: agent_reconnect_def Let_def split: prod.split)

lemma agent_send_agent:
  "agent_send sa frame r = Some r' \<Longrightarrow> ag_networkInterface r' = ag_networkInterface r \<and> ag_cpuCount r' = ag_cpuCount r"
  by (auto simp: agent_send_def Let_def split: option.splits if_splits)

lemma whole_frames_send:
  assumes "agent_send sa frame r = Some r'" and "whole_frames ms r" and "sendable m" and "encode (serialize m) = Inr frame"
    and "send_within (length frame) (sa_sends sa)"
  shows "whole_frames (ms @ [m]) r'"
proof (cases "isConnected (ag_tcpClient r)")
  case False
  with assms(1,2) show ?thesis by (simp add: agent_send_def whole_frames_def)
next
  case True
  with assms(1) obtain ok c where c: "sendAll (sa_sends sa) frame (ag_tcpClient r) = Some (ok, c)"
    "ag_tcpClient r' = (if ok then c else client_log Warning ''Metrics transmission failed; reconnect scheduled in 1 second'' c)"
    by (auto simp: agent_send_def agent_log_def Let_def split: option.splits if_splits)
  from True assms(2) have "stream_of ms (cl_stream (ag_tcpClient r))" by (simp add: whole_frames_def)
  then have "stream_of (ms @ [m]) (cl_stream (ag_tcpClient r) @ frame)" using assms(3,4) by (rule stream_of_snoc)
  with c sendAll_stream [OF c(1) True assms(5)] show ?thesis by (auto simp: whole_frames_def split: if_splits)
qed

text \<open>
  The states \<open>run\<close> reaches from \<open>r0\<close>, with the snapshots of the turns since the last one that
  found no connection.
\<close>

inductive agent_reaches :: "ProcessInfo sorter \<Rightarrow> agent_run \<Rightarrow> SystemMetrics list \<Rightarrow> agent_run \<Rightarrow> bool" for std_sort r0 where
  reaches_start: "agent_reaches std_sort r0 [] r0"
| reaches_turn: "agent_reaches std_sort r0 ms r \<Longrightarrow> good_sample std_sort sa r \<Longrightarrow> agent_read r sa = Inr cur \<Longrightarrow>
    agent_metrics std_sort sa cur r = Inr m \<Longrightarrow> agent_turn std_sort sa r = Some (Inr r') \<Longrightarrow>
    agent_reaches std_sort r0 ((if isConnected (ag_tcpClient r) then ms else []) @ [m]) r'"

lemma agent_stream:
  assumes "agent_reaches std_sort r0 ms r" and "sorts std_sort" and "agent_ok route r0" and "\<not> isConnected (ag_tcpClient r0)"
  shows "agent_ok route r \<and> whole_frames ms r"
  using assms
proof (induction rule: agent_reaches.induct)
  case reaches_start
  then show ?case by (simp add: whole_frames_def)
next
  case (reaches_turn ms r sa cur m r')
  then have ok: "agent_ok route r" "whole_frames ms r" by auto
  note read = reaches_turn.hyps(3,4)
  obtain frame r1 where turn: "encode (serialize m) = Inr frame"
    "agent_send sa frame (agent_reconnect sa r) = Some r1" "r' = agent_advance cur r1"
    using reaches_turn.hyps(5) by (rule agent_turnE) (use read in auto)
  have "sendable m" using sendable_snapshot [OF reaches_turn.prems(1) ok(1) reaches_turn.hyps(2) read] .
  moreover have "send_within (length frame) (sa_sends sa)"
    using reaches_turn.hyps(2) read turn(1) by (simp add: good_sample_def agent_frame_def)
  ultimately have "whole_frames ((if isConnected (ag_tcpClient r) then ms else []) @ [m]) r1"
    using whole_frames_send [OF turn(2) whole_frames_reconnect [OF ok(2)] _ turn(1)] by blast
  then show ?case using ok(1) agent_send_agent [OF turn(2)] by (simp add: turn(3) whole_frames_def agent_ok_def)
qed

section \<open>A sample host\<close>

definition demo_run :: agent_run where
  "demo_run = \<lparr> ag_tcpClient = new_client ''127.0.0.1'' 9000, ag_networkInterface = ''eth0'', ag_cpuCount = 4,
     ag_intervalSeconds = DFin False 1,
     rn_previousCpu = \<lparr> cpu_user = 0, cpu_nice = 0, cpu_system = 0, cpu_idle = 0, cpu_iowait = 0, cpu_irq = 0,
       cpu_softirq = 0, cpu_steal = 0 \<rparr>,
     rn_previousNetwork = \<lparr> ns_interfaceName = ''eth0'', ns_rxBytes = 0, ns_txBytes = 0 \<rparr>,
     rn_previousNetworkTime = 0, rn_previousProcesses = [], rn_nextSampleTime = 1000000000, rn_reconnectDelay = 1,
     rn_nextReconnectTime = 0 \<rparr>"

definition demo_sample :: "string option \<Rightarrow> sample" where
  "demo_sample failure = \<lparr> sa_running = True, sa_runningAfterSleep = True,
     sa_stat = Some (''cpu  1 0 0 3 0 0 0 0'' @ [nl]),
     sa_dev = Some ([nl, nl] @ ''eth0: 8 0 0 0 0 0 0 0 4 0 0 0 0 0 0 0'' @ [nl]),
     sa_networkTime = 1000000000, sa_entries = [],
     sa_files = (\<lambda>_. \<lparr> pf_comm = None, pf_stat = None, pf_status = None \<rparr>),
     sa_meminfo = Some (''MemTotal: 8 kB'' @ [nl] @ ''MemAvailable: 4 kB'' @ [nl]),
     sa_loadavg = Some ''0.5 0 0'', sa_hostname = Some ''web-1'', sa_uptime = Some ''60.0 1'',
     sa_statvfs = Some \<lparr> f_frsize = 4096, f_blocks = 4, f_bavail = 2, f_bfree = 2 \<rparr>,
     sa_reconnectNow = 1000000000, sa_socketFd = 3, sa_conversion = 1, sa_connectFailure = failure,
     sa_sends = [Sent 1, SendEintr, Sent 449], sa_failureTime = 0 \<rparr>"

definition demo_reading :: reading where
  "demo_reading = \<lparr> rd_cpu = \<lparr> cpu_user = 1, cpu_nice = 0, cpu_system = 0, cpu_idle = 3, cpu_iowait = 0, cpu_irq = 0,
       cpu_softirq = 0, cpu_steal = 0 \<rparr>,
     rd_network = \<lparr> ns_interfaceName = ''eth0'', ns_rxBytes = 8, ns_txBytes = 4 \<rparr>,
     rd_networkTime = 1000000000, rd_processes = [] \<rparr>"

definition demo_snapshot :: SystemMetrics where
  "demo_snapshot = \<lparr> hostname = ''web-1'', uptimeSeconds = 60, logicalCpuCount = 4, cpuUsagePercent = DFin False 25,
     memoryTotalKB = 8, memoryUsedKB = 4, memoryAvailableKB = 4, memoryUsagePercent = DFin False 50,
     load1 = DFin False (1 / 2), load5 = DFin False 0, load15 = DFin False 0, diskMountPoint = ''/'',
     diskTotalBytes = 16384, diskUsedBytes = 8192, diskAvailableBytes = 8192, diskUsagePercent = DFin False 50,
     networkInterface = ''eth0'', networkRxBytesPerSecond = DFin False 8, networkTxBytesPerSecond = DFin False 4,
     sampleIntervalSeconds = DFin False 1, topProcesses = [] \<rparr>"

lemma demo_collectors:
  "memory_collect (sa_meminfo (demo_sample f)) = Inr \<lparr> mem_totalKB = 8, mem_availableKB = 4 \<rparr>"
  "load_collect (sa_loadavg (demo_sample f)) = Inr \<lparr> li_load1 = DFin False (1 / 2), li_load5 = DFin False 0, li_load15 = DFin False 0 \<rparr>"
  "system_collect (sa_hostname (demo_sample f)) (sa_uptime (demo_sample f)) = Inr \<lparr> si_hostname = ''web-1'', si_uptimeSeconds = 60 \<rparr>"
  "disk_collect (sa_statvfs (demo_sample f)) ''/'' =
     Inr \<lparr> di_mountPoint = ''/'', di_totalBytes = 16384, di_usedBytes = 8192, di_availableBytes = 8192 \<rparr>"
  by code_simp+

lemma demo_rate:
  "calculateRate (rn_previousNetwork demo_run) (rd_network demo_reading) (DFin False 1) =
     Inr \<lparr> nr_rxBytesPerSecond = DFin False 8, nr_txBytesPerSecond = DFin False 4 \<rparr>"
  by code_simp

lemma demo_percents:
  "cpu_calculateUsage (rn_previousCpu demo_run) (rd_cpu demo_reading) = DFin False 25"
  "disk_usagePercent \<lparr> di_mountPoint = ''/'', di_totalBytes = 16384, di_usedBytes = 8192, di_availableBytes = 8192 \<rparr> = DFin False 50"
  "mem_usagePercent \<lparr> mem_totalKB = 8, mem_availableKB = 4 \<rparr> = DFin False 50"
  using percent_nat [of 1 4 25] percent_nat [of 8192 16384 50] percent_nat [of 4 8 50]
  by (simp_all add: cpu_calculateUsage_def demo_run_def demo_reading_def cpu_total_def cpu_idleTime_def
      disk_usagePercent_def mem_usagePercent_def mem_usedKB_def)

lemma demo_read: "agent_read demo_run (demo_sample f) = Inr demo_reading"
  by code_simp

lemma demo_metrics_of_sample: "agent_metrics insertion_sort (demo_sample f) demo_reading demo_run = Inr demo_snapshot"
proof -
  have "rd_networkTime demo_reading - rn_previousNetworkTime demo_run = 1000000000"
    by (simp add: demo_reading_def demo_run_def)
  moreover have "seconds_of_ns 1000000000 = DFin False 1"
    using round_double_nat [of 1000000000 False] round_double_nat [of 1 False] by (simp add: seconds_of_ns_def)
  moreover have "process_calculateUsage insertion_sort (rn_previousProcesses demo_run) (rd_processes demo_reading) c m n = []"
    for c m n by (simp add: process_calculateUsage_def demo_reading_def insertion_sort_def)
  ultimately show ?thesis unfolding agent_metrics_def Let_def
    by (simp add: demo_rate demo_collectors demo_percents buildMetrics_def demo_snapshot_def mem_usedKB_def)
      (simp add: demo_run_def)
qed

lemma demo_length: "length (serialize demo_snapshot) = 446"
  by code_simp

lemma demo_frame: "\<exists>frame. encode (serialize demo_snapshot) = Inr frame \<and> length frame = 450"
  by (simp add: encode_Inr_iff demo_length HEADER_SIZE_def)

definition demo_route :: "string option" where
  "demo_route = Some (''Iface'' @ [nl] @ ''eth0 00000000 0101A8C0 0003'' @ [nl])"

lemma demo_agent_ok: "agent_ok demo_route demo_run"
  unfolding agent_ok_def demo_run_def by simp code_simp

lemma demo_good: "good_sample insertion_sort (demo_sample f) demo_run"
proof -
  obtain frame where "encode (serialize demo_snapshot) = Inr frame" "length frame = 450" using demo_frame by blast
  then have "agent_frame insertion_sort (demo_sample f) demo_run = Inr frame"
    by (simp add: agent_frame_def demo_read demo_metrics_of_sample)
  with \<open>length frame = 450\<close> show ?thesis
    by (simp add: good_sample_def) (simp add: demo_sample_def demo_run_def line_text_def no_cr_def)
qed

text \<open>The sample after a second, and the same files read three milliseconds after the last ones.\<close>

lemma demo_early:
  "\<exists>m. agent_metrics insertion_sort (demo_sample f) demo_reading (demo_run\<lparr> rn_previousNetworkTime := 997000000 \<rparr>) = Inr m"
proof -
  obtain q where q: "seconds_of_ns 3000000 = DFin False q" "2 powi (-30) \<le> q" using seconds_of_ns_bounds [of 3000000] by auto
  have "0 < q" using q(2) powi2_pos [of "-30"] by linarith
  then have "\<not> d_le (seconds_of_ns 3000000) d_zero" by (simp add: q(1) d_zero_def d_val_def)
  moreover have "rd_networkTime demo_reading - rn_previousNetworkTime (demo_run\<lparr> rn_previousNetworkTime := 997000000 \<rparr>) = 3000000"
    by (simp add: demo_reading_def)
  ultimately show ?thesis
    by (simp add: agent_metrics_def Let_def calculateRate_def result_simps demo_collectors)
qed

theorem agent_metrics_sendable_witness:
  "sendable demo_snapshot \<and>
   (\<exists>m. agent_metrics insertion_sort (demo_sample None) demo_reading (demo_run\<lparr> rn_previousNetworkTime := 997000000 \<rparr>) = Inr m \<and>
     \<not> sendable m)"
proof
  have "last (pm_name p) \<noteq> cr" if "p \<in> set (topProcesses demo_snapshot)" for p using that by (simp add: demo_snapshot_def)
  moreover have "line_text (hostname demo_snapshot)" by (simp add: demo_snapshot_def line_text_def)
  moreover have time: "\<bar>sa_networkTime (demo_sample f) - rn_previousNetworkTime demo_run\<bar> < 2 ^ 63"
    "10000000 \<le> sa_networkTime (demo_sample f) - rn_previousNetworkTime demo_run" for f
    by (simp_all add: demo_sample_def demo_run_def)
  ultimately show "sendable demo_snapshot"
    using agent_metrics_sendable [OF sorts_insertion_sort demo_agent_ok time(1) demo_read demo_metrics_of_sample [of None]] by blast
  let ?r = "demo_run\<lparr> rn_previousNetworkTime := 997000000 \<rparr>"
  obtain m where m: "agent_metrics insertion_sort (demo_sample None) demo_reading ?r = Inr m" using demo_early by blast
  have ok: "agent_ok demo_route ?r" "agent_read ?r (demo_sample None) = Inr demo_reading"
    using demo_agent_ok demo_read [of None] by (simp_all add: agent_ok_def agent_read_def)
  have short: "\<bar>sa_networkTime (demo_sample None) - rn_previousNetworkTime ?r\<bar> < 2 ^ 63"
    "sa_networkTime (demo_sample None) - rn_previousNetworkTime ?r \<le> 3906250"
    by (simp_all add: demo_sample_def)
  show "\<exists>m. agent_metrics insertion_sort (demo_sample None) demo_reading ?r = Inr m \<and> \<not> sendable m"
    using agent_metrics_sendable [OF sorts_insertion_sort ok(1) short(1) ok(2) m] short(2) m by blast
qed

lemma demo_turn:
  assumes "agent_send (demo_sample f) frame (agent_reconnect (demo_sample f) demo_run) = Some r" and "encode (serialize demo_snapshot) = Inr frame"
  shows "agent_turn insertion_sort (demo_sample f) demo_run = Some (Inr (agent_advance demo_reading r))"
  by (simp add: agent_turn_def demo_read demo_metrics_of_sample assms)

lemma demo_refused: "\<not> isConnected (ag_tcpClient (agent_reconnect (demo_sample (Some msg)) demo_run))"
  by (simp add: agent_reconnect_def demo_sample_def demo_run_def connectToServer_def createSocket_def agent_log_def
      client_log_def client_close_def new_client_def isConnected_def)

theorem reconnect_backoff_witness:
  "\<exists>r. offline insertion_sort demo_run 1 1000000000 r \<and> rn_reconnectDelay r = 2 \<and> rn_nextReconnectTime r = 2000000000"
proof -
  let ?sa = "demo_sample (Some ''Connection refused'')"
  obtain frame where "encode (serialize demo_snapshot) = Inr frame" using demo_frame by blast
  then have turn: "agent_turn insertion_sort ?sa demo_run = Some (Inr (agent_advance demo_reading (agent_reconnect ?sa demo_run)))"
    using demo_refused by (intro demo_turn) (simp_all add: agent_send_def)
  have "offline insertion_sort demo_run (Suc 0) (sa_reconnectNow ?sa) (agent_advance demo_reading (agent_reconnect ?sa demo_run))"
    by (rule offline_fail [OF offline_start _ turn demo_refused]) (simp add: demo_sample_def demo_run_def)
  then have off: "offline insertion_sort demo_run 1 1000000000 (agent_advance demo_reading (agent_reconnect ?sa demo_run))"
    by (simp add: demo_sample_def)
  have "\<not> isConnected (ag_tcpClient demo_run)" "rn_reconnectDelay demo_run = 1"
    by (simp_all add: demo_run_def new_client_def isConnected_def)
  from reconnect_backoff [OF off this] off show ?thesis by auto
qed

end
