(* ===== verification/Agent_Display.thy ===== *)
theory Agent_Display
  imports Monitor_Agent
begin

text \<open>
  The terminal display of the agent: \<open>MonitorAgent::displayMetrics\<close> of
  \<open>src/agent/MonitorAgent.cpp\<close>.  The text it prints is a function of the snapshot; the stream is
  in fixed notation with two decimals and its columns are filled on the right.  The lemmas
  show which lines appear, that the table can be read back by its columns, and that the
  uptime is split exactly.
\<close>

section \<open>Local variables\<close>

record displayed =
  totalMemoryGiB :: double
  usedMemoryGiB :: double
  availableMemoryGiB :: double
  totalDiskGiB :: double
  usedDiskGiB :: double
  availableDiskGiB :: double
  rxKiBPerSecond :: double
  txKiBPerSecond :: double
  rxMiBPerSecond :: double
  txMiBPerSecond :: double
  up_days :: u64
  up_hours :: u64
  up_minutes :: u64

definition KiB :: double where "KiB = DFin False 1024"

definition MiB :: double where "MiB = DFin False 1048576"

definition GiB :: double where "GiB = DFin False 1073741824"

definition displayed_values :: "SystemMetrics \<Rightarrow> displayed" where
  "displayed_values m =
     \<lparr> totalMemoryGiB = d_div (d_of_u64 (memoryTotalKB m)) MiB,
       usedMemoryGiB = d_div (d_of_u64 (memoryUsedKB m)) MiB,
       availableMemoryGiB = d_div (d_of_u64 (memoryAvailableKB m)) MiB,
       totalDiskGiB = d_div (d_of_u64 (diskTotalBytes m)) GiB,
       usedDiskGiB = d_div (d_of_u64 (diskUsedBytes m)) GiB,
       availableDiskGiB = d_div (d_of_u64 (diskAvailableBytes m)) GiB,
       rxKiBPerSecond = d_div (networkRxBytesPerSecond m) KiB,
       txKiBPerSecond = d_div (networkTxBytesPerSecond m) KiB,
       rxMiBPerSecond = d_div (networkRxBytesPerSecond m) MiB,
       txMiBPerSecond = d_div (networkTxBytesPerSecond m) MiB,
       up_days = uptimeSeconds m div 86400,
       up_hours = uptimeSeconds m mod 86400 div 3600,
       up_minutes = uptimeSeconds m mod 3600 div 60 \<rparr>"

section \<open>The screen\<close>

text \<open>A text in a field of width \<open>n\<close> under \<open>std::left\<close>.\<close>

definition setw_left :: "nat \<Rightarrow> string \<Rightarrow> string" where
  "setw_left n s = s @ replicate (n - length s) (CHR '' '')"

definition screen_clear :: string where
  "screen_clear = CHR 0x1B # ''[2J'' @ CHR 0x1B # ''[H''"

definition screen_rule :: string where
  "screen_rule = ''========================================''"

text \<open>The parts of the screen, as the lines they print.\<close>

definition screen_header :: "string list" where
  "screen_header = [screen_rule, ''            LMonitor Agent'', screen_rule, []]"

definition screen_system :: "SystemMetrics \<Rightarrow> displayed \<Rightarrow> string list" where
  "screen_system m d =
     [''Hostname        : '' @ hostname m,
      ''Uptime          : '' @ dec (unat (up_days d)) @ '' days '' @ dec (unat (up_hours d)) @ '' hours '' @
        dec (unat (up_minutes d)) @ '' minutes'',
      ''Logical CPUs    : '' @ dec (unat (logicalCpuCount m)), []]"

definition screen_cpu :: "SystemMetrics \<Rightarrow> string list" where
  "screen_cpu m =
     [''CPU Usage       : '' @ show_fixed 2 (cpuUsagePercent m) @ '' %'',
      ''Sample Interval : '' @ show_fixed 2 (sampleIntervalSeconds m) @ '' s'', []]"

definition screen_memory :: "SystemMetrics \<Rightarrow> displayed \<Rightarrow> string list" where
  "screen_memory m d =
     [''Memory'',
      ''  Total         : '' @ show_fixed 2 (totalMemoryGiB d) @ '' GiB'',
      ''  Used          : '' @ show_fixed 2 (usedMemoryGiB d) @ '' GiB'',
      ''  Available     : '' @ show_fixed 2 (availableMemoryGiB d) @ '' GiB'',
      ''  Usage         : '' @ show_fixed 2 (memoryUsagePercent m) @ '' %'', []]"

definition screen_load :: "SystemMetrics \<Rightarrow> string list" where
  "screen_load m =
     [''Load Average'',
      ''  1 min         : '' @ show_fixed 2 (load1 m),
      ''  5 min         : '' @ show_fixed 2 (load5 m),
      ''  15 min        : '' @ show_fixed 2 (load15 m), []]"

definition screen_disk :: "SystemMetrics \<Rightarrow> displayed \<Rightarrow> string list" where
  "screen_disk m d =
     [''Disk '' @ diskMountPoint m,
      ''  Total         : '' @ show_fixed 2 (totalDiskGiB d) @ '' GiB'',
      ''  Used          : '' @ show_fixed 2 (usedDiskGiB d) @ '' GiB'',
      ''  Available     : '' @ show_fixed 2 (availableDiskGiB d) @ '' GiB'',
      ''  Usage         : '' @ show_fixed 2 (diskUsagePercent m) @ '' %'', []]"

definition screen_network :: "SystemMetrics \<Rightarrow> displayed \<Rightarrow> string list" where
  "screen_network m d =
     [''Network '' @ networkInterface m,
      ''  RX Rate       : '' @ show_fixed 2 (rxKiBPerSecond d) @ '' KiB/s  ('' @ show_fixed 2 (rxMiBPerSecond d) @ '' MiB/s)'',
      ''  TX Rate       : '' @ show_fixed 2 (txKiBPerSecond d) @ '' KiB/s  ('' @ show_fixed 2 (txMiBPerSecond d) @ '' MiB/s)'', []]"

definition table_dashes :: string where
  "table_dashes = replicate 54 (CHR ''-'')"

definition table_head :: "string list" where
  "table_head =
     [''Top Processes (by CPU)'', [],
      setw_left 10 ''PID'' @ setw_left 12 ''CPU%'' @ setw_left 12 ''MEM%'' @ setw_left 14 ''RSS(MiB)'' @ ''NAME'',
      table_dashes]"

definition rssMiB :: "ProcessMetric \<Rightarrow> double" where
  "rssMiB p = d_div (d_of_u64 (pm_residentMemoryKB p)) KiB"

definition process_row :: "ProcessMetric \<Rightarrow> string" where
  "process_row p = setw_left 10 (dec_int (pm_pid p)) @ setw_left 12 (show_fixed 2 (pm_cpuUsagePercent p)) @
     setw_left 12 (show_fixed 2 (pm_memoryUsagePercent p)) @ setw_left 14 (show_fixed 2 (rssMiB p)) @ pm_name p"

definition screen_head :: "SystemMetrics \<Rightarrow> displayed \<Rightarrow> string list" where
  "screen_head m d = screen_header @ screen_system m d @ screen_cpu m @ screen_memory m d @ screen_load m @
     screen_disk m d @ screen_network m d @ table_head"

definition displayMetrics :: "SystemMetrics \<Rightarrow> string" where
  "displayMetrics m = screen_clear @
     concat (map (\<lambda>line. line @ [nl])
       (screen_head m (displayed_values m) @ map process_row (topProcesses m) @ [[], screen_rule]))"

text \<open>What a turn of the agent shows before it serializes the snapshot.\<close>

definition agent_screen :: "ProcessInfo sorter \<Rightarrow> sample \<Rightarrow> agent_run \<Rightarrow> string result" where
  "agent_screen std_sort sa r =
     ebind (agent_read r sa) (\<lambda>cur. ebind (agent_metrics std_sort sa cur r) (\<lambda>metrics. Inr (displayMetrics metrics)))"

text \<open>What the turns of \<open>run\<close> print one after the other; a turn that throws may have printed before.\<close>

fun agent_screens :: "ProcessInfo sorter \<Rightarrow> sample list \<Rightarrow> agent_run \<Rightarrow> string" where
  "agent_screens std_sort [] r = []"
| "agent_screens std_sort (sa # rest) r =
     (if \<not> sa_running sa \<or> \<not> sa_runningAfterSleep sa then []
      else case agent_screen std_sort sa r of
        Inl e \<Rightarrow> []
      | Inr screen \<Rightarrow> screen @ (case agent_turn std_sort sa r of
          Some (Inr r) \<Rightarrow> agent_screens std_sort rest r
        | _ \<Rightarrow> []))"

section \<open>Reading the screen\<close>

text \<open>
  A reader of the screen: it leaves out the control sequence, takes the lines from the dashes
  to the next empty line and cuts each by the columns of the heading.
\<close>

definition column :: "nat \<Rightarrow> nat \<Rightarrow> string \<Rightarrow> string" where
  "column from_char width line = takeWhile (\<lambda>c. c \<noteq> CHR '' '') (take width (drop from_char line))"

definition read_row :: "string \<Rightarrow> string \<times> string \<times> string \<times> string \<times> string" where
  "read_row line = (column 0 10 line, column 10 12 line, column 22 12 line, column 34 14 line, drop 48 line)"

definition screen_lines :: "string \<Rightarrow> string list" where
  "screen_lines screen = get_lines (drop (length screen_clear) screen)"

definition read_table :: "string \<Rightarrow> (string \<times> string \<times> string \<times> string \<times> string) list" where
  "read_table screen = map read_row (takeWhile (\<lambda>line. line \<noteq> []) (tl (dropWhile (\<lambda>line. line \<noteq> table_dashes) (screen_lines screen))))"

definition row_of :: "ProcessMetric \<Rightarrow> string \<times> string \<times> string \<times> string \<times> string" where
  "row_of p = (dec_int (pm_pid p), show_fixed 2 (pm_cpuUsagePercent p), show_fixed 2 (pm_memoryUsagePercent p),
     show_fixed 2 (rssMiB p), pm_name p)"

text \<open>The bounds under which every column fits its field.\<close>

definition fits :: "ProcessMetric \<Rightarrow> bool" where
  "fits p \<longleftrightarrow> 0 \<le> pm_pid p \<and> int32_range (pm_pid p) \<and> d_upto 26 (pm_cpuUsagePercent p) \<and>
     d_upto 26 (pm_memoryUsagePercent p) \<and> pm_residentMemoryKB p \<le> 2 ^ 43"

lemma length_setw: "length s \<le> n \<Longrightarrow> length (setw_left n s) = n"
  by (simp add: setw_left_def)

lemma column_setw:
  assumes "length s \<le> n" and "CHR '' '' \<notin> set s"
  shows "takeWhile (\<lambda>c. c \<noteq> CHR '' '') (setw_left n s) = s"
  using assms(2) unfolding setw_left_def
  by (cases "n - length s") (auto simp: takeWhile_append takeWhile_eq_all_conv)

lemma length_dec: "0 < k \<Longrightarrow> n < 10 ^ k \<Longrightarrow> length (dec n) \<le> k"
proof (induction k arbitrary: n)
  case (Suc k)
  show ?case
  proof (cases "n < 10")
    case False
    then have "0 < k" using Suc.prems by (cases k) auto
    moreover have "n div 10 < 10 ^ k" using Suc.prems(2) by (simp add: less_mult_imp_div_less mult.commute)
    ultimately show ?thesis using Suc.IH False by (subst dec.simps) simp
  qed (subst dec.simps, simp)
qed simp

lemma units_bound: "q \<le> of_nat b \<Longrightarrow> fixed_units 2 q div 100 \<le> b"
proof -
  assume "q \<le> of_nat b"
  then have "round_half_even (q * 10 ^ 2) \<le> round_half_even (of_int (int (b * 100)))"
    by (intro round_half_even_mono) simp
  then have "round_half_even (q * 10 ^ 2) \<le> int (b * 100)" by (simp only: round_half_even_of_int)
  then have "fixed_units 2 q \<le> b * 100" unfolding fixed_units_def by linarith
  then show ?thesis by simp
qed

lemma length_fixed:
  assumes "d_upto j d" and "2 ^ nat j < (10::nat) ^ k" and "0 \<le> j" and "0 < k"
  shows "length (show_fixed 2 d) \<le> k + 3"
proof -
  obtain q where q: "d = DFin False q" "q \<le> 2 powi j" using assms(1) by (auto simp: d_upto_def)
  then have "q \<le> of_nat (2 ^ nat j)" using assms(3) by (simp add: power_int_def)
  then have "fixed_units 2 q div 100 \<le> 2 ^ nat j" by (rule units_bound)
  then have "length (dec (fixed_units 2 q div 100)) \<le> k" using assms(2,4) by (intro length_dec) auto
  moreover have "length (point_string (pad_dec 2 n)) = 3" for n by (simp add: point_string_def numeral_2_eq_2)
  ultimately show ?thesis by (simp add: q(1) show_sign_def Let_def)
qed

lemma digit_not_space: "\<not> is_digit (CHR '' '')" "\<not> is_digit nl"
  by (simp_all add: is_digit_def)

lemma dec_clean [simp]: "CHR '' '' \<notin> set (dec n)" "nl \<notin> set (dec n)"
  using dec_digits digit_not_space by blast+

lemma dec_int_clean [simp]: "CHR '' '' \<notin> set (dec_int i)" "nl \<notin> set (dec_int i)"
  by (simp_all add: dec_int_def)

lemma pad_dec_clean [simp]: "CHR '' '' \<notin> set (pad_dec k n)" "nl \<notin> set (pad_dec k n)"
  using pad_dec_digits digit_not_space by blast+

lemma fixed_clean [simp]: "CHR '' '' \<notin> set (show_fixed k d)" "nl \<notin> set (show_fixed k d)"
  by (cases d; simp add: show_sign_def point_string_def Let_def)+

lemma row_columns:
  assumes "fits p"
  shows "read_row (process_row p) = row_of p"
proof -
  have rss: "d_upto 33 (rssMiB p)"
  proof -
    have "unat (pm_residentMemoryKB p) \<le> unat (2 ^ 43 :: u64)" using assms by (simp add: fits_def word_le_nat_alt)
    then have "rat_of_nat (unat (pm_residentMemoryKB p)) \<le> rat_of_nat (unat (2 ^ 43 :: u64))" by (simp only: of_nat_le_iff)
    then have "d_upto 43 (d_of_u64 (pm_residentMemoryKB p))"
      unfolding d_of_u64_def d_of_nat_def by (intro d_upto_round) (simp_all add: power_int_def del: of_nat_unat)
    from d_upto_div [OF this, of "-10" 1024] show ?thesis by (simp add: rssMiB_def KiB_def)
  qed
  have "nat (pm_pid p) < 10 ^ 10" using assms by (auto simp: fits_def int32_range_def)
  then have lens: "length (dec_int (pm_pid p)) \<le> 10" "length (show_fixed 2 (pm_cpuUsagePercent p)) \<le> 12"
    "length (show_fixed 2 (pm_memoryUsagePercent p)) \<le> 12" "length (show_fixed 2 (rssMiB p)) \<le> 14"
    using assms length_dec [of 10 "nat (pm_pid p)"] length_fixed [of 26 "pm_cpuUsagePercent p" 8]
      length_fixed [of 26 "pm_memoryUsagePercent p" 8] length_fixed [OF rss, of 10]
    by (simp_all add: fits_def dec_int_def)
  show ?thesis
    unfolding read_row_def row_of_def column_def process_row_def
    using lens [THEN length_setw] lens [THEN column_setw] by simp
qed

lemma screen_lines_display:
  assumes "sendable m"
  shows "screen_lines (displayMetrics m) = screen_head m (displayed_values m) @ map process_row (topProcesses m) @ [[], screen_rule]"
proof -
  have "nl \<notin> set (hostname m)" "nl \<notin> set (diskMountPoint m)" "nl \<notin> set (networkInterface m)"
    "\<forall>p \<in> set (topProcesses m). nl \<notin> set (pm_name p)"
    using assms by (auto simp: sendable_def sendable_process_def line_text_def)
  then have "\<forall>line \<in> set (screen_head m (displayed_values m) @ map process_row (topProcesses m) @ [[], screen_rule]). nl \<notin> set line"
    by (auto simp: screen_head_def screen_header_def screen_system_def screen_cpu_def screen_memory_def screen_load_def
        screen_disk_def screen_network_def table_head_def table_dashes_def screen_rule_def process_row_def setw_left_def)
  then show ?thesis unfolding screen_lines_def displayMetrics_def
    by (simp only: drop_append drop_all diff_self_eq_0 drop_0 append_Nil order_refl get_lines_concat)
qed

lemma table_start:
  "tl (dropWhile (\<lambda>line. line \<noteq> table_dashes) (screen_head m d @ rows)) = rows"
proof -
  have "table_dashes = CHR ''-'' # replicate 53 (CHR ''-'')" unfolding table_dashes_def by (simp add: numeral_eq_Suc)
  then have other: "c # s \<noteq> table_dashes" if "c \<noteq> CHR ''-''" for c s using that by (metis list.inject)
  have "dropWhile (\<lambda>line. line \<noteq> table_dashes) (screen_head m d @ rows) = table_dashes # rows"
    using other by (simp add: screen_head_def screen_header_def screen_system_def screen_cpu_def screen_memory_def screen_load_def
        screen_disk_def screen_network_def table_head_def screen_rule_def setw_left_def) (simp add: table_dashes_def)
  then show ?thesis by simp
qed

lemma seconds_split:
  fixes n :: nat
  shows "n div 86400 * 86400 + n mod 86400 div 3600 * 3600 + n mod 3600 div 60 * 60 + n mod 60 = n"
proof -
  have "n mod 86400 div 3600 * 3600 + n mod 3600 = n mod 86400"
    using div_mult_mod_eq [of "n mod 86400" 3600] by (simp add: mod_mod_cancel)
  moreover have "n mod 3600 div 60 * 60 + n mod 60 = n mod 3600"
    using div_mult_mod_eq [of "n mod 3600" 60] by (simp add: mod_mod_cancel)
  ultimately show ?thesis using div_mult_mod_eq [of n 86400] by linarith
qed

lemma uptime_split:
  fixes u :: u64
  shows "unat (u div 86400) * 86400 + unat (u mod 86400 div 3600) * 3600 + unat (u mod 3600 div 60) * 60 + unat u mod 60 = unat u"
    and "unat (u mod 86400 div 3600) < 24" and "unat (u mod 3600 div 60) < 60"
  using seconds_split [of "unat u"]
  by (simp_all add: unat_div_distrib unat_mod_distrib less_mult_imp_div_less)

text \<open>
  C31: the screen can be read back: for a snapshot that can be sent and whose processes fit the
  columns (percentages from 0 to \<open>2 ^ 26\<close>, at most \<open>2 ^ 43\<close> KB of memory), the rows of the table give for each process its id, its name and its numbers with
  two decimals, in order, and the line of the uptime splits it into whole days, hours below
  24 and minutes below 60.
\<close>

theorem display_readable:
  assumes "sendable m" and "\<forall>p \<in> set (topProcesses m). fits p"
  shows "read_table (displayMetrics m) = map row_of (topProcesses m) \<and>
     (\<exists>days hours minutes. screen_lines (displayMetrics m) ! 5 =
        ''Uptime          : '' @ dec days @ '' days '' @ dec hours @ '' hours '' @ dec minutes @ '' minutes'' \<and>
        hours < 24 \<and> minutes < 60 \<and>
        days * 86400 + hours * 3600 + minutes * 60 + unat (uptimeSeconds m) mod 60 = unat (uptimeSeconds m))"
proof (intro conjI exI)
  let ?d = "displayed_values m"
  have row: "process_row p \<noteq> []" if "p \<in> set (topProcesses m)" for p
    using assms(1) that by (auto simp: sendable_def sendable_process_def line_text_def process_row_def)
  have "takeWhile (\<lambda>line. line \<noteq> []) (map process_row (topProcesses m) @ [[], screen_rule]) = map process_row (topProcesses m)"
    using row by (subst takeWhile_append2) auto
  then show "read_table (displayMetrics m) = map row_of (topProcesses m)"
    using assms(2) row_columns by (simp add: read_table_def screen_lines_display [OF assms(1)] table_start)
  show "screen_lines (displayMetrics m) ! 5 = ''Uptime          : '' @ dec (unat (up_days ?d)) @ '' days '' @
      dec (unat (up_hours ?d)) @ '' hours '' @ dec (unat (up_minutes ?d)) @ '' minutes''"
    by (simp add: screen_lines_display [OF assms(1)] screen_head_def screen_header_def screen_system_def)
qed (simp_all add: displayed_values_def uptime_split)

theorem display_readable_witness:
  "read_table (displayMetrics demo_metrics) =
     [(''1'', ''0.00'', ''0.00'', ''1.00'', ''init, the first''), (''4242'', ''25.00'', ''0.00'', ''0.00'', ''sh'')]"
proof -
  have fit: "\<forall>p \<in> set (topProcesses demo_metrics). fits p"
    using rnd_mag_of_nat [of 25]
    by (simp add: demo_metrics_def fits_def int32_range_def) (simp add: d_upto_def dbl_limit_def pow2_def)
  have "map row_of (topProcesses demo_metrics) =
     [(''1'', ''0.00'', ''0.00'', ''1.00'', ''init, the first''), (''4242'', ''25.00'', ''0.00'', ''0.00'', ''sh'')]"
    by (simp add: demo_metrics_def row_of_def rssMiB_def) code_simp
  with display_readable [OF demo_sendable fit] show ?thesis by (simp del: map_map)
qed

end
