(* ===== verification/Programs.thy ===== *)
theory Programs
  imports Config_File Agent_Display Tcp_Server
begin

text \<open>
  The two executables: \<open>src/main.cpp\<close>, the agent, and \<open>src/server_main.cpp\<close>, the server.
  The contents of the configuration file and the results of the system calls are parameters.
  A program that ends has an exit code and what it wrote to the two output streams, the
  records of the logger apart; for the agent that includes its display.
\<close>

datatype program_end = StillRunning | Exited int string string

section \<open>The agent\<close>

text \<open>The flag is a \<open>sig_atomic_t\<close>, which the agent reads as its condition to go on.\<close>

definition handleSignal :: "int \<Rightarrow> int \<Rightarrow> int" where
  "handleSignal signal g_running = (if signal = SIGINT \<or> signal = SIGTERM then 0 else g_running)"

text \<open>The results of the two calls of \<open>sigaction\<close>.\<close>

definition registerSignalHandlers :: "int \<Rightarrow> int \<Rightarrow> bool" where
  "registerSignalHandlers onInterrupt onTerminate = (if onInterrupt = -1 then False else if onTerminate = -1 then False else True)"

definition agent_settings :: "config \<Rightarrow> (double \<times> string \<times> u16) result" where
  "agent_settings config =
     ebind (config_getDouble config ''agent.interval'' (DFin False 1)) (\<lambda>interval.
     let serverIp = config_get config ''agent.server_ip'' ''127.0.0.1''
     in ebind (config_getInt config ''agent.server_port'' 9000) (\<lambda>serverPort.
        Inr (interval, serverIp, word_of_int serverPort)))"

definition error_line :: "cxx_exn \<Rightarrow> string" where
  "error_line e = ''Error: '' @ what e @ [nl]"

definition settings_text :: "double \<Rightarrow> string \<Rightarrow> u16 \<Rightarrow> string" where
  "settings_text interval serverIp serverPort =
     ''Agent configuration:'' @ [nl] @ ''  interval='' @ show_g interval @ ''s'' @ [nl] @
     ''  server='' @ serverIp @ '':'' @ dec (unat serverPort) @ [nl]"

definition agent_main ::
    "string option \<Rightarrow> int \<Rightarrow> int \<Rightarrow> string option \<Rightarrow> int \<Rightarrow> ProcessInfo sorter \<Rightarrow> Monitor_Agent.sample \<Rightarrow> int \<Rightarrow>
     Monitor_Agent.sample list \<Rightarrow> program_end" where
  "agent_main configFile onInterrupt onTerminate routes cpuCount std_sort first now samples =
     (case load_config configFile [] of
        (False, _) \<Rightarrow> Exited 1 [] (''Failed to load configuration file'' @ [nl])
      | (True, config) \<Rightarrow>
     (case agent_settings config of
        Inl e \<Rightarrow> Exited 1 [] (error_line e)
      | Inr (interval, serverIp, serverPort) \<Rightarrow>
          let out = settings_text interval serverIp serverPort
          in if \<not> registerSignalHandlers onInterrupt onTerminate
             then Exited 1 out (''Failed to register signal handlers'' @ [nl])
             else case new_agent routes cpuCount interval serverIp serverPort of
                    Inl e \<Rightarrow> Exited 1 out (error_line e)
                  | Inr agent \<Rightarrow>
                      let out = out @ (case agent_start first now agent of
                            Inl e \<Rightarrow> [] | Inr r \<Rightarrow> agent_screens std_sort samples r)
                      in (case run_agent std_sort first now samples agent of
                         agent_outcome.Waiting _ \<Rightarrow> StillRunning
                       | agent_outcome.Threw e \<Rightarrow> Exited 1 out (error_line e)
                       | agent_outcome.Stopped _ \<Rightarrow> Exited 0 (out @ [nl] @ ''LMonitor Agent shutting down gracefully...'' @ [nl]) [])))"

section \<open>The server\<close>

text \<open>
  \<open>serve\<close> stands for the turns of the reactor between start and shutdown, whose steps are the
  definitions of the server and of its loop: it gives the parts after the loop has ended,
  the exception that left the loop, or nothing while the loop runs.  The second component is
  what \<open>main\<close> itself logs.
\<close>

definition server_main ::
    "string option \<Rightarrow> server_calls \<Rightarrow> (server_parts \<Rightarrow> server_parts result option) \<Rightarrow> string option \<Rightarrow> (int \<Rightarrow> bool) \<Rightarrow>
     program_end \<times> log_entry list" where
  "server_main configFile cs serve settime ctl =
     (case load_config configFile [] of
        (False, _) \<Rightarrow> (Exited 1 [] (''Failed to load configuration file: ../config/lmonitor.conf'' @ [nl]), [])
      | (True, config) \<Rightarrow>
          let started = [(Info, ''LMonitor server starting...''), (Info, ''Configuration loaded successfully'')];
              failed = (\<lambda>log e. (Exited 1 [] (error_line e), log @ [(Error, ''Server exception: '' @ what e)]))
          in case ebind (config_getInt config ''server.tcp_port'' 9000) (\<lambda>tcpPort.
                  ebind (config_getInt config ''server.http_port'' 8080) (\<lambda>httpPort. Inr (tcpPort, httpPort))) of
               Inl e \<Rightarrow> failed started e
             | Inr (tcpPort, httpPort) \<Rightarrow>
                 let ports = started @ [(Info, ''TCP server port: '' @ dec_int tcpPort), (Info, ''HTTP server port: '' @ dec_int httpPort)]
                 in case ebind (new_tcp_server (word_of_int tcpPort) config) (\<lambda>(port, httpPort).
                         server_setup cs port httpPort config) of
                      Inl e \<Rightarrow> failed ports e
                    | Inr p \<Rightarrow>
                        (case serve p of
                           None \<Rightarrow> (StillRunning, ports)
                         | Some (Inl e) \<Rightarrow> failed ports e
                         | Some (Inr p) \<Rightarrow>
                             (case server_shutdown settime ctl p of
                                Inl e \<Rightarrow> failed ports e
                              | Inr _ \<Rightarrow> (Exited 0 [] [], ports @ [(Info, ''LMonitor server stopped'')]))))"

text \<open>
  A port outside sixteen bits is not rejected: the agent connects to, and the server listens
  on, its value modulo \<open>2 ^ 16\<close>.
\<close>

lemma agent_settings_port:
  assumes "config_getDouble config ''agent.interval'' (DFin False 1) = Inr interval" and "config_getInt config ''agent.server_port'' 9000 = Inr n"
  shows "agent_settings config = Inr (interval, config_get config ''agent.server_ip'' ''127.0.0.1'', word_of_int n) \<and>
     uint (word_of_int n :: u16) = n mod 2 ^ 16"
  using assms by (simp add: agent_settings_def unsigned_of_int take_bit_eq_mod)

lemma new_tcp_server_port:
  assumes "config_getInt config ''server.http_port'' 8080 = Inr n"
  shows "new_tcp_server port config = Inr (port, word_of_int n) \<and> uint (word_of_int n :: u16) = n mod 2 ^ 16"
  using assms by (simp add: new_tcp_server_def unsigned_of_int take_bit_eq_mod)

end
