(* ===== verification/Logger.thy ===== *)
theory Logger
  imports Num_Text
begin

text \<open>
  The log: \<open>include/log/Logger.h\<close> and \<open>src/log/Logger.cpp\<close>.  The state of the one logger holds
  its stream, the two files it owns and what it wrote to the terminal; each call runs under
  the logger's mutex and gets the results of its file operations as a parameter.  The theory
  shows that the two files keep a contiguous end of everything that was logged, which covers
  the last ten MiB, and that the active file does not outgrow them.
\<close>

section \<open>Paths\<close>

text \<open>\<open>std::filesystem::path\<close> on POSIX names: \<open>filename\<close>, \<open>parent_path\<close> and \<open>operator/\<close>.\<close>

abbreviation slash :: char where "slash \<equiv> CHR ''/''"

definition path_filename :: "string \<Rightarrow> string" where
  "path_filename p = rev (takeWhile (\<lambda>c. c \<noteq> slash) (rev p))"

definition path_parent :: "string \<Rightarrow> string" where
  "path_parent p =
     (let directory = rev (dropWhile (\<lambda>c. c \<noteq> slash) (rev p));
          trimmed = rev (dropWhile (\<lambda>c. c = slash) (rev directory))
      in if trimmed = [] \<and> directory \<noteq> [] then [slash] else trimmed)"

definition path_append :: "string \<Rightarrow> string \<Rightarrow> string" where
  "path_append p q =
     (if q \<noteq> [] \<and> hd q = slash then q
      else if p = [] \<or> last p = slash then p @ q else p @ [slash] @ q)"

text \<open>\<open>link\<close> is what \<open>readlink\<close> gave for the executable, \<open>None\<close> when it failed or gave nothing.\<close>

definition detectLogFilePath :: "string option \<Rightarrow> string" where
  "detectLogFilePath link =
     (case link of
        None \<Rightarrow> ''logs/lmonitor.log''
      | Some executablePath \<Rightarrow>
          let executableName = path_filename executablePath;
              executableDirectory = path_parent executablePath;
              projectDirectory =
                (if path_filename executableDirectory = ''build'' then path_parent executableDirectory
                 else if path_filename executableDirectory = ''bin'' \<and>
                         path_filename (path_parent executableDirectory) = ''lmonitor''
                 then path_parent executableDirectory
                 else executableDirectory);
              logDirectory = path_append projectDirectory ''logs''
          in path_append logDirectory (executableName @ ''.log''))"

lemma detectLogFilePath_layouts:
  "detectLogFilePath (Some ''/home/u/LMonitor/build/lmonitor_agent'') = ''/home/u/LMonitor/logs/lmonitor_agent.log''"
  "detectLogFilePath (Some ''/opt/lmonitor/bin/lmonitor_server'') = ''/opt/lmonitor/logs/lmonitor_server.log''"
  "detectLogFilePath (Some ''/usr/bin/lmonitor_agent'') = ''/usr/bin/logs/lmonitor_agent.log''"
  by (simp_all add: detectLogFilePath_def path_filename_def path_parent_def path_append_def Let_def)

section \<open>Lines\<close>

fun log_levelToString :: "log_level \<Rightarrow> string" where
  "log_levelToString Info = ''INFO''"
| "log_levelToString Warning = ''WARN''"
| "log_levelToString Error = ''ERROR''"

record broken_time =
  tm_year :: int
  tm_mon :: nat
  tm_mday :: nat
  tm_hour :: nat
  tm_min :: nat
  tm_sec :: nat

definition currentTimestamp :: "broken_time option \<Rightarrow> string" where
  "currentTimestamp localTime =
     (case localTime of
        None \<Rightarrow> ''0000-00-00 00:00:00''
      | Some t \<Rightarrow> dec_int (tm_year t + 1900) @ ''-'' @ pad_dec 2 (tm_mon t + 1) @ ''-'' @ pad_dec 2 (tm_mday t) @ '' '' @
          pad_dec 2 (tm_hour t) @ '':'' @ pad_dec 2 (tm_min t) @ '':'' @ pad_dec 2 (tm_sec t))"

definition log_line :: "broken_time option \<Rightarrow> string \<Rightarrow> log_level \<Rightarrow> string \<Rightarrow> string" where
  "log_line localTime thread level message =
     currentTimestamp localTime @ '' ['' @ log_levelToString level @ '']'' @ '' [thread='' @ thread @ ''] '' @ message"

section \<open>State\<close>

text \<open>
  \<open>lg_open\<close> and \<open>lg_bad\<close> are \<open>is_open\<close> and the error state of the stream; \<open>lg_active\<close> and
  \<open>lg_backup\<close> are the files with the log's name and with \<open>.1\<close> after it, if they exist.
\<close>

record logger =
  lg_path :: string
  lg_open :: bool
  lg_bad :: bool
  lg_currentFileSize :: u64
  lg_active :: "string option"
  lg_backup :: "string option"
  lg_out :: string
  lg_err :: string

definition MAX_LOG_FILE_SIZE :: u64 where "MAX_LOG_FILE_SIZE = 10 * 1024 * 1024"

text \<open>
  What the file operations of one call do: whether the two files can be examined, the error
  texts of removing and renaming, whether the two kinds of opening and reading the size
  succeed, and how many bytes of the line reach the file.
\<close>

record file_ops =
  fo_backupStat :: bool
  fo_remove :: "string option"
  fo_activeStat :: bool
  fo_rename :: "string option"
  fo_openApp :: bool
  fo_openTrunc :: bool
  fo_size :: bool
  fo_written :: nat

abbreviation contents :: "string option \<Rightarrow> string" where
  "contents f \<equiv> (case f of None \<Rightarrow> [] | Some c \<Rightarrow> c)"

definition log_warning :: "string \<Rightarrow> logger \<Rightarrow> logger" where
  "log_warning msg s = s\<lparr> lg_err := lg_err s @ ''Logger warning: '' @ msg @ [nl] \<rparr>"

section \<open>Operations\<close>

definition openLogFile :: "file_ops \<Rightarrow> logger \<Rightarrow> logger" where
  "openLogFile ops s =
     (let s = s\<lparr> lg_open := False, lg_bad := False \<rparr>
      in if \<not> fo_openApp ops
         then log_warning (''failed to open log file: '' @ lg_path s) (s\<lparr> lg_bad := True \<rparr>)
         else s\<lparr> lg_open := True, lg_active := Some (contents (lg_active s)),
                 lg_currentFileSize := (if fo_size ops then word_of_nat (length (contents (lg_active s))) else 0) \<rparr>)"

text \<open>The three parts of a rotation: the old backup goes, the active file is renamed, a new one is created.\<close>

definition remove_backup :: "file_ops \<Rightarrow> logger \<Rightarrow> logger" where
  "remove_backup ops s =
     (if lg_backup s \<noteq> None \<and> fo_backupStat ops
      then case fo_remove ops of
             None \<Rightarrow> s\<lparr> lg_backup := None \<rparr>
           | Some e \<Rightarrow> log_warning (''failed to remove old rotated log: '' @ lg_path s @ ''.1: '' @ e) s
      else s)"

definition start_fresh :: "file_ops \<Rightarrow> logger \<Rightarrow> logger" where
  "start_fresh ops s =
     (let s = s\<lparr> lg_currentFileSize := 0, lg_bad := False \<rparr>
      in if \<not> fo_openTrunc ops
         then log_warning (''failed to create new log file after rotation: '' @ lg_path s) (s\<lparr> lg_bad := True \<rparr>)
         else s\<lparr> lg_open := True, lg_active := Some [] \<rparr>)"

definition rotateIfNeeded :: "file_ops \<Rightarrow> u64 \<Rightarrow> logger \<Rightarrow> logger" where
  "rotateIfNeeded ops incomingBytes s =
     (if lg_currentFileSize s + incomingBytes \<le> MAX_LOG_FILE_SIZE then s
      else let s = remove_backup ops (s\<lparr> lg_open := False \<rparr>)
           in if lg_active s \<noteq> None \<and> fo_activeStat ops
              then case fo_rename ops of
                     Some e \<Rightarrow> openLogFile ops (log_warning (''failed to rotate log file: '' @ lg_path s @ '': '' @ e) s)
                   | None \<Rightarrow> start_fresh ops (s\<lparr> lg_backup := lg_active s, lg_active := None \<rparr>)
              else start_fresh ops s)"

definition write_file :: "file_ops \<Rightarrow> string \<Rightarrow> logger \<Rightarrow> logger" where
  "write_file ops record_text s =
     (if \<not> lg_open s then s
      else let s = (if lg_bad s then s
                    else s\<lparr> lg_active := Some (contents (lg_active s) @ take (fo_written ops) record_text),
                            lg_bad := fo_written ops < length record_text \<rparr>)
           in s\<lparr> lg_currentFileSize := lg_currentFileSize s + word_of_nat (length record_text) \<rparr>)"

definition logger_log ::
    "file_ops \<Rightarrow> broken_time option \<Rightarrow> string \<Rightarrow> log_level \<Rightarrow> string \<Rightarrow> logger \<Rightarrow> logger" where
  "logger_log ops localTime thread level message s =
     (let record_text = log_line localTime thread level message @ [nl];
          s = (if level = Error then s\<lparr> lg_err := lg_err s @ record_text \<rparr> else s\<lparr> lg_out := lg_out s @ record_text \<rparr>);
          s = rotateIfNeeded ops (word_of_nat (length record_text)) s
      in write_file ops record_text s)"

text \<open>What the other components call, and the getter of the path.\<close>

definition logger_info :: "file_ops \<Rightarrow> broken_time option \<Rightarrow> string \<Rightarrow> string \<Rightarrow> logger \<Rightarrow> logger" where
  "logger_info ops localTime thread message s = logger_log ops localTime thread Info message s"

definition logger_warning :: "file_ops \<Rightarrow> broken_time option \<Rightarrow> string \<Rightarrow> string \<Rightarrow> logger \<Rightarrow> logger" where
  "logger_warning ops localTime thread message s = logger_log ops localTime thread Warning message s"

definition logger_error :: "file_ops \<Rightarrow> broken_time option \<Rightarrow> string \<Rightarrow> string \<Rightarrow> logger \<Rightarrow> logger" where
  "logger_error ops localTime thread message s = logger_log ops localTime thread Error message s"

definition logFilePath :: "logger \<Rightarrow> string" where
  "logFilePath s = lg_path s"

text \<open>
  The constructor: the error text of creating the directory, whether the size of an existing
  file could be read, the operations of a rotation and those of opening, and the files found.
\<close>

definition new_logger ::
    "string option \<Rightarrow> string option \<Rightarrow> bool \<Rightarrow> file_ops \<Rightarrow> file_ops \<Rightarrow> string option \<Rightarrow> string option \<Rightarrow> logger" where
  "new_logger link mkdir sized rotating opening active backup =
     (let path = detectLogFilePath link;
          s = \<lparr> lg_path = path, lg_open = False, lg_bad = False, lg_currentFileSize = 0,
                lg_active = active, lg_backup = backup, lg_out = [], lg_err = [] \<rparr>;
          s = (case mkdir of
                 Some e \<Rightarrow> if path_parent path \<noteq> []
                   then log_warning (''failed to create log directory: '' @ path_parent path @ '': '' @ e) s else s
               | None \<Rightarrow> s);
          s = (if active \<noteq> None \<and> sized then s\<lparr> lg_currentFileSize := word_of_nat (length (contents active)) \<rparr> else s);
          s = (if lg_currentFileSize s \<ge> MAX_LOG_FILE_SIZE then rotateIfNeeded rotating 0 s else s)
      in openLogFile opening s)"

definition destroy_logger :: "logger \<Rightarrow> logger" where
  "destroy_logger s = s\<lparr> lg_open := False \<rparr>"

section \<open>The files keep the end of the log\<close>

text \<open>Operations that succeed for a record of \<open>n\<close> bytes.\<close>

definition ops_ok :: "file_ops \<Rightarrow> nat \<Rightarrow> bool" where
  "ops_ok ops n \<longleftrightarrow> fo_activeStat ops \<and> fo_rename ops = None \<and> fo_openApp ops \<and> fo_openTrunc ops \<and> fo_size ops \<and>
     n \<le> fo_written ops \<and> n < 2 ^ 63"

text \<open>
  The logger after \<open>all\<close> has been written over its lifetime and before: the files hold an end
  of it, all of it or more than the limit, and the active file is within the limit or is the
  one record \<open>r\<close>.
\<close>

definition keeps_end :: "string \<Rightarrow> string set \<Rightarrow> logger \<Rightarrow> bool" where
  "keeps_end all rs s \<longleftrightarrow>
     (\<exists>lost. all = lost @ contents (lg_backup s) @ contents (lg_active s) \<and>
        (lost = [] \<or> unat MAX_LOG_FILE_SIZE < length (contents (lg_backup s) @ contents (lg_active s)))) \<and>
     (length (contents (lg_active s)) \<le> unat MAX_LOG_FILE_SIZE \<or> contents (lg_active s) \<in> rs)"

definition logger_ok :: "logger \<Rightarrow> bool" where
  "logger_ok s \<longleftrightarrow> lg_open s \<and> \<not> lg_bad s \<and> lg_active s \<noteq> None \<and>
     lg_currentFileSize s = word_of_nat (length (contents (lg_active s))) \<and> length (contents (lg_active s)) < 2 ^ 63"

lemma unat_MAX_LOG: "unat MAX_LOG_FILE_SIZE = 10485760"
  by (simp add: MAX_LOG_FILE_SIZE_def)

lemma size_sum:
  assumes "a < 2 ^ 63" and "b < 2 ^ 63"
  shows "(word_of_nat a + word_of_nat b :: u64) \<le> MAX_LOG_FILE_SIZE \<longleftrightarrow> a + b \<le> unat MAX_LOG_FILE_SIZE"
proof -
  have "unat (word_of_nat (a + b) :: u64) = (a + b) mod 2 ^ 64" by (simp only: unat_of_nat) simp
  then have "unat (word_of_nat a + word_of_nat b :: u64) = a + b" using assms by (simp only: of_nat_add) simp
  then show ?thesis by (simp add: word_le_nat_alt)
qed

lemma contents_Some [simp]: "f \<noteq> None \<Longrightarrow> Some (contents f) = f"
  by auto

lemma remove_backup_simps [simp]:
  "lg_active (remove_backup ops s) = lg_active s" "lg_open (remove_backup ops s) = lg_open s"
  by (auto simp: remove_backup_def log_warning_def split: option.split)

text \<open>One rotation moves the active file and leaves an empty one.\<close>

lemma rotate_moves:
  assumes "ops_ok ops n" and "lg_active s \<noteq> None" and "\<not> lg_currentFileSize s + incomingBytes \<le> MAX_LOG_FILE_SIZE"
  shows "let t = rotateIfNeeded ops incomingBytes s
         in lg_open t \<and> \<not> lg_bad t \<and> lg_active t = Some [] \<and> lg_currentFileSize t = 0 \<and> lg_backup t = lg_active s"
  using assms by (simp add: rotateIfNeeded_def ops_ok_def Let_def start_fresh_def)

lemma write_file_ok:
  assumes "ops_ok ops (length r)" and "logger_ok s" and "length (contents (lg_active s)) + length r < 2 ^ 63"
  shows "logger_ok (write_file ops r s)" and "lg_active (write_file ops r s) = Some (contents (lg_active s) @ r)"
    and "lg_backup (write_file ops r s) = lg_backup s"
  using assms by (auto simp: write_file_def logger_ok_def ops_ok_def)

lemma keeps_end_log:
  assumes ok: "logger_ok s" and keeps: "keeps_end all rs s"
    and ops: "ops_ok ops (length (log_line localTime thread level message @ [nl]))"
    and r: "r = log_line localTime thread level message @ [nl]" and "r \<in> rs"
  shows "logger_ok (logger_log ops localTime thread level message s) \<and>
         keeps_end (all @ r) rs (logger_log ops localTime thread level message s)"
proof -
  define s1 where "s1 = (if level = Error then s\<lparr> lg_err := lg_err s @ r \<rparr> else s\<lparr> lg_out := lg_out s @ r \<rparr>)"
  have s1: "logger_ok s1" "keeps_end all rs s1" "lg_active s1 = lg_active s" "lg_backup s1 = lg_backup s"
    "lg_currentFileSize s1 = lg_currentFileSize s"
    using ok keeps by (auto simp: s1_def logger_ok_def keeps_end_def)
  define s2 where "s2 = rotateIfNeeded ops (word_of_nat (length r)) s1"
  have run: "logger_log ops localTime thread level message s = write_file ops r s2"
    by (simp add: logger_log_def r [symmetric] s1_def [symmetric] s2_def Let_def)
  have len: "length r < 2 ^ 63" using ops by (simp add: ops_ok_def r)
  obtain c where c: "lg_active s1 = Some c" "length c < 2 ^ 63" "lg_currentFileSize s1 = word_of_nat (length c)"
    using s1(1) by (auto simp: logger_ok_def)
  obtain lost where lost: "all = lost @ contents (lg_backup s1) @ c"
    "lost = [] \<or> unat MAX_LOG_FILE_SIZE < length (contents (lg_backup s1) @ c)"
    using s1(2) c(1) by (auto simp: keeps_end_def)
  show ?thesis
  proof (cases "length c + length r \<le> unat MAX_LOG_FILE_SIZE")
    case True
    then have s2: "s2 = s1" using size_sum [OF c(2) len] by (simp add: s2_def rotateIfNeeded_def c(3))
    have "length (contents (lg_active s2)) + length r < 2 ^ 63" using True by (simp add: s2 c(1) unat_MAX_LOG)
    note w = write_file_ok [OF ops [folded r] s1(1) [folded s2] this]
    then show ?thesis using True lost by (auto simp: run keeps_end_def s2 c(1))
  next
    case False
    then have "\<not> lg_currentFileSize s1 + word_of_nat (length r) \<le> MAX_LOG_FILE_SIZE"
      using size_sum [OF c(2) len] by (simp add: c(3))
    from rotate_moves [OF ops _ this] c(1)
    have s2: "lg_active s2 = Some []" "lg_backup s2 = Some c" "logger_ok s2"
      by (simp_all add: s2_def logger_ok_def Let_def)
    have "length (contents (lg_active s2)) + length r < 2 ^ 63" using len by (simp add: s2)
    note w = write_file_ok [OF ops [folded r] s2(3) this]
    have "all @ r = (lost @ contents (lg_backup s1)) @ c @ r" using lost(1) by simp
    moreover have "unat MAX_LOG_FILE_SIZE < length (c @ r)" using False by simp
    ultimately have "keeps_end (all @ r) rs (write_file ops r s2)"
      unfolding keeps_end_def w(2,3) s2(1,2) using \<open>r \<in> rs\<close>
      by (intro conjI exI [of _ "lost @ contents (lg_backup s1)"]) simp_all
    then show ?thesis using w(1) by (simp add: run)
  qed
qed

text \<open>A lifetime: the constructor and the calls of \<open>log\<close> in the order of the mutex.\<close>

record log_call =
  lc_ops :: file_ops
  lc_time :: "broken_time option"
  lc_thread :: string
  lc_level :: log_level
  lc_message :: string

definition call_line :: "log_call \<Rightarrow> string" where
  "call_line c = log_line (lc_time c) (lc_thread c) (lc_level c) (lc_message c) @ [nl]"

definition log_all :: "log_call list \<Rightarrow> logger \<Rightarrow> logger" where
  "log_all calls s = foldl (\<lambda>s c. logger_log (lc_ops c) (lc_time c) (lc_thread c) (lc_level c) (lc_message c) s) s calls"

lemma keeps_end_mono: "keeps_end all rs s \<Longrightarrow> rs \<subseteq> rs' \<Longrightarrow> keeps_end all rs' s"
  by (auto simp: keeps_end_def)

lemma keeps_end_log_all:
  assumes "logger_ok s" and "keeps_end all rs s" and "\<forall>c \<in> set calls. ops_ok (lc_ops c) (length (call_line c))"
    and "call_line ` set calls \<subseteq> rs"
  shows "logger_ok (log_all calls s) \<and> keeps_end (all @ concat (map call_line calls)) rs (log_all calls s)"
  using assms
proof (induction calls arbitrary: s all)
  case (Cons c calls)
  from keeps_end_log [OF Cons.prems(1,2), of "lc_ops c" "lc_time c" "lc_thread c" "lc_level c" "lc_message c" "call_line c"]
  have "logger_ok (logger_log (lc_ops c) (lc_time c) (lc_thread c) (lc_level c) (lc_message c) s)"
    "keeps_end (all @ call_line c) rs (logger_log (lc_ops c) (lc_time c) (lc_thread c) (lc_level c) (lc_message c) s)"
    using Cons.prems(3,4) by (auto simp: call_line_def)
  from Cons.IH [OF this] Cons.prems(3,4) show ?case by (simp add: log_all_def)
qed (simp add: log_all_def)

lemma open_after:
  assumes "ops_ok opening n" and "length (contents (lg_active s)) < 2 ^ 63"
    and "length (contents (lg_active s)) \<le> unat MAX_LOG_FILE_SIZE" and "all = contents (lg_backup s) @ contents (lg_active s)"
  shows "logger_ok (openLogFile opening s) \<and> keeps_end all {} (openLogFile opening s)"
  using assms by (auto simp: openLogFile_def ops_ok_def logger_ok_def keeps_end_def)

lemma keeps_end_new:
  assumes "ops_ok rotating n" and "ops_ok opening n" and "length (contents active) < 2 ^ 63"
  shows "logger_ok (new_logger link None True rotating opening active backup) \<and>
    keeps_end (contents backup @ contents active) {} (new_logger link None True rotating opening active backup)"
proof -
  define s where "s = \<lparr> lg_path = detectLogFilePath link, lg_open = False, lg_bad = False,
    lg_currentFileSize = word_of_nat (length (contents active)), lg_active = active, lg_backup = backup, lg_out = [], lg_err = [] \<rparr>"
  have run: "new_logger link None True rotating opening active backup =
      openLogFile opening (if lg_currentFileSize s \<ge> MAX_LOG_FILE_SIZE then rotateIfNeeded rotating 0 s else s)"
    by (cases active) (simp_all add: new_logger_def s_def Let_def)
  have size: "lg_currentFileSize s \<le> MAX_LOG_FILE_SIZE \<longleftrightarrow> length (contents active) \<le> unat MAX_LOG_FILE_SIZE"
    using size_sum [OF assms(3), of 0] by (simp add: s_def)
  show ?thesis
  proof (cases "length (contents active) \<le> unat MAX_LOG_FILE_SIZE")
    case True
    then have "rotateIfNeeded rotating 0 s = s" using size by (simp add: rotateIfNeeded_def)
    then show ?thesis using open_after [OF assms(2), of s] assms(3) True by (simp add: run) (simp add: s_def)
  next
    case False
    then have "active \<noteq> None" by (auto split: option.splits)
    then have "lg_active s \<noteq> None" by (simp add: s_def)
    from rotate_moves [OF assms(1) this, of 0] False size
    have t: "lg_active (rotateIfNeeded rotating 0 s) = Some []" "lg_backup (rotateIfNeeded rotating 0 s) = active"
      by (simp_all add: Let_def) (simp_all add: s_def)
    have "\<not> lg_currentFileSize s \<le> MAX_LOG_FILE_SIZE" using False size by simp
    then have "new_logger link None True rotating opening active backup = openLogFile opening (rotateIfNeeded rotating 0 s)"
      by (simp add: run)
    moreover have "logger_ok (openLogFile opening (rotateIfNeeded rotating 0 s))"
      using assms(2) t by (auto simp: openLogFile_def ops_ok_def logger_ok_def)
    moreover have "keeps_end (contents backup @ contents active) {} (openLogFile opening (rotateIfNeeded rotating 0 s))"
      using assms(2) t False by (auto simp: openLogFile_def ops_ok_def keeps_end_def)
    ultimately show ?thesis by simp
  qed
qed

text \<open>
  C23: while the file operations succeed, the backup and the active file together are an end of
  everything that the files held at the start and that was logged since, and nothing is lost
  from its beginning unless more than ten MiB remain; the active file is within ten MiB
  except when it is one larger record.
\<close>

theorem log_files_keep_end:
  assumes "ops_ok rotating 0" and "ops_ok opening 0" and "length (contents active) < 2 ^ 63"
    and "\<forall>c \<in> set calls. ops_ok (lc_ops c) (length (call_line c))"
    and "s = log_all calls (new_logger link None True rotating opening active backup)"
  shows "(\<exists>lost. contents backup @ contents active @ concat (map call_line calls) =
             lost @ contents (lg_backup s) @ contents (lg_active s) \<and>
           (lost = [] \<or> 10 * 1024 * 1024 < length (contents (lg_backup s) @ contents (lg_active s)))) \<and>
         (length (contents (lg_active s)) \<le> 10 * 1024 * 1024 \<or> contents (lg_active s) \<in> call_line ` set calls)"
proof -
  note start = keeps_end_new [OF assms(1-3), of link backup]
  from keeps_end_log_all [OF _ keeps_end_mono [OF _ empty_subsetI] assms(4) subset_refl] start
  have "keeps_end (contents backup @ contents active @ concat (map call_line calls)) (call_line ` set calls) s"
    unfolding assms(5) by (metis append.assoc)
  then show ?thesis by (simp add: keeps_end_def unat_MAX_LOG)
qed

text \<open>A first start with one line.\<close>

definition demo_ops :: "nat \<Rightarrow> file_ops" where
  "demo_ops n = \<lparr> fo_backupStat = True, fo_remove = None, fo_activeStat = True, fo_rename = None, fo_openApp = True,
     fo_openTrunc = True, fo_size = True, fo_written = n \<rparr>"

definition demo_call :: log_call where
  "demo_call = \<lparr> lc_ops = demo_ops 100, lc_time = None, lc_thread = ''1'', lc_level = Info, lc_message = ''started'' \<rparr>"

lemma demo_call_line: "call_line demo_call = ''0000-00-00 00:00:00 [INFO] [thread=1] started'' @ [nl]"
  by (simp add: call_line_def demo_call_def log_line_def currentTimestamp_def)

theorem log_files_keep_end_witness:
  "\<exists>lost. call_line demo_call = lost @
     contents (lg_backup (log_all [demo_call] (new_logger None None True (demo_ops 0) (demo_ops 0) None None))) @
     contents (lg_active (log_all [demo_call] (new_logger None None True (demo_ops 0) (demo_ops 0) None None)))"
proof -
  have ok: "ops_ok (demo_ops 0) 0" "ops_ok (lc_ops demo_call) (length (call_line demo_call))"
    by (simp_all add: demo_call_line) (simp_all add: ops_ok_def demo_ops_def demo_call_def)
  from log_files_keep_end [OF ok(1) ok(1) _ _ refl, of None "[demo_call]" None None] ok(2)
  show ?thesis by auto
qed

end
