(* ===== verification/Spec2Isabelle.thy ===== *)
theory Spec2Isabelle
  imports Wire_Format Config_File History_Store State_Tracker Alert_Manager Thread_Pool
    Tcp_Connection Tcp_Client Server_Clients Timer_Scan Server_Stop Server_Log Http_Server Agent_Display Programs Logger
begin

text \<open>
  LMonitor: an agent samples a Linux host and sends framed snapshots over TCP to a server, which
  keeps the latest snapshot and a history per host, tracks which hosts are silent, raises
  alerts and answers HTTP requests.  Paths below are relative to \<open>src/\<close> of the program, and each
  has its declarations under \<open>include/\<close>.

  \<^bold>\<open>How the parts work together.\<close>  The agent (\<open>agent/MonitorAgent.cpp\<close>) reads the files under
  \<open>/proc\<close> through its collectors, serializes a snapshot, puts a length before it and sends it.
  On the server (\<open>server/TcpServer.cpp\<close>) one thread runs the reactor: the acceptor hands
  descriptors to connections, which cut the stream into messages and submit each to a pool
  of workers.  A worker deserializes the message, adds to the history, updates the alerts,
  stores the snapshot, marks the host as online and queues a line to log on the reactor.  A
  timer scans the hosts; a thread of its own answers HTTP from the stores.

  \<^bold>\<open>Theories and sources.\<close>

  \<^item> \<open>Prelude\<close>: integers of fixed width, exceptions as values with one bind, strings and lines.
    \<open>Floats\<close>: binary64 with rounding to nearest.  \<open>Num_Text\<close>: numbers to text and back as the
    standard library does.  \<open>Input_Stream\<close>: formatted extraction.  \<open>Hash_Map\<close>:
    \<open>std::unordered_map\<close>, with its laws as the locale \<open>hash_map\<close>.
  \<^item> \<open>System_Metrics\<close> (\<open>model/SystemMetrics.h\<close>), \<open>Metrics_Serializer\<close> and \<open>Metrics_Deserializer\<close>
    (\<open>serializer/\<close>), \<open>Wire_Format\<close>: what is printed is read back, what is accepted is valid,
    no key is ignored.
  \<^item> \<open>Frame_Codec\<close> (\<open>protocol/FrameCodec.cpp\<close>): the header is the length in network order, and the
    locale \<open>framing\<close> states what its clients use: frames are taken from a stream in order.
  \<^item> \<open>Config_File\<close> (\<open>config/Config.cpp\<close>), \<open>Logger\<close> (\<open>log/Logger.cpp\<close>), \<open>Timer_Fd\<close>
    (\<open>timer/TimerFd.cpp\<close>).
  \<^item> \<open>Metrics_Store\<close>, \<open>History_Store\<close>, \<open>State_Tracker\<close> (\<open>store/\<close>); \<open>Alert_Evaluator\<close> and
    \<open>Alert_Manager\<close> (\<open>alert/\<close>): each is described as a function of the operations so far, for the
    alerts as a refinement of a state machine per host and metric.
  \<^item> \<open>Thread_Pool\<close> (\<open>thread/ThreadPool.cpp\<close>): workers, submitters and stop as interleaved steps;
    order, capacity, no lost wake-up, and stop runs every task and ends.
  \<^item> \<open>Channel\<close>, \<open>Event_Loop\<close>, \<open>Acceptor\<close> (\<open>reactor/\<close>): dispatch with destruction of the owner as a
    possible memory error, functors and wake-ups against other threads, and the locale
    \<open>connection_owner\<close> that accounts for descriptors.
  \<^item> \<open>Tcp_Connection\<close>, \<open>Tcp_Client\<close> (\<open>network/\<close>): the two ends of the stream.
  \<^item> \<open>Tcp_Server\<close> (\<open>server/TcpServer.cpp\<close>): start, shutdown, the callbacks \<open>run\<close> registers and the
    task of a message.  \<open>Server_Clients\<close>: the events of several connections.  \<open>Ingest\<close>: the tasks of several workers interleaved by critical sections.
    \<open>Server_System\<close>: the serving server, in which the reactor, the pool, the workers, the timer and
    the queued functors take their steps side by side, with every call of the logger outside of
    a lock as a step of its own and one set of clocks.  \<open>Timer_Scan\<close>: the scan of the timer, alone
    and overlapping a message.  \<open>Server_Stop\<close>: the stop of the pool while messages are queued.
    \<open>Server_Log\<close>: what the log says of messages that are refused or rejected.
  \<^item> \<open>Http_Response\<close>, \<open>Http_Server\<close> (\<open>http/\<close>), \<open>Json\<close>: requests, bodies and the reader a client would
    apply to them.
  \<^item> \<open>Collectors\<close>, \<open>Process_Collector\<close> (\<open>collector/\<close>), \<open>Monitor_Agent\<close> and
    \<open>Agent_Display\<close> (\<open>agent/\<close>): the agent and its terminal; \<open>Programs\<close> (\<open>main.cpp\<close>,
    \<open>server_main.cpp\<close>): the two executables.
  \<^item> \<open>Transition_System\<close>: invariants and simulations of step relations.

  A class is a record whose fields have the names of its members; a method is a function of
  that name from the old state to the new one, with an exception as the left summand of its
  result.  What the kernel or another thread decides is an argument: the results of
  \<open>recv\<close>, \<open>send\<close> and \<open>accept4\<close>, times, contents of files, the moment of an interleaving.  Ghost
  fields collect what leaves the program: bytes on the stream, messages delivered,
  descriptors closed, entries handed to the logger.

  \<^bold>\<open>What the groups of lemmas show.\<close>  Round trips: number and text, snapshot and message,
  payload and frame, configuration, files of \<open>/proc\<close>, JSON.  Invariants by induction over steps:
  the pool, the reactor, the workers, connections, clients, the log files.  Refinement: alerts
  and host states against abstract machines, process usage against a join, the serving server
  against its workers alone.  Bounds: usage percentages, ages, reconnect delays.  Across
  components, the theorems of this theory follow a snapshot from the agent's turn to the
  deserialized value on the server, and on, among other clients, through pool, workers and
  store to the text a client of the HTTP interface reads.  Some theorems
  state behaviour that was hardly meant: a connection that the close callback destroys is
  used again (\<open>connection_erased_use_after_free\<close>), the alert of a host ends when another host
  reports (\<open>alert_of_other_host_flaps\<close>), an older snapshot may stay the latest
  (\<open>older_message_stays\<close>), a host that has just reported may be tracked as offline
  (\<open>overlapping_scan_marks_offline\<close>), the CPU usage is at least 100 after the idle counters fell
  (\<open>cpu_usage_of_deltas\<close>), and a snapshot taken 3.9 milliseconds or less after the last one
  cannot be sent (\<open>agent_metrics_sendable\<close>).

  \<^bold>\<open>Bounds and fuel.\<close>  Loops over a buffer or a file recurse on what is left of it.  Loops that
  wait for the outside take the list of what they get: its end is a value that says the call
  is still waiting, so no theorem holds because a loop was cut off.  The measure of
  \<open>Server_Stop\<close> counts three entries to log for a step, which the three rules of the alerts bound,
  and five steps for a message.  Sizes of containers are
  natural numbers; sizes and counters that come from outside or that the code compares
  after arithmetic are words.

  \<^bold>\<open>Interfaces.\<close>  \<open>hash_map\<close>, \<open>framing\<close> and \<open>connection_owner\<close> are interpreted on the model of the
  component that provides them.  \<open>invariant_system\<close> is interpreted on the reactor, the pool, the
  workers and the serving server, and \<open>simulated_invariant\<close>, which joins it with \<open>simulation\<close>, on the
  serving server over its workers.  The sort of the process list is an argument with the
  contract \<open>sorts\<close> of \<open>std::sort\<close>, which an insertion sort is shown to meet.

  \<^bold>\<open>Not modelled.\<close>  The HTML page; build files and documents.  The memory model is sequentially
  consistent and the destruction of objects when an exception leaves a constructor of the
  server or its \<open>run\<close> is not followed.  Memory is taken to suffice: \<open>std::bad_alloc\<close> is no outcome.
  \<open>errno\<close> is part of the result of a call.
\<close>

section \<open>From the agent to the server\<close>

lemma agent_drains:
  assumes "agent_reaches std_sort r0 ms r" and "sorts std_sort" and "agent_ok routes r0" and "\<not> isConnected (ag_tcpClient r0)"
    and "isConnected (ag_tcpClient r)"
  shows "drains tryDecode (cl_stream (ag_tcpClient r)) (map serialize ms) []" and "\<forall>m \<in> set ms. sendable m"
proof -
  obtain frames where frames: "list_all2 (\<lambda>m f. sendable m \<and> encode (serialize m) = Inr f) ms frames"
    and stream: "cl_stream (ag_tcpClient r) = concat frames"
    using agent_stream [OF assms(1-4)] assms(5) by (auto simp: whole_frames_def stream_of_def)
  from frames show "\<forall>m \<in> set ms. sendable m" by (induction rule: list_all2_induct) auto
  have "list_all2 (\<lambda>p f. encode p = Inr f) (map serialize ms) frames"
    using frames by (simp add: list_all2_map1) (erule list_all2_mono, simp)
  from fc.drains_frames [OF this fc.drains_nil]
  show "drains tryDecode (cl_stream (ag_tcpClient r)) (map serialize ms) []" by (simp add: stream)
qed

text \<open>
  C2: the snapshots of the turns since an agent connected are delivered by the connection on
  the server one by one and in order, whatever happened before, however the sends were split
  and however the bytes are cut into reads; the deserializer accepts each of them with its
  doubles rounded to two decimals, and nothing stays in the buffer.
\<close>

theorem agent_to_server:
  assumes "agent_reaches std_sort r0 ms r" and "sorts std_sort" and "agent_ok routes r0" and "\<not> isConnected (ag_tcpClient r0)"
    and "isConnected (ag_tcpClient r)" and "concat chunks = cl_stream (ag_tcpClient r)"
    and "open_connection c" and "tc_pendingData c = []"
  shows "handleRead (map Received chunks @ [RecvEagain]) c =
       Inr (c\<lparr> tc_pendingData := [], tc_delivered := tc_delivered c @ map (\<lambda>m. (tc_clientName c, serialize m)) ms \<rparr>) \<and>
     map (\<lambda>m. deserialize (serialize m)) ms = map (\<lambda>m. Inr (rounded m)) ms"
proof
  have "drains tryDecode (tc_pendingData c @ concat chunks) (map serialize ms) []"
    using agent_drains(1) [OF assms(1-5)] by (simp add: assms(6,8))
  moreover have "drains tryDecode (tc_pendingData c) [] (tc_pendingData c)" by (simp add: assms(8) fc.drains_nil)
  ultimately show "handleRead (map Received chunks @ [RecvEagain]) c =
      Inr (c\<lparr> tc_pendingData := [], tc_delivered := tc_delivered c @ map (\<lambda>m. (tc_clientName c, serialize m)) ms \<rparr>)"
    using recv_loop_drains [of c chunks "map serialize ms" "[]" "[RecvEagain]"] assms(7)
    by (simp add: handleRead_def open_connection_def o_def)
  show "map (\<lambda>m. deserialize (serialize m)) ms = map (\<lambda>m. Inr (rounded m)) ms"
    using agent_drains(2) [OF assms(1-5)] by (simp add: roundtrip_metrics)
qed

text \<open>One turn of the sample host, whose frame is sent in two parts.\<close>

lemma demo_agent_run:
  "\<exists>r. agent_reaches insertion_sort demo_run [demo_snapshot] r \<and> isConnected (ag_tcpClient r)"
proof -
  obtain frame where frame: "encode (serialize demo_snapshot) = Inr frame" "length frame = 450" using demo_frame by blast
  define r1 where "r1 = agent_reconnect (demo_sample None) demo_run"
  have conn: "isConnected (ag_tcpClient r1)" "cl_stream (ag_tcpClient r1) = []"
    by (simp_all add: r1_def agent_reconnect_def demo_sample_def demo_run_def connectToServer_def createSocket_def agent_log_def
        client_log_def new_client_def isConnected_def)
  define client where "client = (ag_tcpClient r1)\<lparr> cl_stream := cl_stream (ag_tcpClient r1) @ take 1 frame @ take 449 (drop 1 frame) \<rparr>"
  have "sendAll (sa_sends (demo_sample None)) frame (ag_tcpClient r1) = Some (True, client)"
    using conn(1) frame(2) by (simp add: sendAll_def demo_sample_def send_loop.simps client_def)
  then have "agent_send (demo_sample None) frame r1 = Some (r1\<lparr> ag_tcpClient := client \<rparr>)"
    using conn(1) by (simp add: agent_send_def)
  then have turn: "agent_turn insertion_sort (demo_sample None) demo_run =
      Some (Inr (agent_advance demo_reading (r1\<lparr> ag_tcpClient := client \<rparr>)))"
    using frame(1) unfolding r1_def by (rule demo_turn)
  define r where "r = agent_advance demo_reading (r1\<lparr> ag_tcpClient := client \<rparr>)"
  have "agent_reaches insertion_sort demo_run [demo_snapshot] r"
    using reaches_turn [OF reaches_start demo_good demo_read demo_metrics_of_sample turn]
    by (simp add: r_def demo_run_def new_client_def isConnected_def)
  moreover have "isConnected (ag_tcpClient r)" using conn(1) by (simp add: r_def client_def isConnected_def)
  ultimately show ?thesis by blast
qed

lemma demo_apart:
  "\<not> isConnected (ag_tcpClient demo_run)" "open_connection demo_connection" "tc_pendingData demo_connection = []"
  "tc_clientName demo_connection = ''10.0.0.2:40000''" "tc_delivered demo_connection = []"
  by (simp_all add: demo_run_def new_client_def isConnected_def open_connection_def demo_connection_def)

text \<open>The stream arrives in two reads.\<close>

theorem agent_to_server_witness:
  "\<exists>r chunks. agent_reaches insertion_sort demo_run [demo_snapshot] r \<and> length chunks = 2 \<and>
     concat chunks = cl_stream (ag_tcpClient r) \<and>
     handleRead (map Received chunks @ [RecvEagain]) demo_connection =
       Inr (demo_connection\<lparr> tc_delivered := [(''10.0.0.2:40000'', serialize demo_snapshot)] \<rparr>)"
proof -
  obtain r where reach: "agent_reaches insertion_sort demo_run [demo_snapshot] r" and on: "isConnected (ag_tcpClient r)"
    using demo_agent_run by blast
  define chunks where "chunks = [take 3 (cl_stream (ag_tcpClient r)), drop 3 (cl_stream (ag_tcpClient r))]"
  have stream: "concat chunks = cl_stream (ag_tcpClient r)" "length chunks = 2" by (simp_all add: chunks_def)
  have "handleRead (map Received chunks @ [RecvEagain]) demo_connection =
       Inr (demo_connection\<lparr> tc_delivered := [(''10.0.0.2:40000'', serialize demo_snapshot)] \<rparr>)"
    using agent_to_server [OF reach sorts_insertion_sort demo_agent_ok demo_apart(1) on stream(1) demo_apart(2,3)]
    by (simp add: demo_connection_def)
  with reach stream show ?thesis by blast
qed

section \<open>From the agent to the reader of the dashboard\<close>

text \<open>The request for the details of a host, and the body of its answer when a snapshot is stored.\<close>

lemma accepted_snapshots_mem: "x \<in> set (accepted_snapshots ts) \<longleftrightarrow> (\<exists>t \<in> set ts. deserialize (snd t) = Inr x)"
proof (induction ts)
  case (Cons t ts)
  then show ?case by (cases "deserialize (snd t)") (auto simp: accepted_snapshots_Cons)
qed (simp add: accepted_snapshots_def)

lemma rounded_fields [simp]: "hostname (rounded m) = hostname m" "networkInterface (rounded m) = networkInterface m"
  by (simp_all add: rounded_def)

lemma rounded_stored_ok:
  assumes "sendable m" and "escapable (hostname m)" and "escapable (networkInterface m)"
  shows "stored_ok \<lparr> sm_metrics = rounded m, updatedAt = t \<rparr>"
  using deserialize_InrI_valid [OF roundtrip_metrics [OF assms(1)]] assms(2,3) by (simp add: stored_ok_def valid_metrics_def)

lemma snapshot_answer:
  assumes "stores_of ss s" and "rounded m \<in> set ss" and "\<forall>x \<in> set ss. hostname x = hostname m \<longrightarrow> x \<in> set (map rounded ms)"
    and "\<forall>m \<in> set ms. sendable m" and "\<forall>m \<in> set ms. escapable (hostname m) \<and> escapable (networkInterface m)"
  shows "\<exists>m' t. m' \<in> set ms \<and> hostname m' = hostname m \<and>
     parses_to (buildHostDetailJson (sv_metrics s) (hostname m)) (detail_json \<lparr> sm_metrics = rounded m', updatedAt = t \<rparr>)"
proof -
  have "rounded m \<in> set (of_host (hostname m) ss)" using assms(2) by (simp add: of_host_def)
  then have "of_host (hostname m) ss \<noteq> []" by fastforce
  moreover have "case getLatest (hostname m) (sv_metrics s) of None \<Rightarrow> of_host (hostname m) ss = []
      | Some r \<Rightarrow> sm_metrics r \<in> set (of_host (hostname m) ss)"
    using assms(1) by (simp add: stores_of_def)
  ultimately obtain stored where stored: "getLatest (hostname m) (sv_metrics s) = Some stored"
    "sm_metrics stored \<in> set (of_host (hostname m) ss)" by (auto split: option.splits)
  then have "hostname (sm_metrics stored) = hostname m" "sm_metrics stored \<in> set (map rounded ms)"
    using assms(3) by (auto simp: of_host_def)
  then obtain m' where m': "m' \<in> set ms" "hostname m' = hostname m" "sm_metrics stored = rounded m'" by auto
  then have eq: "stored = \<lparr> sm_metrics = rounded m', updatedAt = updatedAt stored \<rparr>" by (cases stored) simp
  have "stored_ok stored" using rounded_stored_ok [of m' "updatedAt stored"] assms(4,5) m'(1) eq by metis
  then have "parses_to (buildHostDetailJson (sv_metrics s) (hostname m)) (detail_json stored)"
    using render_parses [OF detail_json_ok] detail_render [OF stored(1)] by simp
  then show ?thesis using m' eq by metis
qed

text \<open>
  C1: from a host to the reader of the dashboard.  An agent's bytes reach its connection in any
  cuts, among the events of any other clients; the server has worked off what it accepted,
  its threads in any order, and accepted each message of the agent and from no other client
  a snapshot of that host.  Then asking for the host gives a JSON text that reads as the
  details of one of the agent's snapshots of it, rounded to two decimals.
\<close>

theorem snapshot_reaches_client:
  assumes "agent_reaches std_sort r0 ms r" and "sorts std_sort" and "agent_ok routes r0" and "\<not> isConnected (ag_tcpClient r0)"
    and "isConnected (ag_tcpClient r)" and "client_turns es (cs, s1, []) = Inr (cs', s1', offered)"
    and "um_find cs fd = Some c" and "settled c" and "tc_pendingData c = []"
    and "own_events fd es = map readable cuts" and "concat (concat cuts) = cl_stream (ag_tcpClient r)"
    and "server_stores config = Inr s0" and "server_pool spawn config s0 = Inr (p, s)"
    and "serving_step\<^sup>*\<^sup>* (serving_start p s) g" and "tasks (sg_pool g) = [] \<and> running (sg_pool g) = []"
    and "set (offered_by fd offered) \<subseteq> set (sg_accepted g)"
    and "\<forall>t \<in> set (sg_accepted g). \<forall>x. deserialize (snd t) = Inr x \<and> hostname x = h \<longrightarrow> t \<in> set (offered_by fd offered)"
    and "he_store env = sv_metrics (sg_server g)"
    and "m \<in> set ms" and "hostname m = h" and "\<forall>m \<in> set ms. escapable (hostname m) \<and> escapable (networkInterface m)"
    and "\<forall>c \<in> set h. \<not> is_space c \<and> c \<noteq> CHR ''/''" and "length h \<le> 8191" and "\<not> starts_with ''history'' h"
  shows "\<exists>body m' t. handleClient env (Some (''GET '' @ (''/api/hosts/'' @ h) @ '' HTTP/1.1'' @ crlf @ header)) = Some (okJson body) \<and>
     m' \<in> set ms \<and> hostname m' = h \<and> parses_to body (detail_json \<lparr> sm_metrics = rounded m', updatedAt = t \<rparr>)"
proof -
  note agent = agent_drains [OF assms(1-5)]
  have "drains tryDecode (tc_pendingData c @ concat (concat cuts)) (map serialize ms) []"
    using agent(1) by (simp add: assms(9,11))
  from client_alone [OF assms(6-8,10) this]
  have offered: "offered_by fd offered = map (\<lambda>m. (tc_clientName c, serialize m)) ms" by (simp add: offered_by_def o_def)
  define ss where "ss = accepted_snapshots (sg_accepted g)"
  have stores: "stores_of ss ((sg_server g)\<lparr> sv_functors := sg_ran g @ sg_batch g @ sv_functors (sg_server g) \<rparr>)"
    using serving_idle [OF assms(12-14)] assms(15) by (simp add: ss_def)
  have "(tc_clientName c, serialize m) \<in> set (sg_accepted g)" using assms(16,19) offered by auto
  then have mem: "rounded m \<in> set ss"
    using roundtrip_metrics [of m] agent(2) assms(19) by (force simp: ss_def accepted_snapshots_mem)
  have own: "\<forall>x \<in> set ss. hostname x = hostname m \<longrightarrow> x \<in> set (map rounded ms)"
  proof (intro ballI impI)
    fix x assume "x \<in> set ss" "hostname x = hostname m"
    then obtain t where t: "t \<in> set (sg_accepted g)" "deserialize (snd t) = Inr x" by (auto simp: ss_def accepted_snapshots_mem)
    then have "t \<in> set (offered_by fd offered)" using assms(17,20) \<open>hostname x = hostname m\<close> by blast
    then obtain y where "y \<in> set ms" "snd t = serialize y" unfolding offered by auto
    then show "x \<in> set (map rounded ms)" using t(2) roundtrip_metrics [of y] agent(2) by auto
  qed
  from snapshot_answer [OF stores mem own agent(2) assms(21)]
  obtain m' t where "m' \<in> set ms" "hostname m' = h"
    "parses_to (buildHostDetailJson (he_store env) h) (detail_json \<lparr> sm_metrics = rounded m', updatedAt = t \<rparr>)"
    using assms(18,20) by auto
  moreover have "handleClient env (Some (''GET '' @ (''/api/hosts/'' @ h) @ '' HTTP/1.1'' @ crlf @ header)) =
      Some (okJson (buildHostDetailJson (he_store env) h))"
    using answer_host [OF assms(22,23)] assms(24) by simp
  ultimately show ?thesis by blast
qed

theorem snapshot_reaches_client_witness:
  "\<exists>s0 p s g body t. server_stores [] = Inr s0 \<and> server_pool (\<lambda>_. None) [] s0 = Inr (p, s) \<and>
     serving_step\<^sup>*\<^sup>* (serving_start p s) g \<and> sg_accepted g = [(''10.0.0.2:40000'', serialize demo_snapshot)] \<and>
     handleClient (empty_env\<lparr> he_store := sv_metrics (sg_server g) \<rparr>)
       (Some (''GET '' @ (''/api/hosts/'' @ hostname demo_snapshot) @ '' HTTP/1.1'' @ crlf @ crlf)) = Some (okJson body) \<and>
     parses_to body (detail_json \<lparr> sm_metrics = rounded demo_snapshot, updatedAt = t \<rparr>)"
proof -
  obtain r where reach: "agent_reaches insertion_sort demo_run [demo_snapshot] r" and on: "isConnected (ag_tcpClient r)"
    using demo_agent_run by blast
  note agent = agent_drains [OF reach sorts_insertion_sort demo_agent_ok demo_apart(1) on]
  have settled: "settled demo_connection" by (simp add: settled_def open_connection_def demo_connection_def tryDecode_Nil)
  have find: "um_find [(7 :: int, demo_connection)] 7 = Some demo_connection" by (simp add: um_find_def)
  define es where "es = [Ready_fd 7 EPOLLIN (map Received [cl_stream (ag_tcpClient r)] @ [RecvEagain]), Accepts None 8 ''10.0.0.3:50000'']"
  have own: "own_events 7 es = map readable [[cl_stream (ag_tcpClient r)]]" by (simp add: es_def readable_def)
  have stream: "concat (concat [[cl_stream (ag_tcpClient r)]]) = cl_stream (ag_tcpClient r)" by simp
  have "drains tryDecode (tc_pendingData demo_connection @ concat [cl_stream (ag_tcpClient r)]) (map serialize [demo_snapshot]) []"
    using agent(1) by (simp add: demo_apart)
  note read = settled_read [OF settled this]
  have alive: "tc_alive demo_connection" by (simp add: demo_connection_def)
  obtain s0 where s0: "server_stores [] = Inr s0" using demo_stores by blast
  have "\<exists>cs s1 offered. client_turns es ([(7, demo_connection)], s0, []) = Inr (cs, s1, offered)"
    using read(1) find alive by (auto simp: es_def Let_def split: prod.split)
  then obtain cs s1 offered where run: "client_turns es ([(7, demo_connection)], s0, []) = Inr (cs, s1, offered)" by blast
  have offered: "offered_by 7 offered = [(''10.0.0.2:40000'', serialize demo_snapshot)]"
    using client_alone [OF run find settled own, of "map serialize [demo_snapshot]" "[]"] agent(1)
    by (simp add: demo_apart offered_by_def)
  obtain p :: "(string \<times> string) pool" and s where p: "server_pool (\<lambda>_. None) [] s0 = Inr (p, s)" using demo_pool by blast
  obtain g where g: "serving_step\<^sup>*\<^sup>* (serving_start p s) g" "tasks (sg_pool g) = [] \<and> running (sg_pool g) = []"
    "sg_accepted g = [(''10.0.0.2:40000'', serialize demo_snapshot)]"
    using serves_one [OF p, of "''10.0.0.2:40000''"] by blast
  have acc: "set (offered_by 7 offered) \<subseteq> set (sg_accepted g)"
    "\<forall>t \<in> set (sg_accepted g). \<forall>x. deserialize (snd t) = Inr x \<and> hostname x = hostname demo_snapshot \<longrightarrow> t \<in> set (offered_by 7 offered)"
    by (simp_all add: g(3) offered)
  have host: "hostname demo_snapshot = ''web-1''" "networkInterface demo_snapshot = ''eth0''"
    by (simp_all add: demo_snapshot_def)
  have texts: "\<forall>m \<in> set [demo_snapshot]. escapable (hostname m) \<and> escapable (networkInterface m)"
    "\<forall>c \<in> set (hostname demo_snapshot). \<not> is_space c \<and> c \<noteq> CHR ''/''"
    "length (hostname demo_snapshot) \<le> 8191" "\<not> starts_with ''history'' (hostname demo_snapshot)"
    by (simp_all add: host escapable_def is_control_def is_space_def)
  have "demo_snapshot \<in> set [demo_snapshot]" by simp
  from snapshot_reaches_client [OF reach sorts_insertion_sort demo_agent_ok demo_apart(1) on run find settled demo_apart(3) own stream
      s0 p g(1,2) acc _ this refl texts, of "empty_env\<lparr> he_store := sv_metrics (sg_server g) \<rparr>" crlf]
  show ?thesis using s0 p g(1,3) by auto
qed

end
